(* ===== verification/Fabric_Prelude.thy ===== *)
theory Fabric_Prelude
  imports Main "HOL-Library.Word" "HOL-Library.Signed_Division" "HOL-Library.Monad_Syntax"
    "HOL-Library.Char_ord" "HOL-Library.List_Lexorder"
begin

unbundle bit_operations_syntax

text \<open>
  The prelude of the development: the names of the machine types, the collections of
  simplification rules, and the generic facts on words, lists and C arithmetic that the
  component theories share.

  Conventions. A C \<open>uint32_t\<close> or \<open>uint64_t\<close> is a \<open>32 word\<close> or a \<open>64 word\<close>, so its
  arithmetic wraps. A C \<open>int\<close> or \<open>int64_t\<close> whose overflow would be undefined behaviour is an
  \<open>int\<close>: the theorems speak of runs that stay in range, and the range facts they need are
  hypotheses written with \<open>c_int\<close>. Division and remainder of C are \<open>sdiv\<close> and \<open>smod\<close>, which
  round towards zero. A C string is the list of its characters without the terminating NUL,
  and a byte is an \<open>8 word\<close>.
\<close>

type_synonym u8 = "8 word"
type_synonym u32 = "32 word"
type_synonym u64 = "64 word"
type_synonym bytes = "8 word list"

named_theorems wire_defs \<open>definitions of the wire names and the places\<close>
named_theorems c_arith \<open>C division and remainder on numbers that are not negative\<close>

definition c_int :: "int \<Rightarrow> bool" where
  "c_int v \<longleftrightarrow> - (2 ^ 31) \<le> v \<and> v < 2 ^ 31"

text \<open>A C string ends at its first NUL.\<close>

definition c_string :: "string \<Rightarrow> string" where
  "c_string s = takeWhile (\<lambda>c. c \<noteq> CHR 0x00) s"

section \<open>C arithmetic\<close>

lemma sdiv_nonneg [c_arith]: "0 \<le> a \<Longrightarrow> 0 \<le> b \<Longrightarrow> a sdiv b = a div b" for a b :: int
  by (cases "a = 0"; cases "b = 0") (auto simp: signed_divide_int_def sgn_if)

lemma smod_nonneg [c_arith]: "0 \<le> a \<Longrightarrow> 0 \<le> b \<Longrightarrow> a smod b = a mod b" for a b :: int
  by (cases "a = 0") (auto simp: signed_modulo_int_def sgn_if)

lemma sdiv_le_self: "0 \<le> a \<Longrightarrow> 0 < b \<Longrightarrow> a sdiv b \<le> a" for a b :: int
  by (simp add: c_arith) (metis div_by_1 int_one_le_iff_zero_less zdiv_mono2 zero_less_one)

lemma sdiv_ge_0: "0 \<le> a \<Longrightarrow> 0 < b \<Longrightarrow> 0 \<le> a sdiv b" for a b :: int
  by (simp add: c_arith pos_imp_zdiv_nonneg_iff)

text \<open>Two residues of two coprime moduli determine a number below their product.\<close>

lemma two_residues_unique:
  fixes a b m n k l :: int
  assumes cop: "coprime m n" and km: "coprime k m" and ln: "coprime l n"
    and range: "0 \<le> a" "a < m * n" "0 \<le> b" "b < m * n"
    and eq1: "(a * k) mod m = (b * k) mod m" and eq2: "(a * l) mod n = (b * l) mod n"
  shows "a = b"
proof -
  have "m dvd a * k - b * k" and "n dvd a * l - b * l"
    using eq1 eq2 by (simp_all add: mod_eq_dvd_iff)
  then have "m dvd (a - b) * k" and "n dvd (a - b) * l"
    by (simp_all add: left_diff_distrib)
  then have "m dvd a - b" and "n dvd a - b"
    using km ln by (simp_all add: coprime_commute coprime_dvd_mult_left_iff)
  then have "m * n dvd a - b"
    using cop by (simp add: divides_mult)
  moreover have "\<bar>a - b\<bar> < m * n"
    using range by linarith
  ultimately show ?thesis
    using zdvd_not_zless[of "\<bar>a - b\<bar>" "m * n"] by (cases "a = b") auto
qed

lemma div_mod_less:
  fixes v v' k :: nat
  assumes "v < v'"
  shows "v div k < v' div k \<or> v div k = v' div k \<and> v mod k < v' mod k"
proof (cases "v div k = v' div k")
  case True
  then show ?thesis using assms by (metis div_mult_mod_eq nat_add_left_cancel_less)
next
  case False
  then show ?thesis using div_le_mono[of v v' k] assms by simp
qed

text \<open>Below a multiple of \<open>n\<close> every residue occurs equally often.\<close>

lemma residue_count:
  fixes n q r :: nat
  assumes "r < n"
  shows "card {v. v < q * n \<and> v mod n = r} = q"
proof -
  have "{v. v < q * n \<and> v mod n = r} = (\<lambda>k. k * n + r) ` {..<q}"
  proof (intro set_eqI iffI)
    fix v assume v: "v \<in> {v. v < q * n \<and> v mod n = r}"
    then have "v div n < q" using assms by (simp add: less_mult_imp_div_less)
    moreover have "v = v div n * n + r" using v div_mult_mod_eq[of v n] by simp
    ultimately show "v \<in> (\<lambda>k. k * n + r) ` {..<q}" by blast
  next
    fix v assume "v \<in> (\<lambda>k. k * n + r) ` {..<q}"
    then obtain k where k: "k < q" "v = k * n + r" by auto
    then have "v < Suc k * n" using assms by simp
    also have "\<dots> \<le> q * n" using k by (intro mult_le_mono1) simp
    finally show "v \<in> {v. v < q * n \<and> v mod n = r}" using k assms by simp
  qed
  moreover have "inj_on (\<lambda>k. k * n + r) {..<q}" using assms by (auto intro: inj_onI)
  ultimately show ?thesis by (simp add: card_image)
qed

section \<open>Words\<close>

text \<open>A right shift folded back by exclusive or loses nothing: the top bits are
  unchanged, and every lower bit is recovered from the ones above it.\<close>

lemma xor_shift_inj:
  fixes x y :: "'a::len word"
  assumes "0 < s" and eq: "x XOR drop_bit s x = y XOR drop_bit s y"
  shows "x = y"
proof (rule bit_word_eqI)
  fix n assume "n < LENGTH('a)"
  then show "bit x n = bit y n"
  proof (induction "LENGTH('a) - n" arbitrary: n rule: less_induct)
    case less
    have above: "bit x (s + n) = bit y (s + n)"
    proof (cases "s + n < LENGTH('a)")
      case True
      then show ?thesis using less.hyps[of "s + n"] less.prems \<open>0 < s\<close> by simp
    next
      case False
      then show ?thesis by (metis bit_imp_le_length linorder_not_less)
    qed
    have "bit (x XOR drop_bit s x) n = bit (y XOR drop_bit s y) n"
      using eq by simp
    then show ?case
      using above less.prems by (auto simp: bit_simps)
  qed
qed

lemma mult_inverse_inj:
  fixes c d x y :: "'a::len word"
  assumes "c * d = 1" and "x * c = y * c"
  shows "x = y"
  using assms by (metis mult.assoc mult.right_neutral)

lemma shift_mult_inj:
  fixes c d :: "'a::len word"
  assumes "0 < s" and "c * d = 1"
  shows "inj (\<lambda>x :: 'a word. (x XOR drop_bit s x) * c)"
  using assms by (auto intro!: injI dest!: mult_inverse_inj xor_shift_inj)

lemma xor_right_inj: "a XOR b = a XOR c \<Longrightarrow> b = c" for a b c :: "'a::len word"
  by (metis xor.assoc xor_self_eq xor.left_neutral)

lemma unat_bound: "unat w < 2 ^ LENGTH('a)" for w :: "'a::len word"
  by (rule unsigned_less)

lemma unat_of_int_small:
  "0 \<le> k \<Longrightarrow> k < 2 ^ LENGTH('a) \<Longrightarrow> unat (word_of_int k :: 'a::len word) = nat k"
  by (metis uint_word_of_int mod_pos_pos_trivial nat_uint_eq)

lemma unat_and_mask: "unat (w AND mask n) = unat w mod 2 ^ n" for w :: "'a::len word"
  by (metis take_bit_eq_mask unsigned_take_bit_eq take_bit_eq_mod)

lemma unat_or_disjoint: "v AND w = 0 \<Longrightarrow> unat (v OR w) = unat v + unat w" for v w :: "'a::len word"
  by (metis disjunctive_add_eq_or unsigned_and_eq unsigned_or_eq unsigned_0)

lemma or_shift_disjoint:
  fixes w l :: "'a::len word"
  assumes "unat l < 2 ^ n"
  shows "push_bit n w AND l = 0"
proof (rule bit_word_eqI)
  fix i assume "i < LENGTH('a)"
  have "take_bit n l = l" using assms by (simp add: word_eq_iff_unsigned[where ?'a = nat] unsigned_take_bit_eq take_bit_nat_eq_self)
  then have "bit l i \<Longrightarrow> i < n" by (metis bit_take_bit_iff)
  then show "bit (push_bit n w AND l) i = bit (0::'a word) i"
    by (auto simp: bit_simps)
qed

section \<open>Lists\<close>

lemma append_less_iff: "length xs = length ys \<Longrightarrow> xs @ as < ys @ bs \<longleftrightarrow> xs < ys \<or> xs = ys \<and> as < bs"
  for xs ys :: "'a::linorder list"
  by (induction xs ys rule: list_induct2) auto

lemma sum_list_update_int:
  fixes xs :: "int list"
  assumes "i < length xs"
  shows "sum_list (xs[i := v]) = sum_list xs - xs ! i + v"
  using assms by (induction xs arbitrary: i) (auto split: nat.split simp: nth_Cons)

lemma map_update_distrib: "map f (xs[i := x]) = (map f xs)[i := f x]"
  by (simp add: map_update)

section \<open>Taking an operation apart\<close>

text \<open>Elimination rules for the steps of an operation that is written with \<open>let\<close>, \<open>if\<close>, \<open>case\<close> and
  \<open>do\<close>: from its result they give the results of its steps.\<close>

lemma bind_someE: "Option.bind m f = Some r \<Longrightarrow> (\<And>x. m = Some x \<Longrightarrow> f x = Some r \<Longrightarrow> P) \<Longrightarrow> P"
  by (cases m) auto

lemma case_prod_eqE: "(case p of (a, b) \<Rightarrow> f a b) = r \<Longrightarrow> (\<And>a b. p = (a, b) \<Longrightarrow> f a b = r \<Longrightarrow> P) \<Longrightarrow> P"
  by (cases p) auto

lemma if_eqE: "(if b then x else y) = r \<Longrightarrow> (b \<Longrightarrow> x = r \<Longrightarrow> P) \<Longrightarrow> (\<not> b \<Longrightarrow> y = r \<Longrightarrow> P) \<Longrightarrow> P"
  by (cases b) auto

lemma let_eqE: "Let t f = r \<Longrightarrow> (f t = r \<Longrightarrow> P) \<Longrightarrow> P"
  by simp

lemma case_option_eqE: "(case x of None \<Rightarrow> a | Some y \<Rightarrow> f y) = r \<Longrightarrow> (x = None \<Longrightarrow> a = r \<Longrightarrow> P)
    \<Longrightarrow> (\<And>y. x = Some y \<Longrightarrow> f y = r \<Longrightarrow> P) \<Longrightarrow> P"
  by (cases x) auto

lemmas do_elims = bind_someE case_prod_eqE case_option_eqE if_eqE let_eqE

end
