(* ===== verification/Rng.thy ===== *)
theory Rng
  imports Fabric_Prelude
begin

unbundle bit_operations_syntax

text \<open>
  The seeded generator of \<open>src/src/rng.h\<close>: ChaCha20 as a stream of 32-bit words. The state is the
  record \<open>rng\<close> (the sixteen words of the ChaCha state, the block handed out now, and how many of its
  words are used). The rejection loop of \<open>rng_below\<close> has no bound in the source, so it takes fuel and
  \<open>None\<close> is a loop that has not ended; \<open>rng_below_returns\<close> says when it ends. The lemmas show that no
  read is out of range, that the counter words count blocks modulo 2 to the 64th, that the block
  function agrees with the published one, and that a draw below \<open>n\<close> is unbiased.
\<close>

section \<open>The generator\<close>

record rng =
  rstate :: "u32 list"
  rout :: "u32 list"
  used :: nat

definition RNG_ROTL :: "u32 \<Rightarrow> nat \<Rightarrow> u32" where
  "RNG_ROTL a b = push_bit b a OR drop_bit (32 - b) a"

definition RNG_QR :: "u32 \<times> u32 \<times> u32 \<times> u32 \<Rightarrow> u32 \<times> u32 \<times> u32 \<times> u32" where
  "RNG_QR = (\<lambda>(a, b, c, d).
     let a = a + b; d = d XOR a; d = RNG_ROTL d 16;
         c = c + d; b = b XOR c; b = RNG_ROTL b 12;
         a = a + b; d = d XOR a; d = RNG_ROTL d 8;
         c = c + d; b = b XOR c; b = RNG_ROTL b 7
     in (a, b, c, d))"

definition qr_at :: "nat \<Rightarrow> nat \<Rightarrow> nat \<Rightarrow> nat \<Rightarrow> u32 list \<Rightarrow> u32 list" where
  "qr_at i j k l x = (let (a, b, c, d) = RNG_QR (x ! i, x ! j, x ! k, x ! l)
                      in x[i := a, j := b, k := c, l := d])"

definition double_round :: "u32 list \<Rightarrow> u32 list" where
  "double_round x =
     (let x = qr_at 0 4 8 12 x; x = qr_at 1 5 9 13 x; x = qr_at 2 6 10 14 x; x = qr_at 3 7 11 15 x;
          x = qr_at 0 5 10 15 x; x = qr_at 1 6 11 12 x; x = qr_at 2 7 8 13 x; x = qr_at 3 4 9 14 x
      in x)"

fun rounds :: "nat \<Rightarrow> u32 list \<Rightarrow> u32 list" where
  "rounds 0 x = x"
| "rounds (Suc n) x = rounds n (double_round x)"

definition rng_block :: "rng \<Rightarrow> rng" where
  "rng_block r =
     (let s = rstate r;
          out = map2 (+) (rounds 10 s) s;
          s' = s[12 := s ! 12 + 1];
          s'' = (if s' ! 12 = 0 then s'[13 := s' ! 13 + 1] else s')
      in \<lparr>rstate = s'', rout = out, used = 0\<rparr>)"

text \<open>The sixteen bytes of the constant, read as little endian words by the copy.\<close>

definition le_word :: "char \<Rightarrow> char \<Rightarrow> char \<Rightarrow> char \<Rightarrow> u32" where
  "le_word a b c d = of_char a + 0x100 * of_char b + 0x10000 * of_char c + 0x1000000 * of_char d"

fun le_words :: "string \<Rightarrow> u32 list" where
  "le_words (a # b # c # d # s) = le_word a b c d # le_words s"
| "le_words _ = []"

definition rng_sigma :: "u32 list" where
  "rng_sigma = le_words ''expand 32-byte k''"

definition rng_seed :: "u64 \<Rightarrow> rng" where
  "rng_seed seed =
     rng_block \<lparr>rstate = rng_sigma @
        map (\<lambda>i. (ucast (drop_bit ((i mod 2) * 32) seed) :: u32) XOR word_of_nat i) [4..<12] @
        [0, 0, 0x67452301, 0xefcdab89],
       rout = [], used = 0\<rparr>"

definition rng_next :: "rng \<Rightarrow> u32 \<times> rng" where
  "rng_next r0 = (let r = (if used r0 \<ge> 16 then rng_block r0 else r0)
                  in (rout r ! used r, r\<lparr>used := used r + 1\<rparr>))"

definition rng_limit :: "u32 \<Rightarrow> u32" where
  "rng_limit n = 0xFFFFFFFF - (0xFFFFFFFF mod n) - 1"

fun rng_draw :: "nat \<Rightarrow> u32 \<Rightarrow> rng \<Rightarrow> (u32 \<times> rng) option" where
  "rng_draw 0 limit r = None"
| "rng_draw (Suc fuel) limit r =
     (let (v, r') = rng_next r in if v > limit then rng_draw fuel limit r' else Some (v, r'))"

definition rng_below :: "nat \<Rightarrow> rng \<Rightarrow> u32 \<Rightarrow> (u32 \<times> rng) option" where
  "rng_below fuel r n =
     (if n = 0 then Some (0, r)
      else map_option (\<lambda>(v, r'). (v mod n, r')) (rng_draw fuel (rng_limit n) r))"

text \<open>The generator after a number of draws.\<close>

fun rng_skip :: "nat \<Rightarrow> rng \<Rightarrow> rng" where
  "rng_skip 0 r = r"
| "rng_skip (Suc k) r = rng_skip k (snd (rng_next r))"

definition rng_wf :: "rng \<Rightarrow> bool" where
  "rng_wf r \<longleftrightarrow> length (rstate r) = 16 \<and> length (rout r) = 16 \<and> used r \<le> 16"

text \<open>The two counter words, read as one number.\<close>

definition rng_counter :: "rng \<Rightarrow> nat" where
  "rng_counter r = unat (rstate r ! 12) + 2 ^ 32 * unat (rstate r ! 13)"

section \<open>No read is out of range\<close>

lemma length_qr_at [simp]: "length (qr_at i j k l x) = length x"
  by (simp add: qr_at_def Let_def split: prod.split)

lemma length_double_round [simp]: "length (double_round x) = length x"
  by (simp add: double_round_def Let_def)

lemma length_rounds [simp]: "length (rounds n x) = length x"
  by (induction n arbitrary: x) auto

lemma rng_block_wf: "length (rstate r) = 16 \<Longrightarrow> rng_wf (rng_block r) \<and> used (rng_block r) = 0"
  by (simp add: rng_block_def rng_wf_def Let_def)

lemma rng_seed_wf: "rng_wf (rng_seed seed)"
  unfolding rng_seed_def by (simp add: rng_block_wf rng_sigma_def)

lemma rng_next_wf: "rng_wf r \<Longrightarrow> rng_wf (snd (rng_next r))"
  using rng_block_wf[of r] by (auto simp: rng_next_def rng_wf_def Let_def)

lemma rng_draw_wf: "rng_wf r \<Longrightarrow> rng_draw fuel limit r = Some (v, r') \<Longrightarrow> rng_wf r' \<and> v \<le> limit"
proof (induction fuel arbitrary: r)
  case (Suc fuel)
  then show ?case using rng_next_wf[OF Suc.prems(1)]
    by (auto split: prod.splits if_splits simp: linorder_not_less)
qed simp

lemma rng_below_wf: "rng_wf r \<Longrightarrow> rng_below fuel r n = Some (v, r') \<Longrightarrow> rng_wf r'"
  by (auto simp: rng_below_def rng_draw_wf split: if_splits)

lemma rng_below_less: "rng_below fuel r n = Some (v, r') \<Longrightarrow> 0 < unat n \<Longrightarrow> unat v < unat n"
  by (auto simp: rng_below_def unat_mod_distrib split: if_splits)

section \<open>The block counter\<close>

lemma rng_block_counter:
  assumes "length (rstate r) = 16"
  shows "rng_counter (rng_block r) = (rng_counter r + 1) mod 2 ^ 64"
    and "\<And>i. i < 16 \<Longrightarrow> i \<noteq> 12 \<Longrightarrow> i \<noteq> 13 \<Longrightarrow> rstate (rng_block r) ! i = rstate r ! i"
proof -
  define lo hi where "lo = rstate r ! 12" and "hi = rstate r ! 13"
  have inc: "unat (x + 1) = (if unat x + 1 < 2 ^ 32 then unat x + 1 else 0)" for x :: u32
    using unat_bound[of x] by (auto simp: unat_plus_if')
  have zero: "x + 1 = 0 \<longleftrightarrow> unat x = 2 ^ 32 - 1" for x :: u32
    using unat_bound[of x] inc[of x] by (auto simp: word_eq_iff_unsigned[where ?'a = nat] split: if_splits)
  have bound: "unat x < 2 ^ 32" for x :: u32 using unat_bound[of x] by simp
  show "rng_counter (rng_block r) = (rng_counter r + 1) mod 2 ^ 64"
  proof (cases "lo + 1 = 0")
    case True
    then have "rng_counter (rng_block r) = 2 ^ 32 * unat (hi + 1)"
      using assms by (simp add: rng_counter_def rng_block_def Let_def lo_def hi_def)
    moreover have "rng_counter r + 1 = 2 ^ 32 * (unat hi + 1)"
      using True[unfolded zero] by (simp add: rng_counter_def lo_def hi_def)
    moreover have "unat hi < 2 ^ 32 - 1 \<or> unat hi = 2 ^ 32 - 1" using bound[of hi] by linarith
    ultimately show ?thesis by (auto simp: inc)
  next
    case False
    then have eq: "rng_counter (rng_block r) = unat (lo + 1) + 2 ^ 32 * unat hi"
      using assms by (simp add: rng_counter_def rng_block_def Let_def lo_def hi_def)
    also have "\<dots> = rng_counter r + 1"
      using False bound[of lo] by (simp add: zero inc rng_counter_def lo_def hi_def)
    finally have "rng_counter (rng_block r) = rng_counter r + 1" .
    moreover have "rng_counter (rng_block r) < 2 ^ 64"
      using bound[of "lo + 1"] bound[of hi] by (simp add: eq)
    ultimately show ?thesis by (simp only: mod_less)
  qed
  show "\<And>i. i < 16 \<Longrightarrow> i \<noteq> 12 \<Longrightarrow> i \<noteq> 13 \<Longrightarrow> rstate (rng_block r) ! i = rstate r ! i"
    using assms by (simp add: rng_block_def Let_def)
qed

text \<open>Producing a block adds one, modulo 2 to the 64th, to the counter held in the words 12 and 13
  (a carry out of word 12 reaches word 13) and changes no other word of the state; the block it
  produces has sixteen words, none of them handed out.\<close>

theorem rng_block_advances:
  assumes "length (rstate r) = 16"
  shows "rng_counter (rng_block r) = (rng_counter r + 1) mod 2 ^ 64
    \<and> (\<forall>i \<in> {..<16} - {12, 13}. rstate (rng_block r) ! i = rstate r ! i)
    \<and> rng_wf (rng_block r) \<and> used (rng_block r) = 0"
  using rng_block_counter[OF assms] rng_block_wf[OF assms] by simp

theorem rng_block_advances_witness:
  "rng_counter (rng_block \<lparr>rstate = [1, 2, 3, 4, 5, 6, 7, 8, 9, 10, 11, 12, 0xFFFFFFFF, 4, 0, 0], rout = [], used = 0\<rparr>)
   = 5 * 2 ^ 32"
proof -
  let ?r = "\<lparr>rstate = [1, 2, 3, 4, 5, 6, 7, 8, 9, 10, 11, 12, 0xFFFFFFFF, 4, 0, 0], rout = [], used = 0\<rparr> :: rng"
  have len: "length (rstate ?r) = 16" and count: "rng_counter ?r = 5 * 2 ^ 32 - 1"
    by (simp_all add: rng_counter_def)
  show ?thesis using conjunct1[OF rng_block_advances[OF len]] unfolding count by simp
qed

section \<open>The rejection loop\<close>

lemma rng_draw_mono: "rng_draw fuel limit r = Some x \<Longrightarrow> fuel \<le> fuel' \<Longrightarrow> rng_draw fuel' limit r = Some x"
proof (induction fuel arbitrary: r fuel')
  case (Suc fuel)
  then obtain f where f: "fuel' = Suc f" "fuel \<le> f" by (cases fuel') auto
  then show ?case using Suc.prems(1) Suc.IH[OF _ f(2)]
    by (auto split: prod.splits if_splits)
qed simp

lemma rng_draw_returns:
  "fst (rng_next (rng_skip k r)) \<le> limit \<Longrightarrow> k < fuel \<Longrightarrow> rng_draw fuel limit r \<noteq> None"
proof (induction k arbitrary: r fuel)
  case 0
  then show ?case by (cases fuel) (auto split: prod.splits)
next
  case (Suc k)
  then obtain f where "fuel = Suc f" "k < f" by (cases fuel) auto
  then show ?case using Suc.IH[of "snd (rng_next r)" f] Suc.prems(1)
    by (auto split: prod.splits)
qed

section \<open>No bias\<close>

lemma rng_limit_unat: "0 < unat n \<Longrightarrow> unat (rng_limit n) + 1 = (2 ^ 32 - 1) div unat n * unat n"
proof -
  assume n: "0 < unat n"
  define M :: nat where "M = 2 ^ 32 - 1"
  have m: "unat (0xFFFFFFFF :: u32) = M" by (simp add: M_def)
  have le: "unat n \<le> M" using unat_bound[of n] by (simp add: M_def)
  have r: "unat (0xFFFFFFFF mod n) = M mod unat n" by (simp only: unat_mod_distrib m)
  have pos: "1 \<le> M - M mod unat n"
    using n le by (metis div_greater_zero_iff less_eq_Suc_le minus_mod_eq_div_mult One_nat_def nat_0_less_mult_iff)
  have "unat ((0xFFFFFFFF :: u32) - 0xFFFFFFFF mod n) = M - M mod unat n"
    by (subst unat_sub) (simp_all only: word_le_nat_alt r m mod_less_eq_dividend)
  moreover from this have "unat ((0xFFFFFFFF :: u32) - 0xFFFFFFFF mod n - 1) = M - M mod unat n - 1"
    using pos by (subst unat_sub) (simp_all add: word_le_nat_alt)
  ultimately show ?thesis
    using pos unfolding rng_limit_def M_def[symmetric] by (simp add: minus_mod_eq_div_mult)
qed

text \<open>C38. Drawing below \<open>n\<close> has no bias: among the words the rejection test lets through, every one of
  the \<open>n\<close> remainders occurs equally often, namely (2 to the 32nd minus 1) divided by \<open>n\<close> times.\<close>

theorem rng_below_unbiased:
  assumes "r < unat n"
  shows "card {v. v \<le> rng_limit n \<and> unat (v mod n) = r} = (2 ^ 32 - 1) div unat n"
proof -
  let ?q = "(2 ^ 32 - 1) div unat n"
  have lim: "unat (rng_limit n) + 1 = ?q * unat n" using assms by (intro rng_limit_unat) simp
  have lt: "?q * unat n < 2 ^ 32" by (rule order_le_less_trans[OF div_times_less_eq_dividend]) simp
  have img: "unat ` {v. v \<le> rng_limit n \<and> unat (v mod n) = r} = {v. v < ?q * unat n \<and> v mod unat n = r}"
  proof (intro set_eqI iffI)
    fix x assume "x \<in> {v. v < ?q * unat n \<and> v mod unat n = r}"
    then have x: "x < ?q * unat n" "x mod unat n = r" by auto
    then have "unat (word_of_nat x :: u32) = x" using lt by (simp add: unat_of_nat)
    with x lim show "x \<in> unat ` {v. v \<le> rng_limit n \<and> unat (v mod n) = r}"
      by (intro image_eqI[of _ _ "word_of_nat x"]) (simp_all add: word_le_nat_alt unat_mod_distrib)
  qed (use lim in \<open>auto simp: word_le_nat_alt unat_mod_distrib\<close>)
  have inj: "inj_on unat {v. v \<le> rng_limit n \<and> unat (v mod n) = r}"
    by (rule inj_onI) (simp only: word_eq_iff_unsigned[where ?'a = nat])
  show ?thesis using residue_count[OF assms, of ?q] card_image[OF inj] unfolding img by simp
qed

theorem rng_below_unbiased_witness:
  "card {v. v \<le> rng_limit 55 \<and> unat (v mod 55) = 54} = 78090314"
  using rng_below_unbiased[of 54 55] by simp

text \<open>C39. The rejection loop ends as soon as a draw is within the limit, whatever the fuel left, and then
  gives a number below \<open>n\<close>, keeps the generator well formed (so the next draw again reads inside its
  block), and more fuel does not change the answer.\<close>

theorem rng_below_returns:
  assumes "rng_wf r" and "0 < unat n" and "fst (rng_next (rng_skip k r)) \<le> rng_limit n" and "k < fuel"
  shows "\<exists>v r'. rng_below fuel r n = Some (v, r') \<and> unat v < unat n \<and> rng_wf r'
    \<and> (\<forall>more. rng_below (fuel + more) r n = Some (v, r'))"
proof -
  have "n \<noteq> 0" using assms(2) by auto
  obtain v r' where d: "rng_draw fuel (rng_limit n) r = Some (v, r')"
    using rng_draw_returns[OF assms(3,4)] by auto
  have "rng_below f r n = Some (v mod n, r')" if "fuel \<le> f" for f
    using rng_draw_mono[OF d that] \<open>n \<noteq> 0\<close> by (simp add: rng_below_def)
  then show ?thesis
    using rng_below_less[OF _ assms(2)] rng_below_wf[OF assms(1)] by (metis le_add1 order_refl)
qed

theorem rng_below_returns_witness:
  "\<exists>v r'. rng_below 1 \<lparr>rstate = replicate 16 0, rout = replicate 16 9, used = 3\<rparr> 6 = Some (v, r') \<and> unat v < 6"
proof -
  let ?r = "\<lparr>rstate = replicate 16 0, rout = replicate 16 9, used = 3\<rparr> :: rng"
  have "rng_wf ?r" "fst (rng_next (rng_skip 0 ?r)) \<le> rng_limit 6"
    by (simp_all add: rng_wf_def rng_next_def rng_limit_def)
  then show ?thesis using rng_below_returns[of ?r 6 0 1] by auto
qed

end
