(* ===== verification/Wire.thy ===== *)
theory Wire
  imports Fabric_Prelude
begin

unbundle bit_operations_syntax

text \<open>
  The names and the places of a ward: \<open>src/src/wire.h\<close> with the zone budget of
  \<open>src/src/budget.h\<close>. A place is in micrometres. A wire name is the composite of a ward and a
  local number, a durable name is a version 8 UUID drawn from a hash, and \<open>quoted\<close> doubles the
  apostrophes of a name before it goes into an SQL literal. The lemmas show that the composite
  is exact (injective, with both halves recoverable, refused outside its ranges), that the mixing
  function is a bijection on 64-bit words, that the UUID has its fixed layout and sorts by cycle,
  that the place lattices separate as many things as the comments claim, and that \<open>quoted\<close> stays
  within its buffer and is undone by the SQL reader.
\<close>

section \<open>Budgets and constants\<close>

definition WARD_ENTITIES :: int where "WARD_ENTITIES = 1800"
definition WARD_HEADROOM :: int where "WARD_HEADROOM = 400"
definition WARD_AUTHORITY :: int where "WARD_AUTHORITY = WARD_ENTITIES - WARD_HEADROOM"

definition WIRE_LOCAL_BITS :: nat where "WIRE_LOCAL_BITS = 20"
definition WIRE_LOCAL_MAX :: u32 where "WIRE_LOCAL_MAX = push_bit WIRE_LOCAL_BITS 1"
definition WIRE_WARD_MAX :: u32 where "WIRE_WARD_MAX = push_bit (32 - WIRE_LOCAL_BITS) 1"
definition WIRE_QUEEN :: u32 where "WIRE_QUEEN = 0"
definition WIRE_VENUE_BASE :: u32 where "WIRE_VENUE_BASE = 1"
definition WIRE_SPARK_BASE :: u32 where "WIRE_SPARK_BASE = 0x100"
definition WIRE_CONTRACT_BASE :: u32 where "WIRE_CONTRACT_BASE = 0x4000"

definition CLASS_SPARK :: int where "CLASS_SPARK = 1"
definition CLASS_VENUE :: int where "CLASS_VENUE = 2"
definition CLASS_CONTRACT :: int where "CLASS_CONTRACT = 3"
definition CLASS_QUEEN :: int where "CLASS_QUEEN = 4"

lemmas budget_defs = WARD_ENTITIES_def WARD_HEADROOM_def WARD_AUTHORITY_def

lemmas wire_consts [wire_defs] =
  WIRE_LOCAL_BITS_def WIRE_LOCAL_MAX_def WIRE_WARD_MAX_def WIRE_QUEEN_def WIRE_VENUE_BASE_def
  WIRE_SPARK_BASE_def WIRE_CONTRACT_BASE_def CLASS_SPARK_def CLASS_VENUE_def CLASS_CONTRACT_def
  CLASS_QUEEN_def

section \<open>Places\<close>

record place =
  px :: int
  py :: int
  pz :: int

definition UM :: "int \<Rightarrow> int" where "UM m = m * 1000000"
definition COMMONS_UM :: int where "COMMONS_UM = UM 0"
definition UNDER_UM :: int where "UNDER_UM = UM (- 30)"
definition NONPHYSICAL_UM :: int where "NONPHYSICAL_UM = UM (- 60)"

definition spark_home :: "int \<Rightarrow> place" where
  "spark_home i = \<lparr>px = UM ((i * 37) smod 103 - 51), py = COMMONS_UM,
                   pz = UM ((i * 23) smod 109 - 54)\<rparr>"

definition contract_place :: "int \<Rightarrow> place" where
  "contract_place i = \<lparr>px = UM ((i * 61) smod 101 - 50),
                       py = (if i smod 2 \<noteq> 0 then UNDER_UM else COMMONS_UM),
                       pz = UM ((i * 47) smod 101 - 50)\<rparr>"

definition nonphysical_place :: "u32 \<Rightarrow> place" where
  "nonphysical_place l = \<lparr>px = UM (uint ((l * 37) mod 103) - 51), py = NONPHYSICAL_UM,
                          pz = UM (uint ((l * 23) mod 109) - 54)\<rparr>"

section \<open>Names\<close>

definition mix64 :: "u64 \<Rightarrow> u64" where
  "mix64 x0 =
     (let x = x0 + 0x9e3779b97f4a7c15;
          x = (x XOR drop_bit 30 x) * 0xbf58476d1ce4e5b9;
          x = (x XOR drop_bit 27 x) * 0x94d049bb133111eb
      in x XOR drop_bit 31 x)"

text \<open>The hexadecimal digits \<open>snprintf\<close> writes for \<open>%0<w>x\<close>: at least \<open>w\<close> of them, zeros first.\<close>

definition hexdig :: "nat \<Rightarrow> char" where
  "hexdig d = ''0123456789abcdef'' ! d"

fun hex_of :: "nat \<Rightarrow> string" where
  "hex_of v = (if v < 16 then [hexdig v] else hex_of (v div 16) @ [hexdig (v mod 16)])"

declare hex_of.simps [simp del]

definition hex_pad :: "nat \<Rightarrow> nat \<Rightarrow> string" where
  "hex_pad w v = replicate (w - length (hex_of v)) (CHR ''0'') @ hex_of v"

definition uuid8_h :: "u64 \<Rightarrow> int \<Rightarrow> int \<Rightarrow> u64 \<Rightarrow> u64" where
  "uuid8_h seed ward cls sq =
     mix64 (seed XOR mix64 (push_bit 40 (word_of_int ward) XOR push_bit 32 (word_of_int cls) XOR sq))"

definition uuid8 :: "u64 \<Rightarrow> int \<Rightarrow> int \<Rightarrow> int \<Rightarrow> u64 \<Rightarrow> string" where
  "uuid8 seed ward cls cyc sq =
     (let h = uuid8_h seed ward cls sq;
          g = mix64 (h XOR 0xd1b54a32d192ed03);
          ts = (ucast (word_of_int cyc :: u32) :: u64) AND 0xffffffffffff
      in take 36
          (hex_pad 8 (unat (drop_bit 16 ts)) @ ''-'' @
           hex_pad 4 (unat (ts AND 0xffff)) @ ''-8'' @
           hex_pad 3 (unat (drop_bit 52 h AND 0xfff)) @ ''-'' @
           hex_pad 4 (unat (0x8000 OR (drop_bit 36 h AND 0x3fff))) @ ''-'' @
           hex_pad 12 (unat (g AND 0xffffffffffff))))"

text \<open>A name that does not fit ends the process with status 2, which is \<open>None\<close>.\<close>

definition wire_id :: "int \<Rightarrow> u32 \<Rightarrow> u32 option" where
  "wire_id ward loc =
     (if ward < 0 \<or> word_of_int ward \<ge> WIRE_WARD_MAX \<or> loc \<ge> WIRE_LOCAL_MAX then None
      else Some (push_bit WIRE_LOCAL_BITS (word_of_int ward) OR loc))"

definition class_owner :: "int \<Rightarrow> int \<Rightarrow> u32" where
  "class_owner cls ward = push_bit 24 (word_of_int cls) OR (word_of_int ward AND 0xffffff)"

section \<open>Quoting\<close>

text \<open>The loop runs while the input has characters and two more fit in front of the NUL.\<close>

fun quoted_loop :: "string \<Rightarrow> nat \<Rightarrow> string \<Rightarrow> string" where
  "quoted_loop [] cap out = out"
| "quoted_loop (c # cs) cap out =
     (if length out + 2 < cap
      then quoted_loop cs cap (out @ (if c = CHR 0x27 then [CHR 0x27] else []) @ [c])
      else out)"

definition quoted :: "string \<Rightarrow> nat \<Rightarrow> string" where
  "quoted s cap = quoted_loop s cap []"

text \<open>What SQL reads back from the inside of a literal: an apostrophe stands only in pairs.\<close>

fun sql_unquote :: "string \<Rightarrow> string option" where
  "sql_unquote [] = Some []"
| "sql_unquote [c] = (if c = CHR 0x27 then None else Some [c])"
| "sql_unquote (c # d # cs) =
     (if c = CHR 0x27
      then (if d = CHR 0x27 then map_option ((#) (CHR 0x27)) (sql_unquote cs) else None)
      else map_option ((#) c) (sql_unquote (d # cs)))"

fun sql_escape :: "string \<Rightarrow> string" where
  "sql_escape [] = []"
| "sql_escape (c # cs) = (if c = CHR 0x27 then [CHR 0x27, c] else [c]) @ sql_escape cs"

section \<open>Facts about quoting\<close>

lemma sql_unquote_plain: "c \<noteq> CHR 0x27 \<Longrightarrow> sql_unquote (c # cs) = map_option ((#) c) (sql_unquote cs)"
  by (cases cs) auto

lemma sql_unquote_escape [simp]: "sql_unquote (sql_escape s) = Some s"
  by (induction s) (auto simp: sql_unquote_plain)

lemma sql_escape_append [simp]: "sql_escape (s @ t) = sql_escape s @ sql_escape t"
  by (induction s) auto

lemma quoted_loop_prefix:
  "\<exists>n \<le> length s. quoted_loop s cap out = out @ sql_escape (take n s)"
proof (induction s cap out rule: quoted_loop.induct)
  case (2 c cs cap out)
  show ?case
  proof (cases "length out + 2 < cap")
    case True
    then obtain n where "n \<le> length cs" and
      "quoted_loop cs cap (out @ (if c = CHR 0x27 then [CHR 0x27] else []) @ [c]) =
       (out @ (if c = CHR 0x27 then [CHR 0x27] else []) @ [c]) @ sql_escape (take n cs)"
      using 2 by blast
    with True show ?thesis by (intro exI[of _ "Suc n"]) auto
  next
    case False
    then show ?thesis by (intro exI[of _ 0]) simp
  qed
qed auto

lemma quoted_loop_all:
  "length out + length (sql_escape s) + 2 \<le> cap \<Longrightarrow> quoted_loop s cap out = out @ sql_escape s"
  by (induction s cap out rule: quoted_loop.induct) (auto split: if_splits)

lemma quoted_loop_fits: "length out < cap \<Longrightarrow> length (quoted_loop s cap out) < cap"
  by (induction s cap out rule: quoted_loop.induct) auto

text \<open>C37. Quoting a name for SQL. The quoted text always leaves room for its NUL, what SQL reads
  back from it is a prefix of the name (so a name cut short by the buffer is never cut inside an
  escaped pair), and when the escaped name fits in front of the two spare bytes nothing is lost.\<close>

theorem quoted_reads_back:
  assumes "0 < cap"
  shows "length (quoted s cap) < cap
    \<and> (\<exists>n \<le> length s. sql_unquote (quoted s cap) = Some (take n s))
    \<and> (length (sql_escape s) + 2 \<le> cap \<longrightarrow> sql_unquote (quoted s cap) = Some s)"
proof -
  obtain n where "n \<le> length s" "quoted s cap = sql_escape (take n s)"
    using quoted_loop_prefix[of s cap "[]"] by (auto simp: quoted_def)
  then have "\<exists>n \<le> length s. sql_unquote (quoted s cap) = Some (take n s)" by auto
  moreover have "length (quoted s cap) < cap"
    using assms by (simp add: quoted_def quoted_loop_fits)
  moreover have "length (sql_escape s) + 2 \<le> cap \<longrightarrow> sql_unquote (quoted s cap) = Some s"
    by (simp add: quoted_def quoted_loop_all)
  ultimately show ?thesis by blast
qed

theorem quoted_reads_back_witness:
  "length (quoted ''Cycle's'' 96) < 96 \<and> sql_unquote (quoted ''Cycle's'' 96) = Some ''Cycle's''"
  using quoted_reads_back[of 96 "''Cycle's''"] by simp

section \<open>Facts about the mixing function\<close>

text \<open>The mixing function behind every UUID is a bijection on 64-bit words, so for one seed, ward
  and class two different sequence numbers never share a hash.\<close>

theorem mix64_bijective:
  "bij mix64 \<and> inj (uuid8_h seed ward cls)"
proof -
  have round1: "inj (\<lambda>x :: u64. (x XOR drop_bit 30 x) * 0xbf58476d1ce4e5b9)"
    by (rule shift_mult_inj[where d = "0x96de1b173f119089"]) simp_all
  have round2: "inj (\<lambda>x :: u64. (x XOR drop_bit 27 x) * 0x94d049bb133111eb)"
    by (rule shift_mult_inj[where d = "0x319642b2d24d8ec3"]) simp_all
  have last: "inj (\<lambda>x :: u64. x XOR drop_bit 31 x)"
    by (rule injI) (rule xor_shift_inj[of 31], simp_all)
  have start: "inj (\<lambda>x :: u64. x + 0x9e3779b97f4a7c15)"
    by (rule injI) simp
  have "mix64 = (\<lambda>x. x XOR drop_bit 31 x) \<circ> (\<lambda>x. (x XOR drop_bit 27 x) * 0x94d049bb133111eb)
      \<circ> (\<lambda>x. (x XOR drop_bit 30 x) * 0xbf58476d1ce4e5b9) \<circ> (\<lambda>x. x + 0x9e3779b97f4a7c15)"
    by (rule ext) (simp only: mix64_def Let_def o_def)
  then have inj: "inj mix64"
    using inj_compose[OF last inj_compose[OF round2 inj_compose[OF round1 start]]]
    by (simp add: comp_assoc)
  moreover have "inj (uuid8_h seed ward cls)"
    by (rule injI) (auto simp: uuid8_h_def dest!: injD[OF inj] xor_right_inj)
  ultimately show ?thesis
    by (simp add: bij_def finite_UNIV_inj_surj)
qed

section \<open>Facts about the wire names\<close>

text \<open>C36. The wire name of a local number in a ward is exact: it exists exactly for wards below 4096 and
  locals below 2 to the 20th, and it is then the ward times 2 to the 20th plus the local, so the ward
  and the local can both be read back and two different pairs never share a name.\<close>

theorem wire_id_exact:
  assumes "c_int ward"
  shows "wire_id ward loc = Some v \<longleftrightarrow>
    0 \<le> ward \<and> ward < 4096 \<and> unat loc < 2 ^ 20 \<and> unat v = nat ward * 2 ^ 20 + unat loc"
proof (cases "0 \<le> ward \<and> ward < 4096 \<and> unat loc < 2 ^ 20")
  case True
  then have w: "unat (word_of_int ward :: u32) = nat ward"
    by (simp add: unat_of_int_small)
  have "unat (push_bit 20 (word_of_int ward) OR loc) = nat ward * 2 ^ 20 + unat loc"
  proof -
    have "unat (push_bit 20 (word_of_int ward :: u32)) = nat ward * 2 ^ 20"
      using True w by (simp add: push_bit_eq_mult unat_word_ariths nat_less_iff)
    then show ?thesis using or_shift_disjoint[of loc 20 "word_of_int ward"] True
      by (simp add: unat_or_disjoint)
  qed
  then show ?thesis using True w
    by (auto simp: wire_id_def wire_defs word_le_nat_alt word_eq_iff_unsigned[where ?'a = nat])
next
  case False
  then show ?thesis using assms
    by (auto simp: wire_id_def wire_defs word_le_nat_alt unat_of_int_small c_int_def)
qed

theorem wire_id_exact_witness: "wire_id 3 0x105 = Some 0x300105"
  using wire_id_exact[of 3 "0x105" "0x300105"] by (simp add: c_int_def)

fun hexn :: "nat \<Rightarrow> nat \<Rightarrow> string" where
  "hexn 0 v = []"
| "hexn (Suc w) v = hexn w (v div 16) @ [hexdig (v mod 16)]"

lemma length_hexn [simp]: "length (hexn w v) = w"
  by (induction w arbitrary: v) auto

lemma hexn_0: "hexn w 0 = replicate w (CHR ''0'')"
  by (induction w) (auto simp: hexdig_def replicate_append_same)

lemma hex_pad_hexn: "0 < w \<Longrightarrow> v < 16 ^ w \<Longrightarrow> hex_pad w v = hexn w v"
proof (induction w arbitrary: v)
  case (Suc w)
  show ?case
  proof (cases "v < 16")
    case True
    then show ?thesis by (simp add: hex_pad_def hex_of.simps[of v] hexn_0)
  next
    case False
    then have "0 < w" using Suc.prems by (cases w) auto
    moreover have "v div 16 < 16 ^ w" using Suc.prems by (simp add: less_mult_imp_div_less mult.commute)
    ultimately have "hex_pad w (v div 16) = hexn w (v div 16)" by (rule Suc.IH)
    then show ?thesis using False by (simp add: hex_pad_def hex_of.simps[of v])
  qed
qed simp

lemma hexdig_less: "d < d' \<Longrightarrow> d' < 16 \<Longrightarrow> hexdig d < hexdig d'"
proof -
  have "\<forall>d' \<in> {..<16}. \<forall>d \<in> {..<d'}. hexdig d < hexdig d'" by code_simp
  then show "d < d' \<Longrightarrow> d' < 16 \<Longrightarrow> hexdig d < hexdig d'" by auto
qed

lemma hexn_less: "v < v' \<Longrightarrow> v' < 16 ^ w \<Longrightarrow> hexn w v < hexn w v'"
proof (induction w arbitrary: v v')
  case (Suc w)
  have "v' div 16 < 16 ^ w" using Suc.prems by (simp add: less_mult_imp_div_less mult.commute)
  moreover have "v div 16 < v' div 16 \<or> v div 16 = v' div 16 \<and> v mod 16 < v' mod 16"
    using Suc.prems(1) by (rule div_mod_less)
  ultimately show ?case using Suc.IH by (auto simp: append_less_iff hexdig_less)
qed simp

lemma unat_cycle:
  assumes "0 \<le> cyc" "c_int cyc"
  shows "unat ((ucast (word_of_int cyc :: u32) :: u64) AND 0xffffffffffff) = nat cyc"
proof -
  have m: "(0xffffffffffff :: u64) = mask 48" by (simp add: mask_eq_exp_minus_1)
  have "unat (word_of_int cyc :: u32) = nat cyc" using assms by (simp add: unat_of_int_small c_int_def)
  moreover have "nat cyc < 2 ^ 31" using assms by (simp add: c_int_def nat_less_iff)
  ultimately show ?thesis unfolding m unat_and_mask by (simp add: unsigned_ucast_eq take_bit_nat_eq_self)
qed

definition uuid8_tail :: "u64 \<Rightarrow> string" where
  "uuid8_tail h = hexn 3 (unat (drop_bit 52 h) mod 2 ^ 12) @ ''-'' @ hexn 4 (2 ^ 15 + unat (drop_bit 36 h) mod 2 ^ 14) @ ''-'' @
    hexn 12 (unat (mix64 (h XOR 0xd1b54a32d192ed03)) mod 2 ^ 48)"

lemma uuid8_layout:
  assumes "0 \<le> cyc" "c_int cyc"
  shows "uuid8 seed ward cls cyc sq =
    hexn 8 (nat cyc div 2 ^ 16) @ ''-'' @ hexn 4 (nat cyc mod 2 ^ 16) @ ''-8'' @ uuid8_tail (uuid8_h seed ward cls sq)"
proof -
  define ts where "ts = (ucast (word_of_int cyc :: u32) :: u64) AND 0xffffffffffff"
  define h where "h = uuid8_h seed ward cls sq"
  have ts: "unat ts = nat cyc" using unat_cycle[OF assms] by (simp add: ts_def)
  have c: "nat cyc < 2 ^ 31" using assms by (simp add: c_int_def nat_less_iff)
  have masks: "(0xffff :: u64) = mask 16" "(0xfff :: u64) = mask 12" "(0x3fff :: u64) = mask 14" "(0xffffffffffff :: u64) = mask 48"
    by (simp_all add: mask_eq_exp_minus_1)
  have hi: "hex_pad 8 (unat (drop_bit 16 ts)) = hexn 8 (nat cyc div 2 ^ 16)"
    unfolding unat_drop_bit_eq ts using c
    by (subst hex_pad_hexn) (simp_all add: drop_bit_eq_div less_mult_imp_div_less)
  have lo: "hex_pad 4 (unat (ts AND 0xffff)) = hexn 4 (nat cyc mod 2 ^ 16)"
    by (subst hex_pad_hexn) (simp_all add: masks unat_and_mask ts)
  have h3: "hex_pad 3 (unat (drop_bit 52 h AND 0xfff)) = hexn 3 (unat (drop_bit 52 h) mod 2 ^ 12)"
    by (subst hex_pad_hexn) (simp_all add: masks unat_and_mask)
  have "(0x8000 :: u64) = push_bit 15 1" by simp
  moreover have "unat (drop_bit 36 h AND mask 14) < 2 ^ 15" by (simp add: unat_and_mask)
  ultimately have "unat (0x8000 OR (drop_bit 36 h AND 0x3fff)) = 2 ^ 15 + unat (drop_bit 36 h) mod 2 ^ 14"
    using or_shift_disjoint[of "drop_bit 36 h AND mask 14" 15 1] unfolding masks
    by (subst unat_or_disjoint) (simp_all add: unat_and_mask)
  then have h4: "hex_pad 4 (unat (0x8000 OR (drop_bit 36 h AND 0x3fff))) = hexn 4 (2 ^ 15 + unat (drop_bit 36 h) mod 2 ^ 14)"
    by (subst hex_pad_hexn) (simp_all add: trans_less_add2)
  have h12: "hex_pad 12 (unat (mix64 (h XOR 0xd1b54a32d192ed03) AND 0xffffffffffff)) =
    hexn 12 (unat (mix64 (h XOR 0xd1b54a32d192ed03)) mod 2 ^ 48)"
    by (subst hex_pad_hexn) (simp_all add: masks unat_and_mask)
  show ?thesis
    unfolding uuid8_def Let_def uuid8_tail_def ts_def[symmetric] h_def[symmetric] hi lo h3 h4 h12 by simp
qed

lemma hexn_hd: "0 < w \<Longrightarrow> hexn w v ! 0 = hexdig (v div 16 ^ (w - 1) mod 16)"
proof (induction w arbitrary: v)
  case (Suc w)
  then show ?case by (cases w) (auto simp: nth_append div_mult2_eq mult.commute)
qed simp

text \<open>C40. A durable name has 36 characters with the version digit 8 and an RFC variant digit in their
  places, and names sort by the cycle they were given in: a name from an earlier cycle is smaller than
  any name from a later one, whatever their wards, classes and numbers.\<close>

theorem uuid8_name:
  assumes "0 \<le> cyc" "c_int cyc"
  shows "length (uuid8 seed ward cls cyc sq) = 36
    \<and> uuid8 seed ward cls cyc sq ! 14 = CHR ''8''
    \<and> uuid8 seed ward cls cyc sq ! 19 \<in> set ''89ab''
    \<and> (\<forall>cyc' seed' ward' cls' sq'. cyc < cyc' \<and> c_int cyc' \<longrightarrow>
          uuid8 seed ward cls cyc sq < uuid8 seed' ward' cls' cyc' sq')"
proof -
  define m where "m = unat (drop_bit 36 (uuid8_h seed ward cls sq)) mod 2 ^ 14"
  have "m div 4096 < 4" by (simp add: m_def less_mult_imp_div_less)
  then consider "m div 4096 = 0" | "m div 4096 = 1" | "m div 4096 = 2" | "m div 4096 = 3" by linarith
  then have "hexdig ((2 ^ 15 + m) div 16 ^ 3 mod 16) \<in> set ''89ab''"
    by cases (simp_all add: div_add1_eq hexdig_def)
  then have variant: "hexn 4 (2 ^ 15 + m) ! 0 \<in> set ''89ab''" using hexn_hd[of 4 "2 ^ 15 + m"] by simp
  have order: "uuid8 seed ward cls cyc sq < uuid8 seed' ward' cls' cyc' sq'"
    if "cyc < cyc'" "c_int cyc'" for cyc' seed' ward' cls' sq'
  proof -
    have lt: "nat cyc < nat cyc'" and b: "nat cyc' < 2 ^ 31" using that assms by (auto simp: c_int_def)
    have "nat cyc div 2 ^ 16 < nat cyc' div 2 ^ 16 \<or>
      nat cyc div 2 ^ 16 = nat cyc' div 2 ^ 16 \<and> nat cyc mod 2 ^ 16 < nat cyc' mod 2 ^ 16"
      using lt by (rule div_mod_less)
    moreover have "nat cyc' div 2 ^ 16 < 16 ^ 8" using b by simp
    moreover have "nat cyc' mod 2 ^ 16 < 16 ^ 4" by simp
    ultimately show ?thesis
      using that assms by (subst (1 2) uuid8_layout) (auto simp: append_less_iff intro: hexn_less)
  qed
  have "length (uuid8 seed ward cls cyc sq) = 36" "uuid8 seed ward cls cyc sq ! 14 = CHR ''8''"
    "uuid8 seed ward cls cyc sq ! 19 = hexn 4 (2 ^ 15 + m) ! 0"
    using assms by (simp_all add: uuid8_layout uuid8_tail_def nth_append m_def)
  with order variant show ?thesis by metis
qed

theorem uuid8_name_witness:
  "length (uuid8 7 0 3 12 1) = 36 \<and> uuid8 7 0 3 12 1 < uuid8 9 1 3 13 0"
  using uuid8_name[of 12 7 0 3 1] by (simp add: c_int_def)

section \<open>Facts about the places\<close>

lemma UM_inj [simp]: "UM a = UM b \<longleftrightarrow> a = b"
  by (simp add: UM_def)

lemma lattice_inj: "a = b" if "0 \<le> a" "a < 11227" "0 \<le> b" "b < 11227"
  "(a * 37) mod 103 = (b * 37) mod 103" "(a * 23) mod 109 = (b * 23) mod 109" for a b :: int
proof (rule two_residues_unique[of 103 109 37 23 a b])
  show "coprime 103 (109 :: int)" "coprime 37 (103 :: int)" "coprime 23 (109 :: int)" by code_simp+
qed (use that in simp_all)

lemma spark_home_inj: "inj_on spark_home {0..<11227}"
proof (rule inj_onI)
  fix a b :: int assume r: "a \<in> {0..<11227}" "b \<in> {0..<11227}" and "spark_home a = spark_home b"
  then have "(a * 37) smod 103 = (b * 37) smod 103" "(a * 23) smod 109 = (b * 23) smod 109"
    by (simp_all add: spark_home_def)
  then show "a = b" using r lattice_inj[of a b] by (simp add: smod_nonneg)
qed

lemma contract_place_inj: "inj_on contract_place {0..<202}"
proof (rule inj_onI)
  fix a b :: int assume r: "a \<in> {0..<202}" "b \<in> {0..<202}" and eq: "contract_place a = contract_place b"
  then have "(a * 61) mod 101 = (b * 61) mod 101"
    by (simp add: contract_place_def smod_nonneg)
  moreover have "(a mod 2 = 0) = (b mod 2 = 0)"
    using r eq by (simp add: contract_place_def smod_nonneg UNDER_UM_def COMMONS_UM_def split: if_splits)
  then have "(a * 1) mod 2 = (b * 1) mod 2" by (simp add: mod_2_eq_odd)
  moreover have "coprime 101 (2 :: int)" "coprime 61 (101 :: int)" by code_simp+
  ultimately show "a = b" using r two_residues_unique[of 101 2 61 1 a b] by simp
qed

lemma nonphysical_place_inj: "inj_on nonphysical_place {l. unat l < 11227}"
proof (rule inj_onI)
  fix a b :: u32 assume r: "a \<in> {l. unat l < 11227}" "b \<in> {l. unat l < 11227}"
    and eq: "nonphysical_place a = nonphysical_place b"
  have small: "0 \<le> uint l" "uint l < 11227" if "l \<in> {l. unat l < 11227}" for l :: u32
    using that by (simp_all add: nat_less_iff flip: nat_uint_eq)
  have wrap: "uint ((l * 37) mod 103) = (uint l * 37) mod 103" "uint ((l * 23) mod 109) = (uint l * 23) mod 109"
    if "l \<in> {l. unat l < 11227}" for l :: u32
    using small[OF that] by (simp_all add: uint_mod_distrib uint_word_ariths)
  have "uint a = uint b"
    using eq lattice_inj[of "uint a" "uint b"] small[OF r(1)] small[OF r(2)]
    by (simp add: nonphysical_place_def wrap[OF r(1)] wrap[OF r(2)])
  then show "a = b" by (simp add: word_eq_iff_unsigned[where ?'a = int])
qed

text \<open>Things stand apart: the lattice separates 103 times 109 Sparks of a ward, twice 101 contracts of a
  board, and as many nonphysical places, and a nonphysical place is never where a Spark or a contract
  stands.\<close>

theorem places_apart:
  "inj_on spark_home {0..<103 * 109} \<and> inj_on contract_place {0..<2 * 101}
   \<and> inj_on nonphysical_place {l. unat l < 103 * 109}
   \<and> spark_home i \<noteq> nonphysical_place l \<and> contract_place i \<noteq> nonphysical_place l"
  using spark_home_inj contract_place_inj nonphysical_place_inj
  by (simp add: spark_home_def contract_place_def nonphysical_place_def COMMONS_UM_def UNDER_UM_def NONPHYSICAL_UM_def)

end
