(* ===== verification/Ward_Store.thy ===== *)
theory Ward_Store
  imports Wire "HOL-Library.Sublist"
begin

text \<open>
  What the ward asks of its databases. \<open>src/src/queen.c\<close> and \<open>src/src/interactor.c\<close> drive SQLite over
  the store plane's file system with a fixed set of statements; SQLite is not part of the repository.
  So each statement text of the source is a constructor of \<open>stmt\<close> or \<open>query\<close> with the values the
  source formats into it, the tables are the rows the \<open>CREATE TABLE\<close> statements declare, and
  \<open>apply_stmt\<close> and \<open>eval_query\<close> say what the SQL text means on them. The engine itself is a parameter:
  a record \<open>api\<close> of the calls the source makes, over a world of any type. The locale \<open>sql_engine\<close>
  states what the source relies on, and \<open>mem_engine\<close> is an executable in-memory engine, with a fault
  schedule, that satisfies it.
\<close>

section \<open>Tables\<close>

record spark_row =
  sr_id :: int
  sr_purse :: int
  sr_wear :: int
  sr_cycles :: int
  sr_at :: place
  sr_wire :: int
  sr_owner :: int

record held_row =
  hr_item :: string
  hr_kind :: string
  hr_cycle :: int

record ward_row =
  wr_cycle :: int
  wr_treasury :: int
  wr_debt :: int
  wr_issued :: int
  wr_retired :: int
  wr_at :: place
  wr_wire :: int
  wr_owner :: int

record venue_row =
  vr_id :: int
  vr_name :: string
  vr_cost :: int
  vr_built :: int
  vr_at :: place
  vr_wire :: int
  vr_owner :: int

record board_row =
  br_id :: int
  br_cycle :: int
  br_kind :: string
  br_payout :: int
  br_risk :: int
  br_taken :: int
  br_outcome :: "string option"
  br_at :: place
  br_wire :: "int option"
  br_owner :: "int option"

record ledger_row =
  lr_id :: int
  lr_cycle :: int
  lr_what :: string
  lr_amount :: int
  lr_spark :: int

datatype table = Spark_T | Held_T | Ward_T | Venue_T | Board_T | Ledger_T

text \<open>A database: every table it may have, \<open>None\<close> when the table does not exist.\<close>

record database =
  tb_spark :: "spark_row list option"
  tb_held :: "held_row list option"
  tb_ward :: "ward_row list option"
  tb_venue :: "venue_row list option"
  tb_board :: "board_row list option"
  tb_ledger :: "ledger_row list option"

definition empty_db :: database where
  "empty_db = \<lparr>tb_spark = None, tb_held = None, tb_ward = None, tb_venue = None, tb_board = None, tb_ledger = None\<rparr>"

section \<open>Statements\<close>

text \<open>Text arguments are the characters between the apostrophes of the statement, as they are formatted
  into it.\<close>

datatype stmt =
  Pragma_Journal_Memory
| Pragma_Locking_Exclusive
| Begin_Stmt
| Commit_Stmt
| Rollback_Stmt
| Drop_If_Exists table
| Create_Table table
| Insert_Spark int place u32 u32
| Insert_Venue int string int place u32 u32
| Insert_Ward int int int place u32 u32
| Update_Venue_Built int int
| Insert_Ledger int string int int
| Delete_Board
| Insert_Board int string int int place
| Update_Board_Wire u32 u32 int
| Update_Board_Taken int int
| Update_Board_Outcome string int
| Update_Spark_Purse int int
| Insert_Held string string int
| Update_Spark_Move int int place int
| Update_Ward int int int int int
| Update_Spark_Wire u32 u32 int

text \<open>The row id SQLite gives a row inserted without one into a table with an integer primary key.\<close>

definition next_rowid :: "int list \<Rightarrow> int" where
  "next_rowid ids = (if ids = [] then 1 else fold max ids (hd ids) + 1)"

definition update_where :: "('r \<Rightarrow> bool) \<Rightarrow> ('r \<Rightarrow> 'r) \<Rightarrow> 'r list \<Rightarrow> 'r list" where
  "update_where p f rows = map (\<lambda>r. if p r then f r else r) rows"

definition unique_wires :: "int option list \<Rightarrow> bool" where
  "unique_wires ws = distinct (filter (\<lambda>w. w \<noteq> None) ws)"

definition drop_table :: "table \<Rightarrow> database \<Rightarrow> database" where
  "drop_table t d = (case t of
      Spark_T \<Rightarrow> d\<lparr>tb_spark := None\<rparr> | Held_T \<Rightarrow> d\<lparr>tb_held := None\<rparr> | Ward_T \<Rightarrow> d\<lparr>tb_ward := None\<rparr>
    | Venue_T \<Rightarrow> d\<lparr>tb_venue := None\<rparr> | Board_T \<Rightarrow> d\<lparr>tb_board := None\<rparr> | Ledger_T \<Rightarrow> d\<lparr>tb_ledger := None\<rparr>)"

definition create_table :: "table \<Rightarrow> database \<Rightarrow> database option" where
  "create_table t d = (case t of
      Spark_T \<Rightarrow> (if tb_spark d = None then Some (d\<lparr>tb_spark := Some []\<rparr>) else None)
    | Held_T \<Rightarrow> (if tb_held d = None then Some (d\<lparr>tb_held := Some []\<rparr>) else None)
    | Ward_T \<Rightarrow> (if tb_ward d = None then Some (d\<lparr>tb_ward := Some []\<rparr>) else None)
    | Venue_T \<Rightarrow> (if tb_venue d = None then Some (d\<lparr>tb_venue := Some []\<rparr>) else None)
    | Board_T \<Rightarrow> (if tb_board d = None then Some (d\<lparr>tb_board := Some []\<rparr>) else None)
    | Ledger_T \<Rightarrow> (if tb_ledger d = None then Some (d\<lparr>tb_ledger := Some []\<rparr>) else None))"

text \<open>The effect of a statement, \<open>None\<close> where SQLite answers with an error: a table that is missing, a
  key that is taken, a literal that does not end.\<close>

fun apply_stmt :: "stmt \<Rightarrow> database \<Rightarrow> database option" where
  "apply_stmt Pragma_Journal_Memory d = Some d"
| "apply_stmt Pragma_Locking_Exclusive d = Some d"
| "apply_stmt Begin_Stmt d = Some d"
| "apply_stmt Commit_Stmt d = Some d"
| "apply_stmt Rollback_Stmt d = Some d"
| "apply_stmt (Drop_If_Exists t) d = Some (drop_table t d)"
| "apply_stmt (Create_Table t) d = create_table t d"
| "apply_stmt (Insert_Spark i p wire owner) d =
     do { rows \<leftarrow> tb_spark d;
          if i \<in> set (map sr_id rows) then None
          else Some (d\<lparr>tb_spark := Some (rows @ [\<lparr>sr_id = i, sr_purse = 0, sr_wear = 0, sr_cycles = 0,
            sr_at = p, sr_wire = uint wire, sr_owner = uint owner\<rparr>])\<rparr>) }"
| "apply_stmt (Insert_Venue i lit cost p wire owner) d =
     do { rows \<leftarrow> tb_venue d; name \<leftarrow> sql_unquote lit;
          if i \<in> set (map vr_id rows) \<or> uint wire \<in> set (map vr_wire rows) then None
          else Some (d\<lparr>tb_venue := Some (rows @ [\<lparr>vr_id = i, vr_name = name, vr_cost = cost, vr_built = 0,
            vr_at = p, vr_wire = uint wire, vr_owner = uint owner\<rparr>])\<rparr>) }"
| "apply_stmt (Insert_Ward tre deb iss p wire owner) d =
     do { rows \<leftarrow> tb_ward d;
          if uint wire \<in> set (map wr_wire rows) then None
          else Some (d\<lparr>tb_ward := Some (rows @ [\<lparr>wr_cycle = 0, wr_treasury = tre, wr_debt = deb,
            wr_issued = iss, wr_retired = 0, wr_at = p, wr_wire = uint wire, wr_owner = uint owner\<rparr>])\<rparr>) }"
| "apply_stmt (Update_Venue_Built c i) d =
     do { rows \<leftarrow> tb_venue d;
          Some (d\<lparr>tb_venue := Some (update_where (\<lambda>r. vr_id r = i) (\<lambda>r. r\<lparr>vr_built := c\<rparr>) rows)\<rparr>) }"
| "apply_stmt (Insert_Ledger c what amount who) d =
     do { rows \<leftarrow> tb_ledger d;
          Some (d\<lparr>tb_ledger := Some (rows @ [\<lparr>lr_id = next_rowid (map lr_id rows), lr_cycle = c,
            lr_what = what, lr_amount = amount, lr_spark = who\<rparr>])\<rparr>) }"
| "apply_stmt Delete_Board d = do { rows \<leftarrow> tb_board d; Some (d\<lparr>tb_board := Some []\<rparr>) }"
| "apply_stmt (Insert_Board c lit pay risk p) d =
     do { rows \<leftarrow> tb_board d; kind \<leftarrow> sql_unquote lit;
          Some (d\<lparr>tb_board := Some (rows @ [\<lparr>br_id = next_rowid (map br_id rows), br_cycle = c,
            br_kind = kind, br_payout = pay, br_risk = risk, br_taken = - 1, br_outcome = None,
            br_at = p, br_wire = None, br_owner = None\<rparr>])\<rparr>) }"
| "apply_stmt (Update_Board_Wire wire owner row) d =
     do { rows \<leftarrow> tb_board d;
          let rows' = update_where (\<lambda>r. br_id r = row)
            (\<lambda>r. r\<lparr>br_wire := Some (uint wire), br_owner := Some (uint owner)\<rparr>) rows;
          if unique_wires (map br_wire rows') then Some (d\<lparr>tb_board := Some rows'\<rparr>) else None }"
| "apply_stmt (Update_Board_Taken who i) d =
     do { rows \<leftarrow> tb_board d;
          Some (d\<lparr>tb_board := Some (update_where (\<lambda>r. br_id r = i) (\<lambda>r. r\<lparr>br_taken := who\<rparr>) rows)\<rparr>) }"
| "apply_stmt (Update_Board_Outcome what i) d =
     do { rows \<leftarrow> tb_board d;
          Some (d\<lparr>tb_board := Some (update_where (\<lambda>r. br_id r = i) (\<lambda>r. r\<lparr>br_outcome := Some what\<rparr>) rows)\<rparr>) }"
| "apply_stmt (Update_Spark_Purse amount i) d =
     do { rows \<leftarrow> tb_spark d;
          Some (d\<lparr>tb_spark := Some (update_where (\<lambda>r. sr_id r = i)
            (\<lambda>r. r\<lparr>sr_purse := sr_purse r + amount\<rparr>) rows)\<rparr>) }"
| "apply_stmt (Insert_Held lit klit c) d =
     do { rows \<leftarrow> tb_held d; item \<leftarrow> sql_unquote lit; kind \<leftarrow> sql_unquote klit;
          if item \<in> set (map hr_item rows) then None
          else Some (d\<lparr>tb_held := Some (rows @ [\<lparr>hr_item = item, hr_kind = kind, hr_cycle = c\<rparr>])\<rparr>) }"
| "apply_stmt (Update_Spark_Move wear c p i) d =
     do { rows \<leftarrow> tb_spark d;
          Some (d\<lparr>tb_spark := Some (update_where (\<lambda>r. sr_id r = i)
            (\<lambda>r. r\<lparr>sr_wear := wear, sr_cycles := c, sr_at := p\<rparr>) rows)\<rparr>) }"
| "apply_stmt (Update_Ward c tre deb iss ret) d =
     do { rows \<leftarrow> tb_ward d;
          Some (d\<lparr>tb_ward := Some (map (\<lambda>r. r\<lparr>wr_cycle := c, wr_treasury := tre, wr_debt := deb,
            wr_issued := iss, wr_retired := ret\<rparr>) rows)\<rparr>) }"
| "apply_stmt (Update_Spark_Wire wire owner i) d =
     do { rows \<leftarrow> tb_spark d;
          Some (d\<lparr>tb_spark := Some (update_where (\<lambda>r. sr_id r = i)
            (\<lambda>r. r\<lparr>sr_wire := uint wire, sr_owner := uint owner\<rparr>) rows)\<rparr>) }"

fun apply_stmts :: "stmt list \<Rightarrow> database \<Rightarrow> database option" where
  "apply_stmts [] d = Some d"
| "apply_stmts (s # ss) d = Option.bind (apply_stmt s d) (apply_stmts ss)"

section \<open>Queries\<close>

datatype sqlval = VInt int | VText string | VNull

datatype query =
  Q_Built int
| Q_Board_Open
| Q_Payout int
| Q_Risk int
| Q_Board_X int
| Q_Board_Y int
| Q_Board_Z int
| Q_Purse
| Q_Held_Count
| Q_Venue_Names
| Q_Held_Items
| Q_Venue_Wires
| Q_Board_Wires
| Q_Spark_Wire
| Q_Spark_Owner
| Q_Venue_Rows
| Q_Board_Rows

definition opt_int :: "int option \<Rightarrow> sqlval" where
  "opt_int v = (case v of None \<Rightarrow> VNull | Some i \<Rightarrow> VInt i)"

definition opt_text :: "string option \<Rightarrow> sqlval" where
  "opt_text v = (case v of None \<Rightarrow> VNull | Some s \<Rightarrow> VText s)"

definition venue_cells :: "venue_row \<Rightarrow> sqlval list" where
  "venue_cells r = [VInt (vr_id r), VText (vr_name r), VInt (vr_cost r), VInt (vr_built r),
     VInt (px (vr_at r)), VInt (py (vr_at r)), VInt (pz (vr_at r)), VInt (vr_wire r), VInt (vr_owner r)]"

definition board_cells :: "board_row \<Rightarrow> sqlval list" where
  "board_cells r = [VInt (br_id r), VText (br_kind r), VInt (br_payout r), VInt (br_risk r),
     VInt (br_taken r), opt_text (br_outcome r), VInt (px (br_at r)), VInt (py (br_at r)),
     VInt (pz (br_at r)), opt_int (br_wire r), opt_int (br_owner r)]"

definition board_col :: "int \<Rightarrow> (board_row \<Rightarrow> int) \<Rightarrow> database \<Rightarrow> sqlval list list option" where
  "board_col i f d = map_option (\<lambda>rows. map (\<lambda>r. [VInt (f r)]) (filter (\<lambda>r. br_id r = i) rows)) (tb_board d)"

fun eval_query :: "query \<Rightarrow> database \<Rightarrow> sqlval list list option" where
  "eval_query (Q_Built i) d =
     map_option (\<lambda>rows. map (\<lambda>r. [VInt (vr_built r)]) (filter (\<lambda>r. vr_id r = i) rows)) (tb_venue d)"
| "eval_query Q_Board_Open d =
     map_option (\<lambda>rows. map (\<lambda>r. [VInt (br_id r), VInt (br_payout r), VInt (br_risk r)])
       (sort_key br_id (filter (\<lambda>r. br_taken r = - 1) rows))) (tb_board d)"
| "eval_query (Q_Payout i) d = board_col i br_payout d"
| "eval_query (Q_Risk i) d = board_col i br_risk d"
| "eval_query (Q_Board_X i) d = board_col i (\<lambda>r. px (br_at r)) d"
| "eval_query (Q_Board_Y i) d = board_col i (\<lambda>r. py (br_at r)) d"
| "eval_query (Q_Board_Z i) d = board_col i (\<lambda>r. pz (br_at r)) d"
| "eval_query Q_Purse d = map_option (map (\<lambda>r. [VInt (sr_purse r)])) (tb_spark d)"
| "eval_query Q_Held_Count d = map_option (\<lambda>rows. [[VInt (int (length rows))]]) (tb_held d)"
| "eval_query Q_Venue_Names d =
     map_option (\<lambda>rows. map (\<lambda>r. [VText (vr_name r)])
       (sort_key vr_built (sort_key vr_id (filter (\<lambda>r. vr_built r > 0) rows)))) (tb_venue d)"
| "eval_query Q_Held_Items d = map_option (\<lambda>rows. map (\<lambda>s. [VText s]) (sort (map hr_item rows))) (tb_held d)"
| "eval_query Q_Venue_Wires d = map_option (map (\<lambda>r. [VInt (vr_wire r)])) (tb_venue d)"
| "eval_query Q_Board_Wires d = map_option (map (\<lambda>r. [opt_int (br_wire r)])) (tb_board d)"
| "eval_query Q_Spark_Wire d = map_option (map (\<lambda>r. [VInt (sr_wire r)])) (tb_spark d)"
| "eval_query Q_Spark_Owner d = map_option (map (\<lambda>r. [VInt (sr_owner r)])) (tb_spark d)"
| "eval_query Q_Venue_Rows d = map_option (\<lambda>rows. map venue_cells (sort_key vr_id rows)) (tb_venue d)"
| "eval_query Q_Board_Rows d = map_option (\<lambda>rows. map board_cells (sort_key br_id rows)) (tb_board d)"

text \<open>Reading a cell: a 64-bit integer, or its low 32 bits as a signed number. A text gives the number
  it begins with, and NULL gives zero.\<close>

definition is_digit :: "char \<Rightarrow> bool" where
  "is_digit c \<longleftrightarrow> CHR ''0'' \<le> c \<and> c \<le> CHR ''9''"

definition digits_value :: "string \<Rightarrow> int" where
  "digits_value s = foldl (\<lambda>v c. v * 10 + (int (of_char c) - 48)) 0 (takeWhile is_digit s)"

definition is_space :: "char \<Rightarrow> bool" where
  "is_space c \<longleftrightarrow> c \<in> {CHR '' '', CHR 0x09, CHR 0x0A, CHR 0x0B, CHR 0x0C, CHR 0x0D}"

definition c_atoi :: "string \<Rightarrow> int" where
  "c_atoi s = (case dropWhile is_space s of
      CHR ''-'' # t \<Rightarrow> - digits_value t
    | CHR ''+'' # t \<Rightarrow> digits_value t
    | t \<Rightarrow> digits_value t)"

definition column_int64 :: "sqlval \<Rightarrow> int" where
  "column_int64 v = (case v of VInt i \<Rightarrow> i | VText s \<Rightarrow> c_atoi s | VNull \<Rightarrow> 0)"

definition column_int :: "sqlval \<Rightarrow> int" where
  "column_int v = signed_take_bit 31 (column_int64 v)"

lemma column_int_id: "c_int i \<Longrightarrow> column_int (VInt i) = i"
  by (simp add: column_int_def column_int64_def c_int_def signed_take_bit_int_eq_self)

section \<open>The engine\<close>

text \<open>What the Queen knows when she decides: \<open>ward_view_t\<close> of \<open>src/src/planner.h\<close>.\<close>

record ward_view =
  v_cycle :: int
  v_treasury :: int
  v_debt :: int
  v_nsparks :: int
  v_reserve :: int
  v_built :: "int list"
  v_cost :: "int list"
  v_worst_wear :: int
  v_room_to_grow :: int

text \<open>The calls the ward makes. A statement or a transaction call answers whether the result was
  \<open>SQLITE_OK\<close>; a query answers the rows it stepped through, or \<open>None\<close> when it could not be prepared;
  the planner answers the venue, or \<open>None\<close> when it could not answer. A connection is a number, and
  the null pointer is 0.\<close>

record 'w api =
  sqlite3_open_v2 :: "string \<Rightarrow> 'w \<Rightarrow> nat option \<times> 'w"
  sqlite3_exec :: "nat \<Rightarrow> stmt list \<Rightarrow> 'w \<Rightarrow> bool \<times> 'w"
  sqlite3_rows :: "nat \<Rightarrow> query \<Rightarrow> 'w \<Rightarrow> sqlval list list option \<times> 'w"
  sqlite3_last_insert_rowid :: "nat \<Rightarrow> 'w \<Rightarrow> int"
  sqlite3_close :: "nat \<Rightarrow> 'w \<Rightarrow> 'w"
  weft_txn_begin :: "'w \<Rightarrow> u64 option \<times> 'w"
  weft_txn_join :: "nat \<Rightarrow> u64 \<Rightarrow> 'w \<Rightarrow> bool \<times> 'w"
  weft_txn_commit :: "u64 \<Rightarrow> 'w \<Rightarrow> bool \<times> 'w"
  weft_txn_abort :: "u64 \<Rightarrow> 'w \<Rightarrow> bool \<times> 'w"
  queen_plan :: "ward_view \<Rightarrow> 'w \<Rightarrow> int option \<times> 'w"

text \<open>What the source relies on. \<open>db_of\<close> gives the database an open connection stands for, and \<open>content\<close>
  what the connections to a database see of it. The null pointer is no connection. A statement that succeeds has its effect, and whether
  it succeeds or not it touches no other database; a query changes nothing and answers rows of its
  result from the first one on (an error ends the rows early); opening gives a new connection;
  the transaction calls move no row, except that nothing is said of a commit that fails, of an abort
  and of a \<open>ROLLBACK\<close>; the planner has no database.\<close>

locale sql_engine =
  fixes api :: "'w api"
    and db_of :: "'w \<Rightarrow> nat \<Rightarrow> string option"
    and content :: "'w \<Rightarrow> string \<Rightarrow> database"
  assumes null_closed: "db_of w 0 = None"
    and exec_ok: "sqlite3_exec api h ss w = (True, w') \<Longrightarrow> db_of w h = Some f \<Longrightarrow> Rollback_Stmt \<notin> set ss
      \<Longrightarrow> apply_stmts ss (content w f) = Some (content w' f)"
    and exec_frame: "sqlite3_exec api h ss w = (ok, w') \<Longrightarrow> db_of w h = Some f
      \<Longrightarrow> db_of w' = db_of w \<and> (\<forall>f'. f' \<noteq> f \<longrightarrow> content w' f' = content w f')"
    and exec_rowid: "sqlite3_exec api h [Insert_Board c k pay risk p] w = (True, w') \<Longrightarrow> db_of w h = Some f
      \<Longrightarrow> tb_board (content w f) = Some brows
      \<Longrightarrow> sqlite3_last_insert_rowid api h w' = next_rowid (map br_id brows)"
    and rows_frame: "sqlite3_rows api h q w = (r, w') \<Longrightarrow> db_of w h = Some f
      \<Longrightarrow> db_of w' = db_of w \<and> content w' = content w"
    and rows_prefix: "sqlite3_rows api h q w = (Some rows, w') \<Longrightarrow> db_of w h = Some f
      \<Longrightarrow> \<exists>result. eval_query q (content w f) = Some result \<and> prefix rows result"
    and open_ok: "sqlite3_open_v2 api n w = (Some h, w')
      \<Longrightarrow> db_of w h = None \<and> db_of w' = (db_of w)(h \<mapsto> n) \<and> content w' = content w"
    and open_fails: "sqlite3_open_v2 api n w = (None, w') \<Longrightarrow> db_of w' = db_of w \<and> content w' = content w"
    and close_frame: "db_of (sqlite3_close api h w) = (db_of w)(h := None)
      \<and> (\<forall>f. db_of w h \<noteq> Some f \<longrightarrow> content (sqlite3_close api h w) f = content w f)"
    and begin_frame: "weft_txn_begin api w = (txno, w') \<Longrightarrow> db_of w' = db_of w \<and> content w' = content w"
    and join_frame: "weft_txn_join api h tx w = (ok, w') \<Longrightarrow> db_of w' = db_of w \<and> content w' = content w"
    and commit_frame: "weft_txn_commit api tx w = (True, w') \<Longrightarrow> db_of w' = db_of w \<and> content w' = content w"
    and plan_frame: "queen_plan api v w = (venue, w') \<Longrightarrow> db_of w' = db_of w \<and> content w' = content w"

text \<open>An engine on which a query of a well-formed table always runs to its last row.\<close>

locale sql_reader = sql_engine +
  assumes rows_all: "db_of w h = Some f \<Longrightarrow> eval_query q (content w f) = Some result
      \<Longrightarrow> fst (sqlite3_rows api h q w) = Some result"

section \<open>An in-memory engine\<close>

text \<open>A fault schedule makes calls fail: each statement and each transaction call takes the next entry,
  and fails when it is \<open>True\<close>. A group takes at most sixteen participants.\<close>

record mem =
  m_files :: "string \<Rightarrow> database"
  m_open :: "string option list"
  m_saved :: "nat \<Rightarrow> database option"
  m_rowid :: "nat \<Rightarrow> int"
  m_txn :: u64
  m_parts :: "nat list"
  m_faults :: "bool list"
  m_plan :: "ward_view \<Rightarrow> int option"

fun slot :: "'a option list \<Rightarrow> nat \<Rightarrow> 'a option" where
  "slot xs 0 = None"
| "slot xs (Suc k) = (if k < length xs then xs ! k else None)"

lemma slot_numeral [simp]:
  "slot xs (numeral k) = (if pred_numeral k < length xs then xs ! pred_numeral k else None)"
  by (simp add: numeral_eq_Suc)

definition mem_file :: "mem \<Rightarrow> nat \<Rightarrow> string option" where
  "mem_file w = slot (m_open w)"

definition mem_tick :: "mem \<Rightarrow> bool \<times> mem" where
  "mem_tick w = (case m_faults w of [] \<Rightarrow> (False, w) | b # bs \<Rightarrow> (b, w\<lparr>m_faults := bs\<rparr>))"

definition mem_open :: "string \<Rightarrow> mem \<Rightarrow> nat option \<times> mem" where
  "mem_open n w0 = (let (bad, w) = mem_tick w0 in
     if bad then (None, w) else (Some (Suc (length (m_open w))), w\<lparr>m_open := m_open w @ [Some n]\<rparr>))"

definition mem_saved' :: "stmt list \<Rightarrow> database \<Rightarrow> database option \<Rightarrow> database option" where
  "mem_saved' ss d saved = (if Begin_Stmt \<in> set ss then Some d else if Commit_Stmt \<in> set ss then None else saved)"

definition mem_rowid' :: "stmt list \<Rightarrow> database \<Rightarrow> int \<Rightarrow> int" where
  "mem_rowid' ss d old = (case ss of
      [Insert_Board _ _ _ _ _] \<Rightarrow> next_rowid (map br_id (the (tb_board d)))
    | [Insert_Ledger _ _ _ _] \<Rightarrow> next_rowid (map lr_id (the (tb_ledger d)))
    | _ \<Rightarrow> old)"

definition mem_exec :: "nat \<Rightarrow> stmt list \<Rightarrow> mem \<Rightarrow> bool \<times> mem" where
  "mem_exec h ss w0 = (let (bad, w) = mem_tick w0 in
     case mem_file w h of
       None \<Rightarrow> (False, w)
     | Some f \<Rightarrow>
         if bad \<or> Begin_Stmt \<in> set ss \<and> m_saved w h \<noteq> None then (False, w)
         else if ss = [Rollback_Stmt] then
           (case m_saved w h of
              None \<Rightarrow> (False, w)
            | Some d \<Rightarrow> (True, w\<lparr>m_files := (m_files w)(f := d), m_saved := (m_saved w)(h := None)\<rparr>))
         else
           (case apply_stmts ss (m_files w f) of
              None \<Rightarrow> (False, w)
            | Some d \<Rightarrow> (True, w\<lparr>m_files := (m_files w)(f := d),
                m_saved := (m_saved w)(h := mem_saved' ss (m_files w f) (m_saved w h)),
                m_rowid := (m_rowid w)(h := mem_rowid' ss (m_files w f) (m_rowid w h))\<rparr>)))"

definition mem_rows :: "nat \<Rightarrow> query \<Rightarrow> mem \<Rightarrow> sqlval list list option \<times> mem" where
  "mem_rows h q w = (Option.bind (mem_file w h) (\<lambda>f. eval_query q (m_files w f)), w)"

definition mem_close :: "nat \<Rightarrow> mem \<Rightarrow> mem" where
  "mem_close h w = w\<lparr>m_open := (case h of 0 \<Rightarrow> m_open w | Suc k \<Rightarrow> (m_open w)[k := None])\<rparr>"

definition mem_begin :: "mem \<Rightarrow> u64 option \<times> mem" where
  "mem_begin w0 = (let (bad, w) = mem_tick w0 in
     if bad then (None, w) else (Some (m_txn w), w\<lparr>m_txn := m_txn w + 1, m_parts := []\<rparr>))"

definition mem_join :: "nat \<Rightarrow> u64 \<Rightarrow> mem \<Rightarrow> bool \<times> mem" where
  "mem_join h tx w0 = (let (bad, w) = mem_tick w0 in
     if bad \<or> length (m_parts w) \<ge> 16 then (False, w) else (True, w\<lparr>m_parts := m_parts w @ [h]\<rparr>))"

definition mem_end :: "u64 \<Rightarrow> mem \<Rightarrow> bool \<times> mem" where
  "mem_end tx w0 = (let (bad, w) = mem_tick w0 in (\<not> bad, w\<lparr>m_parts := []\<rparr>))"

definition mem_engine :: "mem api" where
  "mem_engine = \<lparr>sqlite3_open_v2 = mem_open, sqlite3_exec = mem_exec, sqlite3_rows = mem_rows,
     sqlite3_last_insert_rowid = (\<lambda>h w. m_rowid w h), sqlite3_close = mem_close,
     weft_txn_begin = mem_begin, weft_txn_join = mem_join, weft_txn_commit = mem_end,
     weft_txn_abort = mem_end, queen_plan = (\<lambda>v w. (m_plan w v, w))\<rparr>"

lemmas mem_defs = mem_engine_def mem_open_def mem_exec_def mem_rows_def mem_close_def mem_begin_def
  mem_join_def mem_end_def mem_tick_def mem_file_def mem_saved'_def mem_rowid'_def

definition mem_start :: mem where
  "mem_start = \<lparr>m_files = (\<lambda>_. empty_db), m_open = [], m_saved = (\<lambda>_. None), m_rowid = (\<lambda>_. 0),
     m_txn = 1, m_parts = [], m_faults = [], m_plan = (\<lambda>_. Some (- 1))\<rparr>"

lemma mem_tick_frame [simp]:
  "mem_tick w = (b, w') \<Longrightarrow> m_files w' = m_files w" "mem_tick w = (b, w') \<Longrightarrow> m_open w' = m_open w"
  "mem_tick w = (b, w') \<Longrightarrow> mem_file w' = mem_file w"
  by (auto simp: mem_tick_def mem_file_def split: list.splits)

lemma mem_file_open:
  "mem_file (w\<lparr>m_open := m_open w @ [Some n]\<rparr>) = (mem_file w)(Suc (length (m_open w)) \<mapsto> n)"
proof (rule ext)
  fix h
  show "mem_file (w\<lparr>m_open := m_open w @ [Some n]\<rparr>) h = ((mem_file w)(Suc (length (m_open w)) \<mapsto> n)) h"
    by (cases h) (simp_all add: mem_file_def nth_append)
qed

lemma mem_file_close: "mem_file (mem_close h w) = (mem_file w)(h := None)"
proof (rule ext)
  fix k
  show "mem_file (mem_close h w) k = ((mem_file w)(h := None)) k"
    by (cases k; cases h) (simp_all add: mem_file_def mem_close_def)
qed

lemma mem_file_cong: "m_open w' = m_open w \<Longrightarrow> mem_file w' = mem_file w"
  by (simp add: mem_file_def)

interpretation mem: sql_reader mem_engine mem_file m_files
proof unfold_locales
  fix h ss w w' f assume "sqlite3_exec mem_engine h ss w = (True, w')" "mem_file w h = Some f" "Rollback_Stmt \<notin> set ss"
  then show "apply_stmts ss (m_files w f) = Some (m_files w' f)"
    by (auto simp: mem_engine_def mem_exec_def split: prod.splits option.splits if_splits)
next
  fix h ss w ok w' f assume "sqlite3_exec mem_engine h ss w = (ok, w')" "mem_file w h = Some f"
  then show "mem_file w' = mem_file w \<and> (\<forall>f'. f' \<noteq> f \<longrightarrow> m_files w' f' = m_files w f')"
    by (auto simp: mem_engine_def mem_exec_def mem_file_def split: prod.splits option.splits if_splits)
next
  fix h c k y r p w w' f rows
  assume "sqlite3_exec mem_engine h [Insert_Board c k y r p] w = (True, w')" "mem_file w h = Some f"
    "tb_board (m_files w f) = Some rows"
  then show "sqlite3_last_insert_rowid mem_engine h w' = next_rowid (map br_id rows)"
    by (auto simp: mem_engine_def mem_exec_def mem_rowid'_def split: prod.splits option.splits if_splits)
next
  fix n w h w' assume "sqlite3_open_v2 mem_engine n w = (Some h, w')"
  then obtain w1 where w1: "mem_tick w = (False, w1)" "h = Suc (length (m_open w1))" "w' = w1\<lparr>m_open := m_open w1 @ [Some n]\<rparr>"
    by (auto simp: mem_engine_def mem_open_def split: prod.splits if_splits)
  moreover have "mem_file w h = None" using mem_tick_frame(2)[OF w1(1)] w1(2) by (simp add: mem_file_def)
  ultimately show "mem_file w h = None \<and> mem_file w' = (mem_file w)(h \<mapsto> n) \<and> m_files w' = m_files w"
    using mem_tick_frame[OF w1(1)] mem_file_open[of w1 n] by simp
next
  fix h w
  show "mem_file (sqlite3_close mem_engine h w) = (mem_file w)(h := None)
      \<and> (\<forall>f. mem_file w h \<noteq> Some f \<longrightarrow> m_files (sqlite3_close mem_engine h w) f = m_files w f)"
    by (simp add: mem_engine_def mem_file_close) (simp add: mem_close_def)
qed (auto simp: mem_engine_def mem_open_def mem_rows_def mem_begin_def mem_join_def mem_end_def
      split: prod.splits if_splits option.splits intro!: mem_file_cong, simp add: mem_file_def)

end
