(* ===== verification/Ward.thy ===== *)
theory Ward
  imports Rng Ward_Store
begin

text \<open>
  One ward: the state and the operations of \<open>src/src/queen.c\<close> and \<open>src/src/ward.h\<close>. The structs are the
  records \<open>spark\<close>, \<open>gyre\<close> and \<open>group\<close>; the array of Sparks is the list of the slots in use, so
  \<open>nsparks\<close> is its length, and a pointer to a Spark is its index. Every operation takes the engine,
  the ward and the world and gives the return code of the source with the ward and the world after
  it. An operation that names something or draws a number gives \<open>None\<close> when the process exits in
  \<open>wire_id\<close> or when \<open>fuel\<close> draws of the generator were all rejected. What the source prints is not
  modelled.
\<close>

section \<open>Constants\<close>

record venue =
  v_name :: string
  v_price :: int
  v_effect :: string

definition VENUES :: "venue list" where
  "VENUES =
     [\<lparr>v_name = ''Cycle's End Tavern'', v_price = 120,
       v_effect = ''rest, so a Spark will take a longer odds contract''\<rparr>,
      \<lparr>v_name = ''Splicer's Den'', v_price = 200,
       v_effect = ''frames repaired, so wear stops ending careers''\<rparr>,
      \<lparr>v_name = ''Transit Rails'', v_price = 260, v_effect = ''more contracts reach the board''\<rparr>,
      \<lparr>v_name = ''Exchange Plaza'', v_price = 340, v_effect = ''salvage sells for what it is worth''\<rparr>,
      \<lparr>v_name = ''Chapel of the Backup'', v_price = 420,
       v_effect = ''a failure costs a cycle, not a Spark''\<rparr>,
      \<lparr>v_name = ''Broadcast Row'', v_price = 500, v_effect = ''word gets out, and Sparks arrive''\<rparr>]"

definition NVENUES :: int where "NVENUES = int (length VENUES)"

definition VENUE_PLACES :: "place list" where
  "VENUE_PLACES =
     [\<lparr>px = UM (- 20), py = COMMONS_UM, pz = UM 10\<rparr>, \<lparr>px = UM 0, py = COMMONS_UM, pz = UM 18\<rparr>,
      \<lparr>px = UM 20, py = COMMONS_UM, pz = UM 10\<rparr>, \<lparr>px = UM (- 20), py = UNDER_UM, pz = UM (- 10)\<rparr>,
      \<lparr>px = UM 0, py = UNDER_UM, pz = UM (- 18)\<rparr>, \<lparr>px = UM 20, py = UNDER_UM, pz = UM (- 10)\<rparr>]"

definition KINDS :: "string list" where
  "KINDS = [''scavenge'', ''hack'', ''repair'', ''delivery'', ''survey'', ''courier'', ''listening'',
            ''salvage'', ''decommission'']"

definition NKINDS :: u32 where "NKINDS = word_of_nat (length KINDS)"

definition TXN_MAX_PARTS :: int where "TXN_MAX_PARTS = 16"
definition BOARD_SIZE :: int where "BOARD_SIZE = 6"
definition FIXED_ENTITIES :: int where "FIXED_ENTITIES = NVENUES + 1 + BOARD_SIZE + 3"
definition SPARKS_PER_WARD :: int where "SPARKS_PER_WARD = WARD_AUTHORITY - FIXED_ENTITIES"
definition MAX_SPARKS :: int where "MAX_SPARKS = WARD_AUTHORITY"
definition ARRIVAL_CYCLES :: int where "ARRIVAL_CYCLES = 12"

lemmas ward_consts = NVENUES_def VENUES_def TXN_MAX_PARTS_def BOARD_SIZE_def FIXED_ENTITIES_def
  SPARKS_PER_WARD_def MAX_SPARKS_def ARRIVAL_CYCLES_def budget_defs

section \<open>State\<close>

record spark =
  s_db :: nat
  s_id :: int
  s_purse :: int
  s_wear :: int
  s_at :: place

record gyre =
  g_ward :: nat
  g_sparks :: "spark list"
  g_rng :: rng
  g_cycle :: int
  g_treasury :: int
  g_debt :: int
  g_issued :: int
  g_found :: int
  g_retired :: int
  g_spent :: int
  g_ward_no :: int
  g_prefix :: string
  g_seed :: u64
  g_seq :: u64

definition nsparks :: "gyre \<Rightarrow> int" where "nsparks g = int (length (g_sparks g))"

text \<open>A ward after \<open>memset\<close>.\<close>

definition zero_gyre :: gyre where
  "zero_gyre = \<lparr>g_ward = 0, g_sparks = [], g_rng = \<lparr>rstate = replicate 16 0, rout = replicate 16 0, used = 0\<rparr>,
     g_cycle = 0, g_treasury = 0, g_debt = 0, g_issued = 0, g_found = 0, g_retired = 0, g_spent = 0,
     g_ward_no = 0, g_prefix = [], g_seed = 0, g_seq = 0\<rparr>"

section \<open>Statements\<close>

definition run :: "'w api \<Rightarrow> nat \<Rightarrow> stmt list \<Rightarrow> 'w \<Rightarrow> int \<times> 'w" where
  "run api h ss w = (let (ok, w) = sqlite3_exec api h ss w in (if ok then 0 else 1, w))"

definition scalar :: "'w api \<Rightarrow> nat \<Rightarrow> query \<Rightarrow> 'w \<Rightarrow> int \<times> 'w" where
  "scalar api h q w = (let (r, w) = sqlite3_rows api h q w in
     (case r of None \<Rightarrow> - 1 | Some [] \<Rightarrow> - 1 | Some (row # _) \<Rightarrow> column_int (hd row), w))"

definition scalar64 :: "'w api \<Rightarrow> nat \<Rightarrow> query \<Rightarrow> 'w \<Rightarrow> int \<times> 'w" where
  "scalar64 api h q w = (let (r, w) = sqlite3_rows api h q w in
     (case r of None \<Rightarrow> 0 | Some [] \<Rightarrow> 0 | Some (row # _) \<Rightarrow> column_int64 (hd row), w))"

definition open_db :: "'w api \<Rightarrow> string \<Rightarrow> 'w \<Rightarrow> nat \<times> 'w" where
  "open_db api name w =
     (let (h, w) = sqlite3_open_v2 api name w in
      case h of None \<Rightarrow> (0, w)
      | Some db \<Rightarrow>
          let (e, w) = run api db [Pragma_Journal_Memory] w in
          if e \<noteq> 0 then (0, w) else
          let (e, w) = run api db [Pragma_Locking_Exclusive] w in
          if e \<noteq> 0 then (0, w) else (db, w))"

text \<open>The decimal digits \<open>snprintf\<close> writes for \<open>%d\<close>.\<close>

fun dec_of :: "nat \<Rightarrow> string" where
  "dec_of v = (if v < 10 then [char_of (48 + v)] else dec_of (v div 10) @ [char_of (48 + v mod 10)])"

declare dec_of.simps [simp del]

definition dec :: "int \<Rightarrow> string" where
  "dec i = (if i < 0 then CHR ''-'' # dec_of (nat (- i)) else dec_of (nat i))"

section \<open>Founding\<close>

definition spark_db_name :: "string \<Rightarrow> int \<Rightarrow> string" where
  "spark_db_name pre i = take 127 (pre @ ''-spark-'' @ dec i @ ''.db'')"

definition ward_db_name :: "string \<Rightarrow> string" where
  "ward_db_name pre = take 127 (pre @ ''-ward.db'')"

definition join_ward :: "'w api \<Rightarrow> gyre \<Rightarrow> int \<Rightarrow> 'w \<Rightarrow> (int \<times> gyre \<times> 'w) option" where
  "join_ward api g i w =
     (if nsparks g \<ge> MAX_SPARKS \<or> nsparks g \<ge> SPARKS_PER_WARD then Some (1, g, w) else
      let (db, w) = open_db api (spark_db_name (g_prefix g) i) w in
      if db = 0 then Some (1, g, w) else
      let (e, w) = run api db [Drop_If_Exists Spark_T, Drop_If_Exists Held_T] w in
      if e \<noteq> 0 then Some (1, g, w) else
      let (e, w) = run api db [Create_Table Spark_T, Create_Table Held_T] w in
      if e \<noteq> 0 then Some (1, g, w) else
      do { wire \<leftarrow> wire_id (g_ward_no g) (WIRE_SPARK_BASE + word_of_int i);
           let (e, w) = run api db [Insert_Spark i (spark_home i) wire (class_owner CLASS_SPARK (g_ward_no g))] w;
           if e \<noteq> 0 then Some (1, g, w)
           else Some (0, g\<lparr>g_sparks := g_sparks g @
             [\<lparr>s_db = db, s_id = i, s_purse = 0, s_wear = 0, s_at = spark_home i\<rparr>]\<rparr>, w) })"

fun insert_venues :: "'w api \<Rightarrow> nat \<Rightarrow> int \<Rightarrow> nat list \<Rightarrow> 'w \<Rightarrow> (int \<times> 'w) option" where
  "insert_venues api ward no [] w = Some (0, w)"
| "insert_venues api ward no (i # is) w =
     do { wire \<leftarrow> wire_id no (WIRE_VENUE_BASE + word_of_nat i);
          let (e, w) = run api ward [Insert_Venue (int i) (quoted (v_name (VENUES ! i)) 96)
            (v_price (VENUES ! i)) (VENUE_PLACES ! i) wire (class_owner CLASS_VENUE no)] w;
          if e \<noteq> 0 then Some (1, w) else insert_venues api ward no is w }"

fun join_all :: "'w api \<Rightarrow> gyre \<Rightarrow> int list \<Rightarrow> 'w \<Rightarrow> (int \<times> gyre \<times> 'w) option" where
  "join_all api g [] w = Some (0, g, w)"
| "join_all api g (i # is) w =
     do { (e, g, w) \<leftarrow> join_ward api g i w;
          if e \<noteq> 0 then Some (1, g, w) else join_all api g is w }"

definition found_ward :: "'w api \<Rightarrow> gyre \<Rightarrow> string \<Rightarrow> int \<Rightarrow> u64 \<Rightarrow> int \<Rightarrow> 'w \<Rightarrow> (int \<times> gyre \<times> 'w) option" where
  "found_ward api g pre n seed base w =
     (let (ward, w) = open_db api (ward_db_name pre) w;
          g = g\<lparr>g_ward := ward\<rparr> in
      if ward = 0 then Some (1, g, w) else
      let g = g\<lparr>g_prefix := take 63 pre, g_ward_no := base sdiv SPARKS_PER_WARD\<rparr>;
          (e, w) = run api ward [Drop_If_Exists Ward_T, Drop_If_Exists Venue_T, Drop_If_Exists Board_T,
                     Drop_If_Exists Ledger_T] w in
      if e \<noteq> 0 then Some (1, g, w) else
      let (e, w) = run api ward [Create_Table Ward_T, Create_Table Venue_T, Create_Table Board_T,
                     Create_Table Ledger_T] w in
      if e \<noteq> 0 then Some (1, g, w) else
      do { (e, w) \<leftarrow> insert_venues api ward (g_ward_no g) [0..<nat NVENUES] w;
           if e \<noteq> 0 then Some (1, g, w) else do {
           let g = g\<lparr>g_treasury := 300, g_debt := 4000, g_issued := 300, g_retired := 0, g_cycle := 0,
                     g_found := 0, g_seq := 0, g_seed := seed, g_rng := rng_seed seed\<rparr>;
           wire \<leftarrow> wire_id (g_ward_no g) WIRE_QUEEN;
           let (e, w) = run api ward [Insert_Ward (g_treasury g) (g_debt g) (g_issued g)
             (nonphysical_place WIRE_QUEEN) wire (class_owner CLASS_QUEEN (g_ward_no g))] w;
           if e \<noteq> 0 then Some (1, g, w)
           else join_all api g (map (\<lambda>i. base + int i) [0..<nat n]) w }})"

definition ward_room :: "gyre \<Rightarrow> int" where
  "ward_room g = (let room = (if MAX_SPARKS < SPARKS_PER_WARD then MAX_SPARKS else SPARKS_PER_WARD) - nsparks g
                  in if room > 0 then room else 0)"

section \<open>Venues\<close>

definition built :: "'w api \<Rightarrow> gyre \<Rightarrow> int \<Rightarrow> 'w \<Rightarrow> bool \<times> 'w" where
  "built api g i w = (let (v, w) = scalar api (g_ward g) (Q_Built i) w in (v \<noteq> 0, w))"

definition build_venue :: "'w api \<Rightarrow> gyre \<Rightarrow> int \<Rightarrow> 'w \<Rightarrow> int \<times> gyre \<times> 'w" where
  "build_venue api g i w =
     (if i < 0 \<or> i \<ge> NVENUES then (1, g, w)
      else let cost = v_price (VENUES ! nat i) in
      if g_treasury g < cost then (1, g, w) else
      let (b, w) = built api g i w in
      if b then (1, g, w) else
      let g = g\<lparr>g_treasury := g_treasury g - cost, g_spent := g_spent g + cost\<rparr>;
          (e, w) = run api (g_ward g) [Update_Venue_Built (g_cycle g) i] w in
      if e \<noteq> 0 then (1, g, w) else
      let (e, w) = run api (g_ward g) [Insert_Ledger (g_cycle g) ''commission'' (- cost) (- 1)] w in
      (e, g, w))"

fun read_built :: "'w api \<Rightarrow> nat \<Rightarrow> nat list \<Rightarrow> 'w \<Rightarrow> int list \<times> 'w" where
  "read_built api ward [] w = ([], w)"
| "read_built api ward (i # is) w =
     (let (b, w) = scalar api ward (Q_Built (int i)) w; (bs, w) = read_built api ward is w in (b # bs, w))"

definition worst_wear :: "gyre \<Rightarrow> int" where
  "worst_wear g = fold (\<lambda>s worst. if s_wear s > worst then s_wear s else worst) (g_sparks g) 0"

definition commission :: "'w api \<Rightarrow> gyre \<Rightarrow> 'w \<Rightarrow> int \<times> gyre \<times> 'w" where
  "commission api g w =
     (let (bs, w) = read_built api (g_ward g) [0..<nat NVENUES] w;
          view = \<lparr>v_cycle = g_cycle g, v_treasury = g_treasury g, v_debt = g_debt g, v_nsparks = nsparks g,
            v_reserve = 25 * nsparks g, v_built = bs, v_cost = map v_price VENUES,
            v_worst_wear = worst_wear g, v_room_to_grow = ward_room g\<rparr>;
          (r, w) = queen_plan api view w in
      case r of None \<Rightarrow> (- 2, g, w)
      | Some i \<Rightarrow>
          if i < 0 \<or> i \<ge> NVENUES then (- 1, g, w)
          else let (e, g, w) = build_venue api g i w in (if e \<noteq> 0 then - 1 else i, g, w))"

section \<open>The board\<close>

fun post_rows :: "'w api \<Rightarrow> nat \<Rightarrow> gyre \<Rightarrow> nat list \<Rightarrow> 'w \<Rightarrow> (int \<times> gyre \<times> 'w) option" where
  "post_rows api fuel g [] w = Some (0, g, w)"
| "post_rows api fuel g (i # is) w =
     do { (k, r) \<leftarrow> rng_below fuel (g_rng g) NKINDS;
          (v, r) \<leftarrow> rng_below fuel r 55;
          let risk = 10 + uint v;
          (v, r) \<leftarrow> rng_below fuel r 20;
          let payout = 18 + risk sdiv 2 + uint v;
          let g = g\<lparr>g_rng := r\<rparr>;
          let (plaza, w) = built api g 3 w;
          let payout = (if plaza then payout + payout sdiv 4 else payout);
          let p = contract_place (g_cycle g * BOARD_SIZE + int i);
          let (e, w) = run api (g_ward g) [Insert_Board (g_cycle g) (KINDS ! unat k) payout risk p] w;
          if e \<noteq> 0 then Some (1, g, w) else do {
          let row = sqlite3_last_insert_rowid api (g_ward g) w;
          wire \<leftarrow> wire_id (g_ward_no g) (WIRE_CONTRACT_BASE + word_of_int row);
          let (e, w) = run api (g_ward g)
            [Update_Board_Wire wire (class_owner CLASS_CONTRACT (g_ward_no g)) row] w;
          if e \<noteq> 0 then Some (1, g, w) else post_rows api fuel g is w }}"

definition post_board :: "'w api \<Rightarrow> nat \<Rightarrow> gyre \<Rightarrow> 'w \<Rightarrow> (int \<times> gyre \<times> 'w) option" where
  "post_board api fuel g w =
     (let (rails, w) = built api g 2 w;
          n = BOARD_SIZE + (if rails then 3 else 0);
          (e, w) = run api (g_ward g) [Delete_Board] w in
      if e \<noteq> 0 then Some (1, g, w) else post_rows api fuel g [0..<nat n] w)"

fun best_contract :: "int \<Rightarrow> int \<Rightarrow> int \<Rightarrow> sqlval list list \<Rightarrow> int" where
  "best_contract nerve best best_score [] = best"
| "best_contract nerve best best_score (row # rows) =
     (let i = column_int (row ! 0); payout = column_int (row ! 1); risk = column_int (row ! 2);
          score = payout * nerve sdiv 100 - risk in
      if score > best_score then best_contract nerve i score rows
      else best_contract nerve best best_score rows)"

definition INT_MIN :: int where "INT_MIN = - (2 ^ 31)"

text \<open>The query is prepared before the two reads of \<open>built\<close> and stepped after them; \<open>sqlite3_rows\<close> is both, and stands where it
  is prepared. Between the two nothing writes.\<close>

definition choose_contract :: "'w api \<Rightarrow> gyre \<Rightarrow> spark \<Rightarrow> 'w \<Rightarrow> int \<times> 'w" where
  "choose_contract api g s w =
     (let (r, w) = sqlite3_rows api (g_ward g) Q_Board_Open w in
      case r of None \<Rightarrow> (- 1, w)
      | Some rows \<Rightarrow>
          let (tavern, w) = built api g 0 w; (chapel, w) = built api g 4 w;
              nerve = 100 - s_wear s + (if tavern then 25 else 0) + (if chapel then 20 else 0);
              best = best_contract nerve (- 1) INT_MIN rows in
          if best \<ge> 0 then
            let (e, w) = run api (g_ward g) [Update_Board_Taken (s_id s) best] w in
            (if e \<noteq> 0 then - 1 else best, w)
          else (best, w))"

section \<open>The group a cycle commits as\<close>

record group =
  grp_txn :: u64
  grp_dbs :: "nat list"

definition group_join :: "'w api \<Rightarrow> group \<Rightarrow> nat \<Rightarrow> 'w \<Rightarrow> int \<times> group \<times> 'w" where
  "group_join api grp db w =
     (if db \<in> set (grp_dbs grp) then (0, grp, w)
      else if int (length (grp_dbs grp)) \<ge> TXN_MAX_PARTS then (1, grp, w)
      else let (ok, w) = weft_txn_join api db (grp_txn grp) w in
      if \<not> ok then (1, grp, w) else
      let (e, w) = run api db [Begin_Stmt] w in
      if e \<noteq> 0 then (1, grp, w) else (0, grp\<lparr>grp_dbs := grp_dbs grp @ [db]\<rparr>, w))"

definition group_begin :: "'w api \<Rightarrow> nat \<Rightarrow> 'w \<Rightarrow> int \<times> group \<times> 'w" where
  "group_begin api ward w =
     (let (t, w) = weft_txn_begin api w in
      case t of None \<Rightarrow> (1, \<lparr>grp_txn = 0, grp_dbs = []\<rparr>, w)
      | Some txn \<Rightarrow> group_join api \<lparr>grp_txn = txn, grp_dbs = []\<rparr> ward w)"

definition group_abort :: "'w api \<Rightarrow> group \<Rightarrow> 'w \<Rightarrow> 'w" where
  "group_abort api grp w =
     snd (weft_txn_abort api (grp_txn grp)
       (fold (\<lambda>db w. snd (sqlite3_exec api db [Rollback_Stmt] w)) (grp_dbs grp) w))"

fun commit_all :: "'w api \<Rightarrow> nat list \<Rightarrow> 'w \<Rightarrow> int \<times> 'w" where
  "commit_all api [] w = (0, w)"
| "commit_all api (db # dbs) w =
     (let (e, w) = run api db [Commit_Stmt] w in if e \<noteq> 0 then (1, w) else commit_all api dbs w)"

definition group_commit :: "'w api \<Rightarrow> group \<Rightarrow> 'w \<Rightarrow> int \<times> 'w" where
  "group_commit api grp w =
     (let (e, w) = commit_all api (grp_dbs grp) w in
      if e \<noteq> 0 then (1, group_abort api grp w) else
      let (ok, w) = weft_txn_commit api (grp_txn grp) w in (if ok then 0 else 1, w))"

section \<open>Paying a Spark\<close>

definition pay :: "'w api \<Rightarrow> gyre \<Rightarrow> group \<Rightarrow> nat \<Rightarrow> int \<Rightarrow> (string \<times> string) option \<Rightarrow> 'w \<Rightarrow>
    int \<times> gyre \<times> group \<times> 'w" where
  "pay api g grp k amount item w =
     (let s = g_sparks g ! k; (e, grp, w) = group_join api grp (s_db s) w in
      if e \<noteq> 0 then (1, g, grp, w) else
      let (e, w) = run api (g_ward g) [Insert_Ledger (g_cycle g) ''wages'' (- amount) (s_id s)] w in
      if e \<noteq> 0 then (1, g, grp, w) else
      let (e, w) = run api (s_db s) [Update_Spark_Purse amount (s_id s)] w in
      if e \<noteq> 0 then (1, g, grp, w) else
      let (e, w) = (case item of None \<Rightarrow> (0, w)
                    | Some (name, kind) \<Rightarrow> run api (s_db s) [Insert_Held name kind (g_cycle g)] w) in
      if e \<noteq> 0 then (1, g, grp, w) else
      (0, g\<lparr>g_treasury := g_treasury g - amount,
            g_sparks := (g_sparks g)[k := s\<lparr>s_purse := s_purse s + amount\<rparr>]\<rparr>, grp, w))"

definition pay_alone :: "'w api \<Rightarrow> gyre \<Rightarrow> nat \<Rightarrow> int \<Rightarrow> (string \<times> string) option \<Rightarrow> 'w \<Rightarrow> int \<times> gyre \<times> 'w" where
  "pay_alone api g k amount item w =
     (let (e, grp, w) = group_begin api (g_ward g) w in
      if e \<noteq> 0 then (1, g, w) else
      let (e, g, grp, w) = pay api g grp k amount item w in
      if e \<noteq> 0 then (1, g, group_abort api grp w) else
      let (e, w) = group_commit api grp w in
      if e \<noteq> 0 then
        let s = g_sparks g ! k in
        (1, g\<lparr>g_treasury := g_treasury g + amount,
              g_sparks := (g_sparks g)[k := s\<lparr>s_purse := s_purse s - amount\<rparr>]\<rparr>, w)
      else (0, g, w))"

section \<open>One cycle\<close>

definition worn :: "bool \<Rightarrow> bool \<Rightarrow> int \<Rightarrow> int" where
  "worn won den wear =
     (let wear = wear + (if won then 2 else 5); wear = wear - 1;
          wear = (if den \<and> wear > 0 then wear - 4 else wear);
          wear = (if wear < 0 then 0 else wear)
      in if wear > 90 then 90 else wear)"

text \<open>What a kept contract does to the ward's books: the payout is made and the salvage named.\<close>

definition earn :: "gyre \<Rightarrow> int \<Rightarrow> gyre" where
  "earn g payout = g\<lparr>g_treasury := g_treasury g + payout, g_issued := g_issued g + payout,
     g_found := g_found g + 1, g_seq := g_seq g + 1\<rparr>"

definition take_salvage :: "'w api \<Rightarrow> gyre \<Rightarrow> nat \<Rightarrow> bool \<Rightarrow> int \<Rightarrow> 'w \<Rightarrow>
    int \<times> (string \<times> string) option \<times> gyre \<times> 'w" where
  "take_salvage api g k won payout w =
     (if won then
        let item = uuid8 (g_seed g) (g_ward_no g) CLASS_CONTRACT (g_cycle g) (g_seq g); g = earn g payout;
            (e, w) = run api (g_ward g)
              [Insert_Ledger (g_cycle g) ''salvage'' payout (s_id (g_sparks g ! k))] w
        in (e, Some (item, ''salvage''), g, w)
      else (0, None, g, w))"

definition wear_frame :: "'w api \<Rightarrow> gyre \<Rightarrow> nat \<Rightarrow> int \<Rightarrow> bool \<Rightarrow> 'w \<Rightarrow> int \<times> gyre \<times> 'w" where
  "wear_frame api g k i won w =
     (let (den, w) = built api g 1 w; s = g_sparks g ! k;
          g = g\<lparr>g_sparks := (g_sparks g)[k := s\<lparr>s_wear := worn won den (s_wear s)\<rparr>]\<rparr>;
          (e, w) = run api (g_ward g) [Update_Board_Outcome (if won then ''kept'' else ''lost'') i] w
      in (e, g, w))"

definition pay_wage :: "'w api \<Rightarrow> gyre \<Rightarrow> group \<Rightarrow> nat \<Rightarrow> bool \<Rightarrow> int \<Rightarrow> (string \<times> string) option \<Rightarrow> 'w \<Rightarrow>
    int \<times> gyre \<times> group \<times> 'w" where
  "pay_wage api g grp k won payout item w =
     (let wage = (if won then payout sdiv 2 else 4) in
      if wage > 0 \<and> g_treasury g \<ge> wage then pay api g grp k wage item w else (0, g, grp, w))"

definition stand_at :: "'w api \<Rightarrow> gyre \<Rightarrow> group \<Rightarrow> nat \<Rightarrow> int \<Rightarrow> 'w \<Rightarrow> int \<times> gyre \<times> group \<times> 'w" where
  "stand_at api g grp k i w =
     (let (x, w) = scalar64 api (g_ward g) (Q_Board_X i) w;
          (y, w) = scalar64 api (g_ward g) (Q_Board_Y i) w;
          (z, w) = scalar64 api (g_ward g) (Q_Board_Z i) w;
          s = (g_sparks g ! k)\<lparr>s_at := \<lparr>px = x, py = y, pz = z\<rparr>\<rparr>;
          g = g\<lparr>g_sparks := (g_sparks g)[k := s]\<rparr>;
          (e, grp, w) = group_join api grp (s_db s) w in
      if e \<noteq> 0 then (1, g, grp, w) else
      let (e, w) = run api (s_db s) [Update_Spark_Move (s_wear s) (g_cycle g) (s_at s) (s_id s)] w in
      (e, g, grp, w))"

text \<open>One Spark's turn, the body of the loop over the Sparks.\<close>

definition work :: "'w api \<Rightarrow> nat \<Rightarrow> gyre \<Rightarrow> group \<Rightarrow> nat \<Rightarrow> 'w \<Rightarrow> (int \<times> gyre \<times> group \<times> 'w) option" where
  "work api fuel g grp k w =
     (let (i, w) = choose_contract api g (g_sparks g ! k) w in
      if i < 0 then Some (0, g, grp, w) else
      let (payout, w) = scalar api (g_ward g) (Q_Payout i) w;
          (risk, w) = scalar api (g_ward g) (Q_Risk i) w in
      do { (roll, r) \<leftarrow> rng_below fuel (g_rng g) 100;
           let won = (uint roll \<ge> risk);
           let g = g\<lparr>g_rng := r\<rparr>;
           let (e, item, g, w) = take_salvage api g k won payout w;
           if e \<noteq> 0 then Some (1, g, grp, w) else do {
           let (e, g, w) = wear_frame api g k i won w;
           if e \<noteq> 0 then Some (1, g, grp, w) else do {
           let (e, g, grp, w) = pay_wage api g grp k won payout item w;
           if e \<noteq> 0 then Some (1, g, grp, w) else
           Some (stand_at api g grp k i w) }}})"

fun work_all :: "'w api \<Rightarrow> nat \<Rightarrow> gyre \<Rightarrow> group \<Rightarrow> nat list \<Rightarrow> 'w \<Rightarrow> (int \<times> gyre \<times> group \<times> 'w) option" where
  "work_all api fuel g grp [] w = Some (0, g, grp, w)"
| "work_all api fuel g grp (k # ks) w =
     do { (e, g, grp, w) \<leftarrow> work api fuel g grp k w;
          if e \<noteq> 0 then Some (1, g, grp, w) else work_all api fuel g grp ks w }"

text \<open>The Debt Clock, in memory: it compounds, then takes its share.\<close>

definition debt_clock :: "gyre \<Rightarrow> gyre \<times> int" where
  "debt_clock g =
     (let debt = g_debt g + g_debt g sdiv 100; paid = g_treasury g sdiv 6;
          paid = (if paid > debt then debt else paid) in
      if paid > 0
      then (g\<lparr>g_treasury := g_treasury g - paid, g_debt := debt - paid, g_retired := g_retired g + paid\<rparr>, paid)
      else (g\<lparr>g_debt := debt\<rparr>, paid))"

text \<open>The body of a cycle between the group's beginning and its commit. A code that is not zero is a
  jump to \<open>give_up\<close>.\<close>

definition cycle_body :: "'w api \<Rightarrow> nat \<Rightarrow> gyre \<Rightarrow> group \<Rightarrow> 'w \<Rightarrow> (int \<times> bool \<times> gyre \<times> group \<times> 'w) option" where
  "cycle_body api fuel g grp w =
     (let (c, g, w) = commission api g w in
      if c = - 2 then Some (1, False, g, grp, w) else
      do { (e, g, w) \<leftarrow> post_board api fuel g w;
           if e \<noteq> 0 then Some (1, False, g, grp, w) else do {
           (e, g, grp, w) \<leftarrow> work_all api fuel g grp [0..<length (g_sparks g)] w;
           if e \<noteq> 0 then Some (1, False, g, grp, w) else do {
           let (g, paid) = debt_clock g;
           let (e, w) = (if paid > 0
             then run api (g_ward g) [Insert_Ledger (g_cycle g) ''debt'' (- paid) (- 1)] w else (0, w));
           if e \<noteq> 0 then Some (1, False, g, grp, w) else do {
           let (row, w) = built api g 5 w;
           let arriving = (row \<and> nsparks g < SPARKS_PER_WARD \<and> g_cycle g smod ARRIVAL_CYCLES = 0);
           let (e, w) = run api (g_ward g)
             [Update_Ward (g_cycle g) (g_treasury g) (g_debt g) (g_issued g) (g_retired g)] w;
           Some (e, arriving, g, grp, w) }}}})"

definition cycle :: "'w api \<Rightarrow> nat \<Rightarrow> gyre \<Rightarrow> 'w \<Rightarrow> (int \<times> gyre \<times> 'w) option" where
  "cycle api fuel g w =
     (let g = g\<lparr>g_cycle := g_cycle g + 1\<rparr>; (e, grp, w) = group_begin api (g_ward g) w in
      if e \<noteq> 0 then Some (1, g, w) else
      do { (e, arriving, g, grp, w) \<leftarrow> cycle_body api fuel g grp w;
           if e \<noteq> 0 then Some (1, g, group_abort api grp w) else do {
           let (e, w) = group_commit api grp w;
           if e \<noteq> 0 then Some (1, g, w) else
           if arriving then do {
             (e, g, w) \<leftarrow> join_ward api g (g_ward_no g * SPARKS_PER_WARD + nsparks g) w;
             Some (if e \<noteq> 0 then 1 else 0, g, w) }
           else Some (0, g, w) }})"

section \<open>What the ward must never do\<close>

fun sum_scalar :: "'w api \<Rightarrow> query \<Rightarrow> nat list \<Rightarrow> 'w \<Rightarrow> int \<times> 'w" where
  "sum_scalar api q [] w = (0, w)"
| "sum_scalar api q (db # dbs) w =
     (let (v, w) = scalar api db q w; (t, w) = sum_scalar api q dbs w in (v + t, w))"

definition purses :: "'w api \<Rightarrow> gyre \<Rightarrow> 'w \<Rightarrow> int \<times> 'w" where
  "purses api g w = sum_scalar api Q_Purse (map s_db (g_sparks g)) w"

definition honest :: "'w api \<Rightarrow> gyre \<Rightarrow> 'w \<Rightarrow> int \<times> 'w" where
  "honest api g w =
     (let (p, w) = purses api g w; held = g_treasury g + p + g_retired g + g_spent g in
      if held \<noteq> g_issued g then let (p, w) = purses api g w in (1, w) else
      let (items, w) = sum_scalar api Q_Held_Count (map s_db (g_sparks g)) w in
      if items > g_found g then (1, w) else (0, w))"

definition close_ward :: "'w api \<Rightarrow> gyre \<Rightarrow> 'w \<Rightarrow> 'w" where
  "close_ward api g w =
     sqlite3_close api (g_ward g) (fold (\<lambda>s w. sqlite3_close api (s_db s) w) (g_sparks g) w)"

end
