(* ===== verification/Ward_Books.thy ===== *)
theory Ward_Books
  imports Ward
begin

text \<open>
  The books of a ward. \<open>books\<close> is the invariant behind \<open>honest\<close>: the databases of a ward are different
  ones, every Spark's database has exactly its row with the purse the process remembers, what the
  ward ever issued is in the treasury, in a purse, with the creditor or spent, and no more salvage is
  held than was found. The lemmas show that every operation of the ward that succeeds keeps it, for
  any engine with the laws of \<open>sql_engine\<close>, and that \<open>honest\<close> then answers yes.
\<close>

section \<open>The invariant\<close>

definition keeps_row :: "database \<Rightarrow> spark \<Rightarrow> bool" where
  "keeps_row d s = (case tb_spark d of Some [r] \<Rightarrow> sr_id r = s_id s \<and> sr_purse r = s_purse s \<and> tb_held d \<noteq> None
                    | _ \<Rightarrow> False)"

definition held_of :: "database \<Rightarrow> int" where
  "held_of d = (case tb_held d of None \<Rightarrow> 0 | Some hs \<Rightarrow> int (length hs))"

definition spark_db :: "('w \<Rightarrow> nat \<Rightarrow> string option) \<Rightarrow> ('w \<Rightarrow> string \<Rightarrow> database) \<Rightarrow> 'w \<Rightarrow> spark \<Rightarrow> database" where
  "spark_db db_of content w s = content w (the (db_of w (s_db s)))"

definition linked :: "('w \<Rightarrow> nat \<Rightarrow> string option) \<Rightarrow> 'w \<Rightarrow> gyre \<Rightarrow> bool" where
  "linked db_of w g \<longleftrightarrow> (let fs = map (db_of w) (g_ward g # map s_db (g_sparks g)) in None \<notin> set fs \<and> distinct fs)"

definition purse_sum :: "gyre \<Rightarrow> int" where
  "purse_sum g = sum_list (map s_purse (g_sparks g))"

definition held_sum :: "('w \<Rightarrow> nat \<Rightarrow> string option) \<Rightarrow> ('w \<Rightarrow> string \<Rightarrow> database) \<Rightarrow> 'w \<Rightarrow> gyre \<Rightarrow> int" where
  "held_sum db_of content w g = sum_list (map (\<lambda>s. held_of (spark_db db_of content w s)) (g_sparks g))"

definition balance :: "gyre \<Rightarrow> int" where
  "balance g = g_treasury g + g_retired g + g_spent g - g_issued g"

text \<open>\<open>owed\<close> pieces of salvage were found and are not in anybody's hands yet.\<close>

definition books :: "('w \<Rightarrow> nat \<Rightarrow> string option) \<Rightarrow> ('w \<Rightarrow> string \<Rightarrow> database) \<Rightarrow> int \<Rightarrow> 'w \<Rightarrow> gyre \<Rightarrow> bool" where
  "books db_of content owed w g \<longleftrightarrow>
     linked db_of w g \<and> (\<forall>s \<in> set (g_sparks g). keeps_row (spark_db db_of content w s) s)
     \<and> balance g + purse_sum g = 0 \<and> held_sum db_of content w g + owed \<le> g_found g"

text \<open>Two wards with the same Sparks whose books stand the same.\<close>

definition same_books :: "gyre \<Rightarrow> gyre \<Rightarrow> bool" where
  "same_books g g' \<longleftrightarrow> g_ward g' = g_ward g \<and> g_sparks g' = g_sparks g \<and> balance g' = balance g \<and> g_found g' = g_found g
     \<and> g_prefix g' = g_prefix g \<and> g_ward_no g' = g_ward_no g"

text \<open>A step that touches no database but those of the given connections.\<close>

definition touches :: "('w \<Rightarrow> nat \<Rightarrow> string option) \<Rightarrow> ('w \<Rightarrow> string \<Rightarrow> database) \<Rightarrow> nat set \<Rightarrow> 'w \<Rightarrow> 'w \<Rightarrow> bool" where
  "touches db_of content H w w' \<longleftrightarrow> db_of w' = db_of w
     \<and> (\<forall>f. (\<forall>h \<in> H. db_of w h \<noteq> Some f) \<longrightarrow> content w' f = content w f)"

lemma same_books_refl [simp]: "same_books g g"
  by (simp add: same_books_def)

lemma same_books_trans: "same_books g g' \<Longrightarrow> same_books g' g'' \<Longrightarrow> same_books g g''"
  by (simp add: same_books_def)

lemma touches_refl [simp]: "touches db_of content H w w"
  by (simp add: touches_def)

lemma touches_trans [trans]:
  "touches db_of content H w w' \<Longrightarrow> touches db_of content H' w' w'' \<Longrightarrow> touches db_of content (H \<union> H') w w''"
  by (auto simp: touches_def)

lemma touches_join:
  "touches db_of content H w w' \<Longrightarrow> touches db_of content H w' w'' \<Longrightarrow> touches db_of content H w w''"
  by (auto simp: touches_def)

lemma touches_mono: "touches db_of content H w w' \<Longrightarrow> H \<subseteq> H' \<Longrightarrow> touches db_of content H' w w'"
  by (auto simp: touches_def)

lemma touches_db_of: "touches db_of content H w w' \<Longrightarrow> db_of w' = db_of w"
  by (simp add: touches_def)

lemma linked_ward: "linked db_of w g \<Longrightarrow> db_of w (g_ward g) \<noteq> None"
  by (auto simp: linked_def Let_def)

lemma linked_spark:
  assumes "linked db_of w g" "k < length (g_sparks g)"
  shows "db_of w (s_db (g_sparks g ! k)) \<noteq> None"
proof -
  have "db_of w (s_db (g_sparks g ! k)) \<in> (\<lambda>s. db_of w (s_db s)) ` set (g_sparks g)"
    using assms(2) by (intro imageI nth_mem)
  moreover have "None \<notin> (\<lambda>s. db_of w (s_db s)) ` set (g_sparks g)"
    using assms(1) by (simp add: linked_def Let_def image_image)
  ultimately show ?thesis by metis
qed

lemma linked_apart:
  assumes "linked db_of w g" "k < length (g_sparks g)" "j < length (g_sparks g)" "j \<noteq> k"
  shows "db_of w (s_db (g_sparks g ! k)) \<noteq> db_of w (s_db (g_sparks g ! j))"
proof -
  have "distinct (map (\<lambda>s. db_of w (s_db s)) (g_sparks g))" using assms(1) by (simp add: linked_def Let_def o_def)
  then show ?thesis using assms(2-4) nth_eq_iff_index_eq[of "map (\<lambda>s. db_of w (s_db s)) (g_sparks g)" k j] by auto
qed

lemma linked_not_ward:
  assumes "linked db_of w g" "k < length (g_sparks g)"
  shows "db_of w (s_db (g_sparks g ! k)) \<noteq> db_of w (g_ward g)"
  using assms by (auto simp: linked_def Let_def image_iff) (metis nth_mem)

text \<open>Touching the ward's own database leaves every Spark's database alone.\<close>

lemma spark_db_frame:
  assumes "linked db_of w g" "k < length (g_sparks g)" "touches db_of content H w w'"
    "\<And>h. h \<in> H \<Longrightarrow> db_of w h \<noteq> db_of w (s_db (g_sparks g ! k))"
  shows "spark_db db_of content w' (g_sparks g ! k) = spark_db db_of content w (g_sparks g ! k)"
proof -
  obtain f where f: "db_of w (s_db (g_sparks g ! k)) = Some f" using linked_spark[OF assms(1,2)] by blast
  then have "\<forall>h \<in> H. db_of w h \<noteq> Some f" using assms(4) by metis
  then show ?thesis using assms(3) f by (simp add: touches_def spark_db_def)
qed

lemma books_frame:
  assumes b: "books db_of content n w g" and t: "touches db_of content {g_ward g} w w'" and s: "same_books g g'"
  shows "books db_of content n w' g'"
proof -
  have l: "linked db_of w g" using b by (simp add: books_def)
  have eq: "spark_db db_of content w' s = spark_db db_of content w s" if "s \<in> set (g_sparks g)" for s
    using that spark_db_frame[OF l _ t] linked_not_ward[OF l] by (metis in_set_conv_nth singletonD)
  have "map (\<lambda>s. held_of (spark_db db_of content w' s)) (g_sparks g) = map (\<lambda>s. held_of (spark_db db_of content w s)) (g_sparks g)"
    using eq by simp
  then have "held_sum db_of content w' g' = held_sum db_of content w g"
    using s unfolding held_sum_def same_books_def by argo
  then show ?thesis
    using b s eq touches_db_of[OF t]
    by (simp add: books_def same_books_def linked_def purse_sum_def)
qed

text \<open>One Spark's row and the books move together.\<close>

lemma books_update:
  assumes b: "books db_of content n w g" and k: "k < length (g_sparks g)"
    and t: "touches db_of content {g_ward g, s_db (g_sparks g ! k)} w w'"
    and s': "s_db s' = s_db (g_sparks g ! k)"
    and row: "keeps_row (spark_db db_of content w' s') s'"
    and held: "held_of (spark_db db_of content w' s') = held_of (spark_db db_of content w (g_sparks g ! k)) + m"
    and g': "g_ward g' = g_ward g" "g_sparks g' = (g_sparks g)[k := s']" "g_found g' = g_found g"
    and bal: "balance g' + s_purse s' = balance g + s_purse (g_sparks g ! k)"
  shows "books db_of content (n - m) w' g'"
proof -
  have l: "linked db_of w g" using b by (simp add: books_def)
  have dbs: "map s_db ((g_sparks g)[k := s']) = map s_db (g_sparks g)"
    using s' k by (simp add: map_update list_update_id map_update[symmetric])
  have l': "linked db_of w' g'" using l touches_db_of[OF t] dbs by (simp add: linked_def g')
  have eq: "spark_db db_of content w' (g_sparks g ! j) = spark_db db_of content w (g_sparks g ! j)"
    if "j < length (g_sparks g)" "j \<noteq> k" for j
    using spark_db_frame[OF l that(1) t] linked_not_ward[OF l that(1)] linked_apart[OF l k that(1)] that
    by (metis insertE singletonD)
  have "keeps_row (spark_db db_of content w' (g_sparks g' ! j)) (g_sparks g' ! j)" if "j < length (g_sparks g)" for j
    using b row eq[OF that] that by (cases "j = k") (simp_all add: g' books_def)
  then have rows: "\<forall>s \<in> set (g_sparks g'). keeps_row (spark_db db_of content w' s) s"
    by (auto simp: g' in_set_conv_nth)
  have "purse_sum g' = purse_sum g - s_purse (g_sparks g ! k) + s_purse s'"
    using k by (simp add: purse_sum_def g' map_update sum_list_update_int)
  moreover have "map (\<lambda>s. held_of (spark_db db_of content w' s)) ((g_sparks g)[k := s']) =
    (map (\<lambda>s. held_of (spark_db db_of content w s)) (g_sparks g))[k := held_of (spark_db db_of content w' s')]"
  proof (rule nth_equalityI)
    fix j assume "j < length (map (\<lambda>s. held_of (spark_db db_of content w' s)) ((g_sparks g)[k := s']))"
    then show "map (\<lambda>s. held_of (spark_db db_of content w' s)) ((g_sparks g)[k := s']) ! j =
      (map (\<lambda>s. held_of (spark_db db_of content w s)) (g_sparks g))[k := held_of (spark_db db_of content w' s')] ! j"
      using eq[of j] by (cases "j = k") simp_all
  qed simp
  then have "held_sum db_of content w' g' = held_sum db_of content w g + m"
    using k held by (simp add: held_sum_def g' sum_list_update_int)
  ultimately show ?thesis using b l' rows bal by (simp add: books_def g')
qed

definition reach :: "('w \<Rightarrow> nat \<Rightarrow> string option) \<Rightarrow> ('w \<Rightarrow> string \<Rightarrow> database) \<Rightarrow> nat set \<Rightarrow> 'w \<Rightarrow> 'w \<Rightarrow> bool" where
  "reach db_of content H w w' \<longleftrightarrow> touches db_of content H w w' \<and> (\<forall>h \<in> H. db_of w h \<noteq> None)"

lemma reach_db: "reach db_of content H w w' \<Longrightarrow> h \<in> H \<Longrightarrow> db_of w' h \<noteq> None"
  by (auto simp: reach_def touches_def)

lemma reach_start: "(\<And>h. h \<in> H \<Longrightarrow> db_of w h \<noteq> None) \<Longrightarrow> reach db_of content H w w"
  by (auto simp: reach_def)

lemma reach_step: "touches db_of content H' w w' \<Longrightarrow> reach db_of content H w0 w \<Longrightarrow> H' \<subseteq> H \<Longrightarrow> reach db_of content H w0 w'"
  by (auto simp: reach_def intro: touches_join touches_mono)

section \<open>The connections of a ward\<close>

definition handles :: "gyre \<Rightarrow> nat list" where
  "handles g = g_ward g # map s_db (g_sparks g)"

text \<open>What stays of a ward while its Sparks work.\<close>

definition fixed :: "gyre \<Rightarrow> nat list \<times> int list \<times> string \<times> int" where
  "fixed g = (handles g, map s_id (g_sparks g), g_prefix g, g_ward_no g)"

lemma fixed_memory [simp]:
  "fixed (g\<lparr>g_rng := a\<rparr>) = fixed g" "fixed (g\<lparr>g_cycle := c\<rparr>) = fixed g" "fixed (earn g p) = fixed g"
  "handles (g\<lparr>g_rng := a\<rparr>) = handles g" "handles (earn g p) = handles g"
  by (simp_all add: fixed_def handles_def earn_def)

lemma fixed_update:
  assumes "s_db s' = s_db (g_sparks g ! k)" "s_id s' = s_id (g_sparks g ! k)"
  shows "fixed (g\<lparr>g_sparks := (g_sparks g)[k := s']\<rparr>) = fixed g"
proof (cases "k < length (g_sparks g)")
  case True
  then show ?thesis
    using assms list_update_id[of "map s_db (g_sparks g)" k] list_update_id[of "map s_id (g_sparks g)" k]
    by (simp add: fixed_def handles_def map_update)
next
  case False
  then show ?thesis by (simp add: fixed_def handles_def list_update_beyond)
qed

lemma fixed_pay: "fixed (g\<lparr>g_treasury := a, g_sparks := ss\<rparr>) = fixed (g\<lparr>g_sparks := ss\<rparr>)"
  by (simp add: fixed_def handles_def)

lemma fixed_handles: "fixed g' = fixed g \<Longrightarrow> handles g' = handles g"
  by (simp add: fixed_def)

lemma handles_ward: "g_ward g \<in> set (handles g)"
  by (simp add: handles_def)

lemma handles_spark: "k < length (g_sparks g) \<Longrightarrow> s_db (g_sparks g ! k) \<in> set (handles g)"
  by (simp add: handles_def)

lemma handles_length: "handles g' = handles g \<Longrightarrow> length (g_sparks g') = length (g_sparks g)"
  by (auto simp: handles_def dest: map_eq_imp_length_eq)

lemma same_books_fixed: "same_books g g' \<Longrightarrow> fixed g' = fixed g"
  by (simp add: same_books_def fixed_def handles_def)

lemma books_handles: "books db_of content n w g \<Longrightarrow> h \<in> set (handles g) \<Longrightarrow> db_of w h \<noteq> None"
  unfolding books_def linked_def Let_def handles_def by (metis image_eqI set_map)

section \<open>The ways an operation succeeds\<close>

lemma pay_wage_cases:
  assumes "pay_wage api g grp k won payout item w = (e, g', grp', w')"
  obtains (paid) wage where "pay api g grp k wage item w = (e, g', grp', w')" "0 < wage" "wage \<le> g_treasury g"
    | (kept) "e = 0" "g' = g" "grp' = grp" "w' = w"
proof (cases "0 < (if won then payout sdiv 2 else 4) \<and> (if won then payout sdiv 2 else 4) \<le> g_treasury g")
  case True
  then have "pay api g grp k (if won then payout sdiv 2 else 4) item w = (e, g', grp', w')"
    using assms by (simp add: pay_wage_def Let_def)
  with True show thesis using paid by blast
next
  case False
  then have "(0, g, grp, w) = (e, g', grp', w')" using assms by (simp only: pay_wage_def Let_def if_False)
  then show thesis using kept by simp
qed

lemma work_cases:
  assumes "work api fuel g grp k w = Some (0, g', grp', w')"
  obtains (idle) i where "choose_contract api g (g_sparks g ! k) w = (i, w')" "g' = g" "grp' = grp"
    | (busy) i payout risk r won item w1 w2 w3 w4 w5 w6 g1 g2 g3 grp3 where
      "choose_contract api g (g_sparks g ! k) w = (i, w1)" "0 \<le> i"
      "scalar api (g_ward g) (Q_Payout i) w1 = (payout, w2)" "scalar api (g_ward g) (Q_Risk i) w2 = (risk, w3)"
      "take_salvage api (g\<lparr>g_rng := r\<rparr>) k won payout w3 = (0, item, g1, w4)"
      "wear_frame api g1 k i won w4 = (0, g2, w5)"
      "pay_wage api g2 grp k won payout item w5 = (0, g3, grp3, w6)"
      "stand_at api g3 grp3 k i w6 = (0, g', grp', w')"
  using assms unfolding work_def by (elim do_elims) auto

lemma cycle_body_cases:
  assumes "cycle_body api fuel g grp w = Some (0, arriving, g', grp', w')"
  obtains c g1 w1 g2 w2 g3 w3 paid w4 b5 w5 where
    "commission api g w = (c, g1, w1)" "post_board api fuel g1 w1 = Some (0, g2, w2)"
    "work_all api fuel g2 grp [0..<length (g_sparks g2)] w2 = Some (0, g3, grp', w3)"
    "debt_clock g3 = (g', paid)"
    "(if paid > 0 then run api (g_ward g') [Insert_Ledger (g_cycle g') ''debt'' (- paid) (- 1)] w3 else (0, w3)) = (0, w4)"
    "built api g' 5 w4 = (b5, w5)"
    "run api (g_ward g') [Update_Ward (g_cycle g') (g_treasury g') (g_debt g') (g_issued g') (g_retired g')] w5 = (0, w')"
  using assms unfolding cycle_body_def by (elim do_elims) auto

section \<open>What the statements do to a Spark's row\<close>

lemma keeps_purse:
  "keeps_row d s \<Longrightarrow> apply_stmts [Update_Spark_Purse a (s_id s)] d = Some d'
    \<Longrightarrow> keeps_row d' (s\<lparr>s_purse := s_purse s + a\<rparr>) \<and> held_of d' = held_of d + 0"
  by (auto simp: keeps_row_def held_of_def update_where_def bind_eq_Some_conv split: option.splits list.splits)

lemma keeps_held:
  "keeps_row d s \<Longrightarrow> apply_stmts [Insert_Held i j c] d = Some d' \<Longrightarrow> keeps_row d' s \<and> held_of d' = held_of d + 1"
  by (auto simp: keeps_row_def held_of_def bind_eq_Some_conv split: option.splits list.splits if_splits)

lemma keeps_move:
  "keeps_row d s \<Longrightarrow> apply_stmts [Update_Spark_Move a c p i] d = Some d' \<Longrightarrow> keeps_row d' s \<and> held_of d' = held_of d + 0"
  by (auto simp: keeps_row_def held_of_def update_where_def bind_eq_Some_conv split: option.splits list.splits)

lemma keeps_wire:
  "keeps_row d s \<Longrightarrow> apply_stmts [Update_Spark_Wire a c i] d = Some d' \<Longrightarrow> keeps_row d' s \<and> held_of d' = held_of d + 0"
  by (auto simp: keeps_row_def held_of_def update_where_def bind_eq_Some_conv split: option.splits list.splits)

lemma books_memory:
  assumes "books db_of content n w g" "k < length (g_sparks g)"
    "s_db s' = s_db (g_sparks g ! k)" "s_id s' = s_id (g_sparks g ! k)" "s_purse s' = s_purse (g_sparks g ! k)"
  shows "books db_of content n w (g\<lparr>g_sparks := (g_sparks g)[k := s']\<rparr>)"
proof -
  have "keeps_row (spark_db db_of content w (g_sparks g ! k)) (g_sparks g ! k)"
    using assms(1) nth_mem[OF assms(2)] by (simp add: books_def)
  then have "keeps_row (spark_db db_of content w s') s'"
    using assms(3-5) by (simp add: spark_db_def keeps_row_def split: option.splits list.splits)
  then have "books db_of content (n - 0) w (g\<lparr>g_sparks := (g_sparks g)[k := s']\<rparr>)"
    using assms by (intro books_update[where s' = s' and w' = w, OF assms(1,2)]) (simp_all add: spark_db_def balance_def)
  then show ?thesis by simp
qed

lemma books_earn: "books db_of content n w g \<Longrightarrow> books db_of content (n + 1) w (earn g p)"
  by (simp add: books_def earn_def linked_def balance_def purse_sum_def held_sum_def)

lemma books_less: "books db_of content n w g \<Longrightarrow> m \<le> n \<Longrightarrow> books db_of content m w g"
  by (simp add: books_def)

lemma books_same: "books db_of content n w g \<Longrightarrow> same_books g g' \<Longrightarrow> books db_of content n w g'"
  by (rule books_frame[where w = w]) simp_all

context sql_engine
begin

lemma run_touches:
  assumes "run api h ss w = (e, w')" "db_of w h \<noteq> None"
  shows "touches db_of content {h} w w'"
proof -
  obtain ok where "sqlite3_exec api h ss w = (ok, w')" using assms(1) by (auto simp: run_def split: prod.splits)
  moreover obtain f where "db_of w h = Some f" using assms(2) by blast
  ultimately show ?thesis using exec_frame by (simp add: touches_def)
qed

lemma run_ok:
  assumes "run api h ss w = (0, w')" "db_of w h = Some f" "Rollback_Stmt \<notin> set ss"
  shows "apply_stmts ss (content w f) = Some (content w' f)"
  using assms by (intro exec_ok[of h]) (auto simp: run_def split: prod.splits if_splits)

lemma run_reach: "run api h ss w = (e, w') \<Longrightarrow> reach db_of content H w0 w \<Longrightarrow> h \<in> H \<Longrightarrow> reach db_of content H w0 w'"
  using run_touches reach_db by (metis empty_subsetI insert_subset reach_step)

lemma rows_reach: "sqlite3_rows api h q w = (r, w') \<Longrightarrow> reach db_of content H w0 w \<Longrightarrow> h \<in> H \<Longrightarrow> reach db_of content H w0 w'"
proof -
  assume r: "sqlite3_rows api h q w = (r, w')" and w: "reach db_of content H w0 w" "h \<in> H"
  obtain f where "db_of w h = Some f" using reach_db[OF w] by blast
  then have "touches db_of content {} w w'" using rows_frame[OF r] by (simp add: touches_def)
  then show ?thesis using w(1) by (rule reach_step) simp
qed

lemma scalar_reach: "scalar api h q w = (v, w') \<Longrightarrow> reach db_of content H w0 w \<Longrightarrow> h \<in> H \<Longrightarrow> reach db_of content H w0 w'"
  by (auto simp: scalar_def split: prod.splits intro: rows_reach)

lemma scalar64_reach: "scalar64 api h q w = (v, w') \<Longrightarrow> reach db_of content H w0 w \<Longrightarrow> h \<in> H \<Longrightarrow> reach db_of content H w0 w'"
  by (auto simp: scalar64_def split: prod.splits intro: rows_reach)

lemma built_reach: "built api g i w = (b, w') \<Longrightarrow> reach db_of content H w0 w \<Longrightarrow> g_ward g \<in> H \<Longrightarrow> reach db_of content H w0 w'"
  by (auto simp: built_def split: prod.splits intro: scalar_reach)

lemmas reach_rules = run_reach rows_reach scalar_reach scalar64_reach built_reach


lemma build_venue_reach:
  "build_venue api g i w = (e, g', w') \<Longrightarrow> reach db_of content H w0 w \<Longrightarrow> g_ward g \<in> H \<Longrightarrow> reach db_of content H w0 w'"
  unfolding build_venue_def by (elim do_elims; clarsimp?; (erule reach_rules | simp)+)

lemma build_venue_same: "build_venue api g i w = (e, g', w') \<Longrightarrow> same_books g g'"
  by (auto simp: build_venue_def Let_def same_books_def balance_def split: prod.splits if_splits)

lemma read_built_reach:
  "read_built api h is w = (bs, w') \<Longrightarrow> reach db_of content H w0 w \<Longrightarrow> h \<in> H \<Longrightarrow> reach db_of content H w0 w'"
  by (induction "is" arbitrary: w bs) (auto split: prod.splits dest: scalar_reach)

lemma plan_reach: "queen_plan api v w = (r, w') \<Longrightarrow> reach db_of content H w0 w \<Longrightarrow> reach db_of content H w0 w'"
  using plan_frame reach_step[of db_of content "{}" w w'] by (auto simp: touches_def)

lemma commission_reach:
  "commission api g w = (c, g', w') \<Longrightarrow> reach db_of content H w0 w \<Longrightarrow> g_ward g \<in> H \<Longrightarrow> reach db_of content H w0 w'"
  unfolding commission_def
  by (elim do_elims; clarsimp?; (erule build_venue_reach plan_reach read_built_reach | simp)+)

lemma commission_same: "commission api g w = (c, g', w') \<Longrightarrow> same_books g g'"
  by (auto simp: commission_def Let_def build_venue_same split: prod.splits if_splits option.splits)

lemma post_rows_reach:
  "post_rows api fuel g is w = Some (e, g', w') \<Longrightarrow> reach db_of content H w0 w \<Longrightarrow> g_ward g \<in> H \<Longrightarrow> reach db_of content H w0 w'"
proof (induction "is" arbitrary: g w)
  case (Cons i "is")
  note IH = Cons.IH
  show ?case using Cons.prems(1)[unfolded post_rows.simps] Cons.prems(2,3)
    by (elim do_elims) (clarsimp, (erule IH reach_rules | simp)+)+
qed simp

lemma post_rows_same: "post_rows api fuel g is w = Some (e, g', w') \<Longrightarrow> same_books g g'"
proof (induction "is" arbitrary: g w)
  case (Cons i "is")
  have same: "same_books g (g\<lparr>g_rng := r\<rparr>)" for r by (simp add: same_books_def balance_def)
  note IH = same_books_trans[OF same Cons.IH]
  show ?case using Cons.prems[unfolded post_rows.simps]
    by (elim do_elims) (auto intro: same elim: IH)
qed simp

lemma post_board_reach:
  "post_board api fuel g w = Some (e, g', w') \<Longrightarrow> reach db_of content H w0 w \<Longrightarrow> g_ward g \<in> H \<Longrightarrow> reach db_of content H w0 w'"
  unfolding post_board_def by (elim do_elims; clarsimp?; (erule post_rows_reach reach_rules | simp)+)

lemma post_board_same: "post_board api fuel g w = Some (e, g', w') \<Longrightarrow> same_books g g'"
  unfolding post_board_def by (elim do_elims) (auto dest: post_rows_same)

lemma choose_contract_reach:
  "choose_contract api g s w = (c, w') \<Longrightarrow> reach db_of content H w0 w \<Longrightarrow> g_ward g \<in> H \<Longrightarrow> reach db_of content H w0 w'"
  unfolding choose_contract_def
  by (elim do_elims; clarsimp?; (erule reach_rules | simp)+)

lemma group_join_ok:
  assumes "group_join api grp h w = (0, grp', w')" "db_of w h \<noteq> None"
  shows "touches db_of content {} w w'"
proof (cases "h \<in> set (grp_dbs grp)")
  case False
  then obtain w1 where j: "weft_txn_join api h (grp_txn grp) w = (True, w1)" and r: "run api h [Begin_Stmt] w1 = (0, w')"
    using assms(1) by (auto simp: group_join_def split: prod.splits if_splits)
  obtain f where f: "db_of w1 h = Some f" using assms(2) join_frame[OF j] by auto
  have "content w' f = content w1 f" using run_ok[OF r f] by simp
  moreover have "touches db_of content {h} w1 w'" using run_touches[OF r] f by simp
  ultimately show ?thesis using join_frame[OF j] f by (force simp: touches_def)
qed (use assms in \<open>simp add: group_join_def\<close>)

lemma commit_all_ok:
  "commit_all api hs w = (0, w') \<Longrightarrow> (\<And>h. h \<in> set hs \<Longrightarrow> db_of w h \<noteq> None) \<Longrightarrow> touches db_of content {} w w'"
proof (induction hs arbitrary: w)
  case (Cons h hs)
  then obtain w1 where r: "run api h [Commit_Stmt] w = (0, w1)" and c: "commit_all api hs w1 = (0, w')"
    by (auto split: prod.splits if_splits)
  obtain f where f: "db_of w h = Some f" using Cons.prems(2) by force
  have "content w1 f = content w f" using run_ok[OF r f] by simp
  moreover have "touches db_of content {h} w w1" using run_touches[OF r] f by simp
  ultimately have t: "touches db_of content {} w w1" using f by (force simp: touches_def)
  then have "touches db_of content {} w1 w'" using Cons.IH[OF c] Cons.prems(2) touches_db_of[OF t] by simp
  with t show ?case by (rule touches_join)
qed simp

lemma group_commit_ok:
  assumes "group_commit api grp w = (0, w')" "\<And>h. h \<in> set (grp_dbs grp) \<Longrightarrow> db_of w h \<noteq> None"
  shows "touches db_of content {} w w'"
proof -
  obtain w1 where "commit_all api (grp_dbs grp) w = (0, w1)" "weft_txn_commit api (grp_txn grp) w1 = (True, w')"
    using assms(1) by (auto simp: group_commit_def split: prod.splits if_splits)
  with commit_all_ok[OF _ assms(2)] commit_frame show ?thesis by (auto simp: touches_def)
qed


lemma books_reach:
  "reach db_of content {g_ward g} w w' \<Longrightarrow> books db_of content n w g \<Longrightarrow> same_books g g' \<Longrightarrow> books db_of content n w' g'"
  using books_frame by (fastforce simp: reach_def)

lemma books_start: "books db_of content n w g \<Longrightarrow> reach db_of content {g_ward g} w w"
  by (rule reach_start) (auto simp: books_def dest: linked_ward)

lemma books_quiet: "touches db_of content {} w w' \<Longrightarrow> books db_of content n w g \<Longrightarrow> books db_of content n w' g"
  by (rule books_frame[where w = w]) (auto intro: touches_mono)

lemma books_open: "books db_of content n w g \<Longrightarrow> k < length (g_sparks g) \<Longrightarrow> db_of w (s_db (g_sparks g ! k)) \<noteq> None"
  by (simp add: books_def linked_spark)

lemma run_books: "run api (g_ward g) ss w = (e, w') \<Longrightarrow> books db_of content n w g \<Longrightarrow> books db_of content n w' g"
  and scalar_books: "scalar api (g_ward g) q w = (v, w') \<Longrightarrow> books db_of content n w g \<Longrightarrow> books db_of content n w' g"
  and scalar64_books: "scalar64 api (g_ward g) q w = (v, w') \<Longrightarrow> books db_of content n w g \<Longrightarrow> books db_of content n w' g"
  and built_books: "built api g i w = (b, w') \<Longrightarrow> books db_of content n w g \<Longrightarrow> books db_of content n w' g"
  and choose_contract_books: "choose_contract api g s w = (c, w') \<Longrightarrow> books db_of content n w g \<Longrightarrow> books db_of content n w' g"
  and build_venue_books: "build_venue api g i w = (e, g', w') \<Longrightarrow> books db_of content n w g \<Longrightarrow> books db_of content n w' g'"
  and commission_books: "commission api g w = (e, g', w') \<Longrightarrow> books db_of content n w g \<Longrightarrow> books db_of content n w' g'"
  and post_board_books: "post_board api fuel g w = Some (e, g', w') \<Longrightarrow> books db_of content n w g \<Longrightarrow> books db_of content n w' g'"
  by (rule books_reach, (erule reach_rules choose_contract_reach build_venue_reach commission_reach post_board_reach, erule books_start, simp),
      assumption, (erule build_venue_same commission_same post_board_same | simp))+

lemma run_spark_books:
  assumes r: "run api (s_db (g_sparks g ! k)) ss w = (0, w')" and b: "books db_of content n w g"
    and k: "k < length (g_sparks g)" and ss: "Rollback_Stmt \<notin> set ss"
    and step: "\<And>d d'. keeps_row d (g_sparks g ! k) \<Longrightarrow> apply_stmts ss d = Some d' \<Longrightarrow> keeps_row d' s' \<and> held_of d' = held_of d + m"
    and s': "s_db s' = s_db (g_sparks g ! k)"
    and g': "g_ward g' = g_ward g" "g_sparks g' = (g_sparks g)[k := s']" "g_found g' = g_found g"
    and bal: "balance g' + s_purse s' = balance g + s_purse (g_sparks g ! k)"
  shows "books db_of content (n - m) w' g'"
proof (rule books_update[OF b k _ s' _ _ g' bal])
  obtain f where f: "db_of w (s_db (g_sparks g ! k)) = Some f" using books_open[OF b k] by blast
  have t: "touches db_of content {s_db (g_sparks g ! k)} w w'" using run_touches[OF r] f by simp
  then show "touches db_of content {g_ward g, s_db (g_sparks g ! k)} w w'" by (rule touches_mono) simp
  have d: "spark_db db_of content w (g_sparks g ! k) = content w f" "spark_db db_of content w' s' = content w' f"
    using f s' touches_db_of[OF t] by (simp_all add: spark_db_def)
  have "keeps_row (content w f) (g_sparks g ! k)" using b nth_mem[OF k] d(1) by (metis books_def)
  from step[OF this run_ok[OF r f ss]]
  show "keeps_row (spark_db db_of content w' s') s'"
    "held_of (spark_db db_of content w' s') = held_of (spark_db db_of content w (g_sparks g ! k)) + m"
    by (simp_all add: d)
qed


lemma group_join_books:
  "group_join api grp (s_db s) w = (0, grp', w') \<Longrightarrow> books db_of content n w g \<Longrightarrow> s \<in> set (g_sparks g)
    \<Longrightarrow> books db_of content n w' g"
  by (rule books_quiet[OF group_join_ok]) (auto simp: in_set_conv_nth dest: books_open)

lemma pay_books:
  assumes p: "pay api g grp k amount item w = (0, g', grp', w')" and b: "books db_of content n w g"
    and k: "k < length (g_sparks g)"
  shows "books db_of content (n - (if item = None then 0 else 1)) w' g'"
proof -
  let ?s = "g_sparks g ! k"
  let ?g = "g\<lparr>g_treasury := g_treasury g - amount, g_sparks := (g_sparks g)[k := ?s\<lparr>s_purse := s_purse ?s + amount\<rparr>]\<rparr>"
  obtain w1 w2 w3 where j: "group_join api grp (s_db ?s) w = (0, grp', w1)"
    and l: "run api (g_ward g) [Insert_Ledger (g_cycle g) ''wages'' (- amount) (s_id ?s)] w1 = (0, w2)"
    and u: "run api (s_db ?s) [Update_Spark_Purse amount (s_id ?s)] w2 = (0, w3)"
    and h: "(case item of None \<Rightarrow> (0, w3) | Some (name, kind) \<Rightarrow> run api (s_db ?s) [Insert_Held name kind (g_cycle g)] w3) = (0, w')"
    and g': "g' = ?g"
    using p unfolding pay_def by (elim do_elims) auto
  have "books db_of content n w2 g" using group_join_books[OF j b] k run_books[OF l] by simp
  then have "books db_of content (n - 0) w3 ?g"
    by (rule run_spark_books[OF u _ k]) (use keeps_purse k in \<open>auto simp: balance_def\<close>)
  then have b3: "books db_of content n w3 ?g" by simp
  show ?thesis
  proof (cases item)
    case None
    then show ?thesis using h b3 g' by simp
  next
    case (Some nk)
    obtain name kind where nk: "nk = (name, kind)" by fastforce
    have "run api (s_db (g_sparks ?g ! k)) [Insert_Held name kind (g_cycle g)] w3 = (0, w')" using h Some nk k by simp
    from run_spark_books[OF this b3, of "g_sparks ?g ! k" 1 ?g] keeps_held k
    show ?thesis using Some g' by simp
  qed
qed

lemma group_join_members: "group_join api grp h w = (e, grp', w') \<Longrightarrow> set (grp_dbs grp') \<subseteq> insert h (set (grp_dbs grp))"
  unfolding group_join_def by (elim do_elims) auto

lemma pay_shape:
  "pay api g grp k amount item w = (e, g', grp', w')
    \<Longrightarrow> fixed g' = fixed g \<and> set (grp_dbs grp') \<subseteq> insert (s_db (g_sparks g ! k)) (set (grp_dbs grp))"
  unfolding pay_def by (elim do_elims) (auto simp: fixed_pay fixed_update dest: group_join_members)

lemma take_salvage_books:
  assumes "take_salvage api g k won payout w = (e, item, g', w')" "books db_of content 0 w g"
  shows "books db_of content (if item = None then 0 else 1) w' g' \<and> g_sparks g' = g_sparks g"
proof (cases won)
  case True
  then obtain ss where g': "g' = earn g payout" "item \<noteq> None" and r: "run api (g_ward g') ss w = (e, w')"
    using assms(1) unfolding take_salvage_def by (elim do_elims) auto
  have "books db_of content (0 + 1) w g'" unfolding g' using assms(2) by (rule books_earn)
  then show ?thesis using run_books[OF r] g'(2) by (auto simp: g'(1) earn_def)
qed (use assms in \<open>simp add: take_salvage_def\<close>)

lemma wear_frame_books:
  assumes "wear_frame api g k i won w = (e, g', w')" "books db_of content n w g" "k < length (g_sparks g)"
  shows "books db_of content n w' g' \<and> length (g_sparks g') = length (g_sparks g)"
proof -
  obtain den w1 where b: "built api g 1 w = (den, w1)"
    and g': "g' = g\<lparr>g_sparks := (g_sparks g)[k := (g_sparks g ! k)\<lparr>s_wear := worn won den (s_wear (g_sparks g ! k))\<rparr>]\<rparr>"
    and r: "run api (g_ward g') [Update_Board_Outcome (if won then ''kept'' else ''lost'') i] w1 = (e, w')"
    using assms(1) unfolding wear_frame_def by (elim do_elims) auto
  have "books db_of content n w1 g'"
    unfolding g' by (rule books_memory[OF built_books[OF b assms(2)] assms(3)]) simp_all
  then show ?thesis using run_books[OF r] g' by simp
qed

lemma pay_wage_books:
  assumes "pay_wage api g grp k won payout item w = (0, g', grp', w')"
    "books db_of content (if item = None then 0 else 1) w g" "k < length (g_sparks g)"
  shows "books db_of content 0 w' g' \<and> length (g_sparks g') = length (g_sparks g)"
proof -
  from assms(1) show ?thesis
  proof (cases rule: pay_wage_cases)
    case paid
    then show ?thesis
      using pay_books[OF paid(1) assms(2,3)] handles_length[OF fixed_handles[OF pay_shape[OF paid(1), THEN conjunct1]]] by simp
  next
    case kept
    then show ?thesis using books_less[OF assms(2), of 0] by simp
  qed
qed

lemma stand_at_books:
  assumes "stand_at api g grp k i w = (0, g', grp', w')" "books db_of content n w g" "k < length (g_sparks g)"
  shows "books db_of content n w' g' \<and> length (g_sparks g') = length (g_sparks g)"
proof -
  obtain x y z w1 w2 w3 w4 where q: "scalar64 api (g_ward g) (Q_Board_X i) w = (x, w1)"
      "scalar64 api (g_ward g) (Q_Board_Y i) w1 = (y, w2)" "scalar64 api (g_ward g) (Q_Board_Z i) w2 = (z, w3)"
    and g': "g' = g\<lparr>g_sparks := (g_sparks g)[k := (g_sparks g ! k)\<lparr>s_at := \<lparr>px = x, py = y, pz = z\<rparr>\<rparr>]\<rparr>"
    and j: "group_join api grp (s_db (g_sparks g' ! k)) w3 = (0, grp', w4)"
    and r: "run api (s_db (g_sparks g' ! k)) [Update_Spark_Move (s_wear (g_sparks g ! k)) (g_cycle g)
              \<lparr>px = x, py = y, pz = z\<rparr> (s_id (g_sparks g ! k))] w4 = (0, w')"
    using assms(1,3) unfolding stand_at_def by (elim do_elims) auto
  have "books db_of content n w3 g" using scalar64_books[OF q(3) scalar64_books[OF q(2) scalar64_books[OF q(1) assms(2)]]] .
  then have "books db_of content n w3 g'" unfolding g' by (rule books_memory[OF _ assms(3)]) simp_all
  moreover have k': "k < length (g_sparks g')" using assms(3) g' by simp
  ultimately have b4: "books db_of content n w4 g'" by (rule group_join_books[OF j _ nth_mem])
  have "books db_of content (n - 0) w' g'"
    by (rule run_spark_books[where s' = "g_sparks g' ! k", OF r b4 k']) (simp, erule (1) keeps_move, simp_all)
  then show ?thesis using g' by simp
qed

lemma work_books:
  assumes "work api fuel g grp k w = Some (0, g', grp', w')" and b: "books db_of content 0 w g"
    and k: "k < length (g_sparks g)"
  shows "books db_of content 0 w' g' \<and> length (g_sparks g') = length (g_sparks g)"
proof -
  from assms(1) show ?thesis
  proof (cases rule: work_cases)
    case idle
    then show ?thesis using choose_contract_books b by blast
  next
    case (busy i payout risk r won item w1 w2 w3 w4 w5 w6 g1 g2 g3 grp3)
    have "books db_of content 0 w3 g"
      using scalar_books[OF busy(4) scalar_books[OF busy(3) choose_contract_books[OF busy(1) b]]] .
    then have "books db_of content 0 w3 (g\<lparr>g_rng := r\<rparr>)"
      by (rule books_same) (simp add: same_books_def balance_def)
    from take_salvage_books[OF busy(5) this] k
    have "books db_of content (if item = None then 0 else 1) w4 g1" "g_sparks g1 = g_sparks g" by simp_all
    moreover from this k have b2: "books db_of content (if item = None then 0 else 1) w5 g2" "length (g_sparks g2) = length (g_sparks g)"
      using wear_frame_books[OF busy(6)] by auto
    moreover from this k have "books db_of content 0 w6 g3" "length (g_sparks g3) = length (g_sparks g)"
      using pay_wage_books[OF busy(7)] by auto
    ultimately show ?thesis using stand_at_books[OF busy(8)] k by metis
  qed
qed

lemma work_all_books:
  "work_all api fuel g grp ks w = Some (0, g', grp', w') \<Longrightarrow> books db_of content 0 w g
    \<Longrightarrow> (\<And>k. k \<in> set ks \<Longrightarrow> k < length (g_sparks g))
    \<Longrightarrow> books db_of content 0 w' g' \<and> length (g_sparks g') = length (g_sparks g)"
proof (induction ks arbitrary: g grp w)
  case (Cons k ks)
  then obtain g1 grp1 w1 where s: "work api fuel g grp k w = Some (0, g1, grp1, w1)"
    and r: "work_all api fuel g1 grp1 ks w1 = Some (0, g', grp', w')"
    by (auto elim!: do_elims)
  have "books db_of content 0 w1 g1 \<and> length (g_sparks g1) = length (g_sparks g)"
    using work_books[OF s Cons.prems(2)] Cons.prems(3) by simp
  with Cons.IH[OF r] Cons.prems(3) show ?case by simp
qed simp

lemma group_begin_books:
  assumes "group_begin api (g_ward g) w = (0, grp, w')" "books db_of content n w g"
  shows "books db_of content n w' g"
proof -
  obtain tx w1 where b: "weft_txn_begin api w = (Some tx, w1)"
    and j: "group_join api \<lparr>grp_txn = tx, grp_dbs = []\<rparr> (g_ward g) w1 = (0, grp, w')"
    using assms(1) unfolding group_begin_def by (elim do_elims) auto
  have t: "touches db_of content {} w w1" using begin_frame[OF b] by (simp add: touches_def)
  then have b1: "books db_of content n w1 g" using books_quiet assms(2) by blast
  then have "db_of w1 (g_ward g) \<noteq> None" by (simp add: books_def linked_ward)
  then show ?thesis using books_quiet[OF group_join_ok[OF j] b1] by simp
qed

lemma debt_clock_same: "debt_clock g = (g', paid) \<Longrightarrow> same_books g g'"
  by (auto simp: debt_clock_def same_books_def balance_def Let_def split: if_splits)

lemma cycle_body_books:
  assumes "cycle_body api fuel g grp w = Some (0, arriving, g', grp', w')" and b: "books db_of content 0 w g"
  shows "books db_of content 0 w' g'"
  using assms(1)
proof (cases rule: cycle_body_cases)
  case s: (1 c g1 w1 g2 w2 g3 w3 paid w4 b5 w5)
  have "books db_of content 0 w2 g2" using post_board_books[OF s(2) commission_books[OF s(1) b]] .
  then have "books db_of content 0 w3 g3" using work_all_books[OF s(3)] by simp
  then have "books db_of content 0 w3 g'" using debt_clock_same[OF s(4)] by (rule books_same)
  then have "books db_of content 0 w4 g'" using s(5) run_books by (auto split: if_splits)
  then show ?thesis using run_books[OF s(7) built_books[OF s(6)]] by simp
qed

section \<open>What a cycle touches\<close>

lemma group_join_reach:
  "group_join api grp h w = (e, grp', w') \<Longrightarrow> reach db_of content H w0 w \<Longrightarrow> h \<in> H \<Longrightarrow> reach db_of content H w0 w'"
proof -
  have j: "reach db_of content H w0 w2" if "weft_txn_join api h tx w1 = (ok, w2)" "reach db_of content H w0 w1" for tx w1 ok w2
    using that(2) by (rule reach_step[rotated]) (use join_frame[OF that(1)] in \<open>auto simp: touches_def\<close>)
  assume "group_join api grp h w = (e, grp', w')" "reach db_of content H w0 w" "h \<in> H"
  then show ?thesis unfolding group_join_def by (elim do_elims) (clarsimp?, (erule run_reach j | simp)+)+
qed

lemma pay_reach:
  "pay api g grp k amount item w = (e, g', grp', w') \<Longrightarrow> reach db_of content H w0 w \<Longrightarrow> g_ward g \<in> H
    \<Longrightarrow> s_db (g_sparks g ! k) \<in> H \<Longrightarrow> reach db_of content H w0 w'"
  unfolding pay_def by (elim do_elims; clarsimp?; (erule run_reach group_join_reach | simp)+)

lemma take_salvage_reach:
  assumes "take_salvage api g k won payout w = (e, item, g', w')" "reach db_of content H w0 w" "set (handles g) \<subseteq> H"
  shows "reach db_of content H w0 w' \<and> fixed g' = fixed g"
proof -
  have "g_ward (earn g payout) \<in> H" using assms(3) handles_ward[of "earn g payout"] by auto
  then show ?thesis using assms(1,2) unfolding take_salvage_def
    by (elim do_elims) (auto elim: run_reach)
qed

lemma wear_frame_reach:
  assumes "wear_frame api g k i won w = (e, g', w')" "reach db_of content H w0 w" "set (handles g) \<subseteq> H"
  shows "reach db_of content H w0 w' \<and> fixed g' = fixed g"
proof -
  have "g_ward g \<in> H" using assms(3) handles_ward by auto
  then show ?thesis using assms(1,2) unfolding wear_frame_def
    by (elim do_elims) (clarsimp simp: fixed_update, (erule run_reach built_reach | simp)+)
qed

lemma pay_wage_reach:
  assumes "pay_wage api g grp k won payout item w = (e, g', grp', w')" "reach db_of content H w0 w"
    "set (handles g) \<subseteq> H" "k < length (g_sparks g)"
  shows "reach db_of content H w0 w' \<and> fixed g' = fixed g
    \<and> set (grp_dbs grp') \<subseteq> insert (s_db (g_sparks g ! k)) (set (grp_dbs grp))"
  using assms(1)
proof (cases rule: pay_wage_cases)
  case paid
  have "g_ward g \<in> H" "s_db (g_sparks g ! k) \<in> H" using assms(3,4) handles_ward handles_spark by auto
  then show ?thesis using pay_reach[OF paid(1) assms(2)] pay_shape[OF paid(1)] by simp
qed (use assms(2) in auto)

lemma stand_at_reach:
  assumes "stand_at api g grp k i w = (e, g', grp', w')" "reach db_of content H w0 w"
    "set (handles g) \<subseteq> H" "k < length (g_sparks g)"
  shows "reach db_of content H w0 w'" "fixed g' = fixed g"
    "set (grp_dbs grp') \<subseteq> insert (s_db (g_sparks g ! k)) (set (grp_dbs grp))"
proof -
  have h: "g_ward g \<in> H" "s_db (g_sparks g ! k) \<in> H" using assms(3,4) handles_ward handles_spark by auto
  show "reach db_of content H w0 w'" using assms(1,2) h unfolding stand_at_def
    by (elim do_elims) (clarsimp, (erule run_reach scalar64_reach group_join_reach | simp)+)+
  show "fixed g' = fixed g" "set (grp_dbs grp') \<subseteq> insert (s_db (g_sparks g ! k)) (set (grp_dbs grp))"
    using assms(1) unfolding stand_at_def
    by (elim do_elims; auto simp: fixed_update dest: group_join_members)+
qed

lemma work_reach:
  assumes "work api fuel g grp k w = Some (0, g', grp', w')" "reach db_of content H w0 w"
    "set (handles g) \<subseteq> H" "k < length (g_sparks g)"
  shows "reach db_of content H w0 w' \<and> fixed g' = fixed g
    \<and> set (grp_dbs grp') \<subseteq> insert (s_db (g_sparks g ! k)) (set (grp_dbs grp))"
proof -
  have ward: "g_ward g \<in> H" using assms(3) handles_ward by auto
  have at_k: "s_db (g_sparks g1 ! k) = s_db (g_sparks g ! k) \<and> k < length (g_sparks g1)" if "fixed g1 = fixed g" for g1
    using assms(4) fixed_handles[OF that] handles_length[OF fixed_handles[OF that]] unfolding handles_def by (metis list.inject nth_map)
  from assms(1) show ?thesis
  proof (cases rule: work_cases)
    case (idle i)
    then show ?thesis using choose_contract_reach[OF idle(1) assms(2) ward] by auto
  next
    case (busy i payout risk r won item w1 w2 w3 w4 w5 w6 g1 g2 g3 grp3)
    have "reach db_of content H w0 w3"
      using scalar_reach[OF busy(4) scalar_reach[OF busy(3) choose_contract_reach[OF busy(1) assms(2) ward] ward] ward] .
    then have 1: "reach db_of content H w0 w4" "fixed g1 = fixed g"
      using take_salvage_reach[OF busy(5), of H w0] assms(3) by simp_all
    then have 2: "reach db_of content H w0 w5" "fixed g2 = fixed g"
      using wear_frame_reach[OF busy(6), of H w0] assms(3) fixed_handles[OF 1(2)] by simp_all
    then have 3: "reach db_of content H w0 w6" "fixed g3 = fixed g"
      "set (grp_dbs grp3) \<subseteq> insert (s_db (g_sparks g ! k)) (set (grp_dbs grp))"
      using pay_wage_reach[OF busy(7), of H w0] assms(3) at_k[of g2] fixed_handles[OF 2(2)] by simp_all
    show ?thesis using stand_at_reach[OF busy(8) 3(1)] assms(3) 3(2,3) at_k[of g3] fixed_handles[OF 3(2)] by auto
  qed
qed

lemma work_all_reach:
  "work_all api fuel g grp ks w = Some (0, g', grp', w') \<Longrightarrow> reach db_of content H w0 w
    \<Longrightarrow> set (handles g) \<subseteq> H \<Longrightarrow> (\<And>k. k \<in> set ks \<Longrightarrow> k < length (g_sparks g))
    \<Longrightarrow> reach db_of content H w0 w' \<and> fixed g' = fixed g \<and> set (grp_dbs grp') \<subseteq> set (handles g) \<union> set (grp_dbs grp)"
proof (induction ks arbitrary: g grp w)
  case (Cons k ks)
  then obtain g1 grp1 w1 where s: "work api fuel g grp k w = Some (0, g1, grp1, w1)"
    and r: "work_all api fuel g1 grp1 ks w1 = Some (0, g', grp', w')"
    by (auto elim!: do_elims)
  have k: "k < length (g_sparks g)" using Cons.prems(4) by simp
  have w1: "reach db_of content H w0 w1" "fixed g1 = fixed g"
      "set (grp_dbs grp1) \<subseteq> insert (s_db (g_sparks g ! k)) (set (grp_dbs grp))"
    using work_reach[OF s Cons.prems(2,3) k] by auto
  have "reach db_of content H w0 w' \<and> fixed g' = fixed g1 \<and> set (grp_dbs grp') \<subseteq> set (handles g1) \<union> set (grp_dbs grp1)"
    by (rule Cons.IH[OF r w1(1)]) (use Cons.prems(3,4) fixed_handles[OF w1(2)] handles_length[OF fixed_handles[OF w1(2)]] in auto)
  then show ?case using w1 fixed_handles[OF w1(2)] handles_spark[OF k] by auto
qed simp

end

end
