(* ===== verification/Ward_Cycle.thy ===== *)
theory Ward_Cycle
  imports Ward_Books
begin

text \<open>
  A whole cycle and the operations around it: a cycle that succeeds keeps the books and touches no
  other ward's databases, founding a ward establishes them, a payment keeps them, and on kept books
  \<open>honest\<close> answers yes.
\<close>

section \<open>A Spark more\<close>

lemma books_elsewhere:
  assumes b: "books db_of content n w g"
    and same: "\<And>h. h \<in> set (handles g) \<Longrightarrow> db_of w' h = db_of w h \<and> content w' (the (db_of w h)) = content w (the (db_of w h))"
  shows "books db_of content n w' g"
proof -
  have ward: "db_of w' (g_ward g) = db_of w (g_ward g)"
    using same [of "g_ward g"] by (simp add: handles_def)
  have dbs: "db_of w' (s_db s) = db_of w (s_db s)" if "s \<in> set (g_sparks g)" for s
    using same [of "s_db s"] that by (simp add: handles_def)
  have sdb: "spark_db db_of content w' s = spark_db db_of content w s" if "s \<in> set (g_sparks g)" for s
    using same [of "s_db s"] dbs [OF that] that by (simp add: handles_def spark_db_def)
  have "map (db_of w') (g_ward g # map s_db (g_sparks g)) = map (db_of w) (g_ward g # map s_db (g_sparks g))"
    using ward dbs by simp
  then have "linked db_of w' g = linked db_of w g" by (simp only: linked_def)
  moreover have "held_sum db_of content w' g = held_sum db_of content w g"
    unfolding held_sum_def by (intro arg_cong [of _ _ sum_list] map_cong refl) (simp only: sdb)
  ultimately show ?thesis using b sdb by (simp add: books_def)
qed

lemma books_append:
  assumes b: "books db_of content n w g" and f: "db_of w (s_db s) = Some f"
    and new: "\<And>h. h \<in> set (handles g) \<Longrightarrow> db_of w h \<noteq> Some f"
    and row: "keeps_row (content w f) s" "s_purse s = 0" "held_of (content w f) = 0"
  shows "books db_of content n w (g\<lparr>g_sparks := g_sparks g @ [s]\<rparr>)"
proof -
  have "Some f \<notin> db_of w ` set (handles g)" using new by (metis imageE)
  then show ?thesis using b row f
    by (auto simp: handles_def books_def linked_def Let_def balance_def purse_sum_def held_sum_def spark_db_def)
qed

definition next_arrival :: "gyre \<Rightarrow> string" where
  "next_arrival g = spark_db_name (g_prefix g) (g_ward_no g * SPARKS_PER_WARD + nsparks g)"

lemma new_spark_row:
  assumes "apply_stmts [Drop_If_Exists Spark_T, Drop_If_Exists Held_T] d = Some d1"
    "apply_stmts [Create_Table Spark_T, Create_Table Held_T] d1 = Some d2"
    "apply_stmts [Insert_Spark i p wire owner] d2 = Some d3"
  shows "keeps_row d3 \<lparr>s_db = h, s_id = i, s_purse = 0, s_wear = 0, s_at = p\<rparr> \<and> held_of d3 = 0"
proof -
  have "d2 = d\<lparr>tb_spark := Some [], tb_held := Some []\<rparr>"
    using assms(1,2) by (auto simp: drop_table_def create_table_def split: if_splits)
  then show ?thesis using assms(3) by (auto simp: keeps_row_def held_of_def)
qed

context sql_engine
begin

lemma open_db_ok:
  assumes "open_db api name w = (h, w')" "h \<noteq> 0"
  shows "db_of w h = None \<and> db_of w' = (db_of w)(h \<mapsto> name) \<and> content w' = content w"
proof -
  obtain w1 w2 where o: "sqlite3_open_v2 api name w = (Some h, w1)"
    and r: "run api h [Pragma_Journal_Memory] w1 = (0, w2)" "run api h [Pragma_Locking_Exclusive] w2 = (0, w')"
    using assms unfolding open_db_def by (elim do_elims) auto
  have 1: "db_of w h = None" "db_of w1 = (db_of w)(h \<mapsto> name)" "content w1 = content w" using open_ok[OF o] by auto
  have h1: "db_of w1 h = Some name" using 1 by simp
  have 2: "db_of w2 = db_of w1" "content w2 = content w1"
    using run_touches[OF r(1)] run_ok[OF r(1) h1] h1 by (auto simp: touches_def fun_eq_iff) metis
  have 3: "db_of w' = db_of w2" "content w' = content w2"
    using run_touches[OF r(2)] run_ok[OF r(2)] h1 2 by (auto simp: touches_def fun_eq_iff) metis
  show ?thesis using 1 2 3 by simp
qed

lemma join_ward_books:
  assumes "join_ward api g i w = Some (0, g', w')" and b: "books db_of content n w g"
    and new: "\<And>h. h \<in> set (handles g) \<Longrightarrow> db_of w h \<noteq> Some (spark_db_name (g_prefix g) i)"
  shows "books db_of content n w' g'"
proof -
  let ?f = "spark_db_name (g_prefix g) i"
  obtain h w1 w2 w3 wire where o: "open_db api ?f w = (h, w1)" "h \<noteq> 0"
    and r: "run api h [Drop_If_Exists Spark_T, Drop_If_Exists Held_T] w1 = (0, w2)"
      "run api h [Create_Table Spark_T, Create_Table Held_T] w2 = (0, w3)"
      "run api h [Insert_Spark i (spark_home i) wire (class_owner CLASS_SPARK (g_ward_no g))] w3 = (0, w')"
    and g': "g' = g\<lparr>g_sparks := g_sparks g @ [\<lparr>s_db = h, s_id = i, s_purse = 0, s_wear = 0, s_at = spark_home i\<rparr>]\<rparr>"
    using assms(1) unfolding join_ward_def by (elim do_elims) auto
  have w1: "db_of w h = None" "db_of w1 = (db_of w)(h \<mapsto> ?f)" "content w1 = content w"
    using open_db_ok[OF o] by auto
  have "reach db_of content {h} w1 w1" using w1 by (intro reach_start) auto
  then have "reach db_of content {h} w1 w'"
    using run_reach[OF r(3) run_reach[OF r(2) run_reach[OF r(1)]]] by simp
  then have t: "db_of w' = db_of w1" "\<And>f. f \<noteq> ?f \<Longrightarrow> content w' f = content w f"
    using w1 by (auto simp: reach_def touches_def)
  have dbs: "db_of w1 = db_of w2" "db_of w2 = db_of w3"
    using run_touches[OF r(1)] run_touches[OF r(2)] w1 by (auto simp: touches_def)
  have row: "keeps_row (content w' ?f) \<lparr>s_db = h, s_id = i, s_purse = 0, s_wear = 0, s_at = spark_home i\<rparr>"
    "held_of (content w' ?f) = 0"
    using new_spark_row[OF run_ok[OF r(1), of ?f] run_ok[OF r(2), of ?f] run_ok[OF r(3), of ?f]] w1 dbs by auto
  have apart: "h \<notin> set (handles g)" using books_handles[OF b] w1(1) by blast
  have "books db_of content n w' g"
  proof (rule books_elsewhere[OF b])
    fix k assume k: "k \<in> set (handles g)"
    then obtain f where "db_of w k = Some f" "f \<noteq> ?f" using books_handles[OF b k] new[OF k] by auto
    then show "db_of w' k = db_of w k \<and> content w' (the (db_of w k)) = content w (the (db_of w k))"
      using t w1 by auto
  qed
  then show ?thesis unfolding g'
    by (rule books_append[where f = ?f]) (use row t w1 new apart in auto)
qed

lemma cycle_cases:
  assumes "cycle api fuel g w = Some (0, g', w')"
  obtains grp w1 arriving g2 grp2 w2 w3 where
    "group_begin api (g_ward g) w = (0, grp, w1)"
    "cycle_body api fuel (g\<lparr>g_cycle := g_cycle g + 1\<rparr>) grp w1 = Some (0, arriving, g2, grp2, w2)"
    "group_commit api grp2 w2 = (0, w3)"
    "if arriving then join_ward api g2 (g_ward_no g2 * SPARKS_PER_WARD + nsparks g2) w3 = Some (0, g', w')
     else g' = g2 \<and> w' = w3"
  using assms unfolding cycle_def by (elim do_elims) (auto split: if_splits)

lemma cycle_body_reach:
  assumes "cycle_body api fuel g grp w = Some (0, arriving, g', grp', w')" "reach db_of content H w0 w" "set (handles g) \<subseteq> H"
  shows "reach db_of content H w0 w' \<and> fixed g' = fixed g \<and> set (grp_dbs grp') \<subseteq> set (handles g) \<union> set (grp_dbs grp)"
  using assms(1)
proof (cases rule: cycle_body_cases)
  case s: (1 c g1 w1 g2 w2 g3 w3 paid w4 b5 w5)
  have f1: "fixed g1 = fixed g" and f2: "fixed g2 = fixed g"
    using same_books_fixed[OF commission_same[OF s(1)]] same_books_fixed[OF post_board_same[OF s(2)]] by simp_all
  have ward: "g_ward k \<in> H" if "fixed k = fixed g" for k
    using fixed_handles[OF that] handles_ward[of k] assms(3) by auto
  have "reach db_of content H w0 w2"
    using post_board_reach[OF s(2) commission_reach[OF s(1) assms(2) ward[OF refl]] ward[OF f1]] .
  then have 3: "reach db_of content H w0 w3" "fixed g3 = fixed g" "set (grp_dbs grp') \<subseteq> set (handles g) \<union> set (grp_dbs grp)"
    using work_all_reach[OF s(3)] f2 fixed_handles[OF f2] assms(3) by auto
  have f': "fixed g' = fixed g" using same_books_fixed[OF debt_clock_same[OF s(4)]] 3(2) by simp
  have "reach db_of content H w0 w4" using s(5) run_reach[OF _ 3(1) ward[OF f']] 3(1) by (auto split: if_splits)
  then show ?thesis using run_reach[OF s(7) built_reach[OF s(6)]] ward[OF f'] f' 3(3) by simp
qed

lemma group_begin_reach:
  assumes "group_begin api h w = (0, grp, w')" "reach db_of content H w0 w" "h \<in> H"
  shows "reach db_of content H w0 w' \<and> set (grp_dbs grp) \<subseteq> {h}"
proof -
  obtain tx w1 where b: "weft_txn_begin api w = (Some tx, w1)"
    and j: "group_join api \<lparr>grp_txn = tx, grp_dbs = []\<rparr> h w1 = (0, grp, w')"
    using assms(1) unfolding group_begin_def by (elim do_elims) auto
  have "touches db_of content {} w w1" using begin_frame[OF b] by (simp add: touches_def)
  then have "reach db_of content H w0 w1" using assms(2) by (rule reach_step) simp
  then show ?thesis using group_join_reach[OF j] group_join_members[OF j] assms(3) by simp
qed

text \<open>A cycle up to its commit touches the ward's own databases only, and keeps the books.\<close>

lemma cycle_committed:
  assumes "group_begin api (g_ward g) w = (0, grp, w1)"
    "cycle_body api fuel (g\<lparr>g_cycle := g_cycle g + 1\<rparr>) grp w1 = Some (0, arriving, g2, grp2, w2)"
    "group_commit api grp2 w2 = (0, w3)" and b: "books db_of content 0 w g"
  shows "books db_of content 0 w3 g2" "touches db_of content (set (handles g)) w w3" "fixed g2 = fixed g"
proof -
  have r0: "reach db_of content (set (handles g)) w w" by (rule reach_start) (rule books_handles[OF b])
  have r1: "reach db_of content (set (handles g)) w w1" "set (grp_dbs grp) \<subseteq> {g_ward g}"
    using group_begin_reach[OF assms(1) r0] handles_ward by auto
  have r2: "reach db_of content (set (handles g)) w w2" "fixed g2 = fixed g" "set (grp_dbs grp2) \<subseteq> set (handles g)"
    using cycle_body_reach[OF assms(2) r1(1)] r1(2) handles_ward by (auto simp: handles_def)
  then have t: "touches db_of content {} w2 w3"
    using group_commit_ok[OF assms(3)] reach_db[OF r2(1)] by blast
  show "touches db_of content (set (handles g)) w w3"
    using reach_step[OF t r2(1)] by (simp add: reach_def)
  have "books db_of content 0 w1 (g\<lparr>g_cycle := g_cycle g + 1\<rparr>)"
    using group_begin_books[OF assms(1) b] by (rule books_same) (simp add: same_books_def balance_def)
  then show "books db_of content 0 w3 g2" using books_quiet[OF t] cycle_body_books[OF assms(2)] by blast
  show "fixed g2 = fixed g" by (rule r2(2))
qed

lemma cycle_books:
  assumes "cycle api fuel g w = Some (0, g', w')" and b: "books db_of content 0 w g"
    and new: "\<And>h. h \<in> set (handles g) \<Longrightarrow> db_of w h \<noteq> Some (next_arrival g)"
  shows "books db_of content 0 w' g'"
  using assms(1)
proof (cases rule: cycle_cases)
  case s: (1 grp w1 arriving g2 grp2 w2 w3)
  note c = cycle_committed[OF s(1-3) b]
  have h: "handles g2 = handles g" "db_of w3 = db_of w" "next_arrival g2 = next_arrival g"
    using c(3) touches_db_of[OF c(2)] handles_length[OF fixed_handles[OF c(3)]]
    by (simp_all add: fixed_def next_arrival_def nsparks_def)
  show ?thesis
  proof (cases arriving)
    case True
    then show ?thesis using s(4) join_ward_books[OF _ c(1)] new unfolding next_arrival_def[symmetric] by (simp add: h) (metis h next_arrival_def)
  next
    case False
    then show ?thesis using s(4) c(1) by simp
  qed
qed
end

section \<open>Names of databases\<close>

lemma digits_value_append:
  "(\<And>c. c \<in> set s \<Longrightarrow> is_digit c) \<Longrightarrow> digits_value (s @ [c]) = (if is_digit c then digits_value s * 10 + (int (of_char c) - 48) else digits_value s)"
  by (simp add: digits_value_def takeWhile_eq_all_conv[THEN iffD2])

lemma digit_char: "d < 10 \<Longrightarrow> is_digit (char_of (48 + d)) \<and> int (of_char (char_of (48 + d) :: char)) = 48 + int d" for d :: nat
proof -
  have "\<forall>d \<in> {..<10 :: nat}. is_digit (char_of (48 + d)) \<and> of_char (char_of (48 + d) :: char) = (48 + d)" by code_simp
  then show "d < 10 \<Longrightarrow> ?thesis" by auto
qed

lemma dec_of_value: "digits_value (dec_of v) = int v \<and> (\<forall>c \<in> set (dec_of v). is_digit c)"
proof (induction v rule: dec_of.induct)
  case (1 v)
  show ?case
  proof (cases "v < 10")
    case True
    then show ?thesis using digit_char[OF True] by (simp add: dec_of.simps[of v] digits_value_def)
  next
    case False
    then have "digits_value (dec_of (v div 10)) = int (v div 10)" "\<forall>c \<in> set (dec_of (v div 10)). is_digit c" using 1 by auto
    moreover have "v mod 10 < 10" by simp
    ultimately show ?thesis using digit_char[of "v mod 10"] False
      by (simp add: dec_of.simps[of v] digits_value_append) (simp add: zmod_int zdiv_int)
  qed
qed

lemma dec_of_length: "v < 10 ^ Suc n \<Longrightarrow> length (dec_of v) \<le> Suc n"
proof (induction n arbitrary: v)
  case (Suc n)
  then show ?case by (cases "v < 10") (auto simp: dec_of.simps[of v] less_mult_imp_div_less mult.commute)
qed (simp add: dec_of.simps)

lemma dec_of_inj: "dec_of a = dec_of b \<Longrightarrow> a = b"
  by (metis dec_of_value of_nat_eq_iff)

lemma dec_of_sign: "dec_of v \<noteq> CHR ''-'' # s"
  using dec_of_value[of v] by (auto simp: is_digit_def)

lemma dec_inj: "dec i = dec j \<Longrightarrow> i = j"
  by (cases "i < 0"; cases "j < 0") (auto simp: dec_def dec_of_sign dec_of_sign[symmetric] dest!: dec_of_inj)

lemma dec_length:
  assumes "c_int i"
  shows "length (dec i) \<le> 11"
proof -
  have "nat \<bar>i\<bar> < 10 ^ Suc 9" using assms by (auto simp: c_int_def nat_less_iff abs_if)
  from dec_of_length[OF this] show ?thesis by (auto simp: dec_def abs_if split: if_splits)
qed

lemma spark_db_name_inj:
  assumes "spark_db_name p i = spark_db_name p j" "c_int i" "c_int j" "length p \<le> 63"
  shows "i = j"
proof -
  have "length (p @ ''-spark-'' @ dec k @ ''.db'') \<le> 127" if "c_int k" for k using dec_length[OF that] assms(4) by simp
  then have "p @ ''-spark-'' @ dec i @ ''.db'' = p @ ''-spark-'' @ dec j @ ''.db''"
    using assms by (metis spark_db_name_def take_all)
  then show ?thesis using dec_inj by simp
qed

lemma spark_db_name_not_ward:
  assumes "c_int i" "length p \<le> 63"
  shows "spark_db_name p i \<noteq> ward_db_name p"
proof -
  have "ward_db_name p = p @ ''-ward.db''" "spark_db_name p i = p @ ''-spark-'' @ dec i @ ''.db''"
    using dec_length[OF assms(1)] assms(2) by (simp_all add: spark_db_name_def ward_db_name_def)
  then show ?thesis by simp
qed


lemma member_le_sum_list_int: "(x :: int) \<in> set xs \<Longrightarrow> (\<And>y. y \<in> set xs \<Longrightarrow> 0 \<le> y) \<Longrightarrow> x \<le> sum_list xs"
proof (induction xs)
  case (Cons a xs)
  have "0 \<le> sum_list xs" using Cons.prems(2) by (intro sum_list_nonneg) simp
  moreover have "0 \<le> a" using Cons.prems(2) by simp
  ultimately show ?case using Cons by fastforce
qed simp

lemma pay_alone_refused:
  assumes "pay_alone api g k amount item w = (e, g', w')" "e \<noteq> 0"
  shows "g' = g"
proof -
  have "g' = g" if "pay api g grp k amount item w1 = (e1, g1, grp2, w2)" "e1 = 0"
    "g' = g1\<lparr>g_treasury := g_treasury g1 + amount,
            g_sparks := (g_sparks g1)[k := (g_sparks g1 ! k)\<lparr>s_purse := s_purse (g_sparks g1 ! k) - amount\<rparr>]\<rparr>"
    for grp w1 e1 g1 grp2 w2
  proof -
    have g1: "g1 = g\<lparr>g_treasury := g_treasury g - amount,
        g_sparks := (g_sparks g)[k := (g_sparks g ! k)\<lparr>s_purse := s_purse (g_sparks g ! k) + amount\<rparr>]\<rparr>"
      using that(1,2) unfolding pay_def by (elim do_elims) auto
    show ?thesis unfolding that(3) g1 by (cases "k < length (g_sparks g)") (simp_all add: list_update_beyond)
  qed
  moreover have "g1 = g" if "pay api g grp k amount item w1 = (e1, g1, grp2, w2)" "e1 \<noteq> 0" for grp w1 e1 g1 grp2 w2
    using that unfolding pay_def by (elim do_elims) auto
  ultimately show ?thesis using assms unfolding pay_alone_def by (elim do_elims) auto
qed

context sql_engine
begin

lemma build_venue_memory:
  "build_venue api g i w = (e, g', w') \<Longrightarrow> g_treasury g' + g_spent g' = g_treasury g + g_spent g"
  by (auto simp: build_venue_def Let_def split: prod.splits if_splits)

lemma pay_alone_books:
  assumes "pay_alone api g k amount item w = (0, g', w')" and b: "books db_of content n w g"
    and k: "k < length (g_sparks g)"
  shows "books db_of content (n - (if item = None then 0 else 1)) w' g' \<and> fixed g' = fixed g
    \<and> touches db_of content {g_ward g, s_db (g_sparks g ! k)} w w'"
proof -
  let ?H = "{g_ward g, s_db (g_sparks g ! k)}"
  obtain grp w1 grp2 w2 where s: "group_begin api (g_ward g) w = (0, grp, w1)"
      "pay api g grp k amount item w1 = (0, g', grp2, w2)" "group_commit api grp2 w2 = (0, w')"
    using assms(1) unfolding pay_alone_def by (elim do_elims) auto
  have "reach db_of content ?H w w"
    by (rule reach_start) (use books_handles[OF b] handles_ward handles_spark[OF k] in blast)
  then have 1: "reach db_of content ?H w w1" "set (grp_dbs grp) \<subseteq> {g_ward g}"
    using group_begin_reach[OF s(1)] by auto
  have 2: "reach db_of content ?H w w2" "set (grp_dbs grp2) \<subseteq> ?H" "fixed g' = fixed g"
    using pay_reach[OF s(2) 1(1)] pay_shape[OF s(2)] 1(2) by auto
  then have t: "touches db_of content {} w2 w'"
    using group_commit_ok[OF s(3)] reach_db[OF 2(1)] by blast
  have "books db_of content (n - (if item = None then 0 else 1)) w2 g'"
    by (rule pay_books[OF s(2) group_begin_books[OF s(1) b] k])
  then show ?thesis using books_quiet[OF t] reach_step[OF t 2(1)] 2(3) by (simp add: reach_def)
qed

end

context sql_reader
begin

lemma scalar_value:
  assumes "db_of w h = Some f" "eval_query q (content w f) = Some ([VInt v] # rows)" "c_int v"
  shows "\<exists>w'. scalar api h q w = (v, w') \<and> touches db_of content {} w w'"
proof -
  obtain r w' where r: "sqlite3_rows api h q w = (r, w')" by fastforce
  have "r = Some ([VInt v] # rows)" using rows_all[OF assms(1,2)] r by simp
  then show ?thesis using r rows_frame[OF r assms(1)] column_int_id[OF assms(3)]
    by (simp add: scalar_def touches_def)
qed

lemma sum_scalar_value:
  "(\<And>h. h \<in> set hs \<Longrightarrow> \<exists>f rows. db_of w h = Some f \<and> eval_query q (content w f) = Some ([VInt (v h)] # rows) \<and> c_int (v h))
    \<Longrightarrow> \<exists>w'. sum_scalar api q hs w = (sum_list (map v hs), w') \<and> touches db_of content {} w w'"
proof (induction hs arbitrary: w)
  case (Cons h hs)
  obtain w1 where 1: "scalar api h q w = (v h, w1)" "touches db_of content {} w w1"
    using Cons.prems[of h] scalar_value by force
  then have same: "db_of w1 = db_of w" "content w1 = content w" by (auto simp: touches_def)
  obtain w2 where "sum_scalar api q hs w1 = (sum_list (map v hs), w2)" "touches db_of content {} w1 w2"
    using Cons.IH[of w1] Cons.prems same by force
  with 1 show ?case by (auto intro: touches_join)
qed simp

lemma spark_row:
  assumes "books db_of content n w g" "s \<in> set (g_sparks g)"
  obtains f r hs where "db_of w (s_db s) = Some f" "tb_spark (content w f) = Some [r]" "sr_purse r = s_purse s"
    "tb_held (content w f) = Some hs" "spark_db db_of content w s = content w f"
proof -
  have "s_db s \<in> set (handles g)" using assms(2) by (simp add: handles_def)
  then obtain f where f: "db_of w (s_db s) = Some f" using books_handles[OF assms(1)] by blast
  have "keeps_row (content w f) s" using assms f by (force simp: books_def spark_db_def)
  then obtain r hs where "tb_spark (content w f) = Some [r]" "sr_purse r = s_purse s" "tb_held (content w f) = Some hs"
    by (auto simp: keeps_row_def split: option.splits list.splits)
  then show thesis using that f by (simp add: spark_db_def)
qed

lemma sum_scalar_books:
  assumes b: "books db_of content n w g"
    and v: "\<And>s f. s \<in> set (g_sparks g) \<Longrightarrow> db_of w (s_db s) = Some f
      \<Longrightarrow> \<exists>rows. eval_query q (content w f) = Some ([VInt (v (content w f))] # rows) \<and> c_int (v (content w f))"
  shows "\<exists>w'. sum_scalar api q (map s_db (g_sparks g)) w = (sum_list (map (\<lambda>s. v (spark_db db_of content w s)) (g_sparks g)), w')
    \<and> touches db_of content {} w w'"
proof -
  have "\<exists>f rows. db_of w h = Some f \<and> eval_query q (content w f) = Some ([VInt (v (content w (the (db_of w h))))] # rows)
      \<and> c_int (v (content w (the (db_of w h))))" if h: "h \<in> set (map s_db (g_sparks g))" for h
  proof -
    obtain s where s: "s \<in> set (g_sparks g)" "h = s_db s" using h by auto
    obtain f where "db_of w (s_db s) = Some f" using spark_row[OF b s(1)] by blast
    then show ?thesis using v[OF s(1)] s(2) by auto
  qed
  from sum_scalar_value[of "map s_db (g_sparks g)" w q, OF this] show ?thesis by (simp add: spark_db_def o_def)
qed

lemma purses_books:
  assumes b: "books db_of content n w g" and small: "\<And>s. s \<in> set (g_sparks g) \<Longrightarrow> c_int (s_purse s)"
  shows "\<exists>w'. purses api g w = (purse_sum g, w') \<and> touches db_of content {} w w'"
proof -
  define v where "v d = sr_purse (hd (the (tb_spark d)))" for d :: database
  have s: "v (spark_db db_of content w s) = s_purse s" if "s \<in> set (g_sparks g)" for s
    using spark_row[OF b that] by (metis list.sel(1) option.sel v_def)
  have "\<exists>w'. sum_scalar api Q_Purse (map s_db (g_sparks g)) w = (sum_list (map (\<lambda>s. v (spark_db db_of content w s)) (g_sparks g)), w')
    \<and> touches db_of content {} w w'"
  proof (rule sum_scalar_books[OF b])
    fix s f assume s: "s \<in> set (g_sparks g)" "db_of w (s_db s) = Some f"
    obtain r where "tb_spark (content w f) = Some [r]" "sr_purse r = s_purse s"
      using spark_row[OF b s(1)] s(2) by (metis option.inject)
    then show "\<exists>rows. eval_query Q_Purse (content w f) = Some ([VInt (v (content w f))] # rows) \<and> c_int (v (content w f))"
      using small[OF s(1)] by (simp add: v_def)
  qed
  moreover have "map (\<lambda>s. v (spark_db db_of content w s)) (g_sparks g) = map s_purse (g_sparks g)" using s by simp
  ultimately show ?thesis by (simp add: purses_def purse_sum_def)
qed

lemma items_books:
  assumes b: "books db_of content 0 w g" and small: "g_found g < 2 ^ 31"
  shows "\<exists>w'. sum_scalar api Q_Held_Count (map s_db (g_sparks g)) w = (held_sum db_of content w g, w')
    \<and> touches db_of content {} w w'"
  unfolding held_sum_def
proof (rule sum_scalar_books[OF b])
  have nonneg: "0 \<le> held_of d" for d by (simp add: held_of_def split: option.splits)
  fix s f assume s: "s \<in> set (g_sparks g)" "db_of w (s_db s) = Some f"
  have "held_of (spark_db db_of content w s) \<le> held_sum db_of content w g"
    unfolding held_sum_def by (rule member_le_sum_list_int) (use s nonneg in auto)
  then have "c_int (held_of (content w f))"
    using b small s(2) nonneg[of "content w f"] by (simp add: books_def spark_db_def c_int_def)
  moreover obtain hs where "tb_held (content w f) = Some hs" using spark_row[OF b s(1)] s(2) by (metis option.inject)
  ultimately show "\<exists>rows. eval_query Q_Held_Count (content w f) = Some ([VInt (held_of (content w f))] # rows) \<and> c_int (held_of (content w f))"
    by (simp add: held_of_def)
qed

lemma honest_books:
  assumes b: "books db_of content 0 w g" and small: "\<And>s. s \<in> set (g_sparks g) \<Longrightarrow> c_int (s_purse s)" "g_found g < 2 ^ 31"
  shows "\<exists>w'. honest api g w = (0, w') \<and> touches db_of content {} w w'"
proof -
  obtain w1 where p: "purses api g w = (purse_sum g, w1)" "touches db_of content {} w w1"
    using purses_books[OF b small(1)] by blast
  have b1: "books db_of content 0 w1 g" by (rule books_quiet[OF p(2) b])
  obtain w2 where i: "sum_scalar api Q_Held_Count (map s_db (g_sparks g)) w1 = (held_sum db_of content w1 g, w2)"
      "touches db_of content {} w1 w2"
    using items_books[OF b1 small(2)] by blast
  show ?thesis using p(1) i(1) b1 touches_join[OF p(2) i(2)] by (simp add: honest_def books_def balance_def)
qed

end

section \<open>The names of a founded ward\<close>

definition named :: "('w \<Rightarrow> nat \<Rightarrow> string option) \<Rightarrow> 'w \<Rightarrow> gyre \<Rightarrow> bool" where
  "named db_of w g \<longleftrightarrow> length (g_prefix g) \<le> 63 \<and> 0 \<le> g_ward_no g \<and> g_ward_no g < 4096
     \<and> nsparks g \<le> SPARKS_PER_WARD
     \<and> db_of w (g_ward g) = Some (ward_db_name (g_prefix g))
     \<and> (\<forall>k < length (g_sparks g).
          db_of w (s_db (g_sparks g ! k)) = Some (spark_db_name (g_prefix g) (g_ward_no g * SPARKS_PER_WARD + int k)))"

lemma sparks_per_ward [simp]: "SPARKS_PER_WARD = 1384"
  by (simp add: ward_consts)

lemma named_fresh:
  assumes n: "named db_of w g" and h: "h \<in> set (handles g)"
  shows "db_of w h \<noteq> Some (next_arrival g)"
proof -
  have small: "c_int (g_ward_no g * SPARKS_PER_WARD + k)" if "0 \<le> k" "k \<le> nsparks g" for k
    using n that by (simp add: named_def c_int_def)
  have ns: "0 \<le> nsparks g" by (simp add: nsparks_def)
  consider "h = g_ward g" | k where "k < length (g_sparks g)" "h = s_db (g_sparks g ! k)"
    using h by (auto simp: handles_def in_set_conv_nth)
  then show ?thesis
  proof cases
    case 1
    then show ?thesis using n spark_db_name_not_ward[OF small[OF ns], of "g_prefix g"]
      by (auto simp: named_def next_arrival_def)
  next
    case (2 k)
    then have "db_of w h = Some (spark_db_name (g_prefix g) (g_ward_no g * SPARKS_PER_WARD + int k))" "int k < nsparks g"
      using n by (auto simp: named_def nsparks_def)
    moreover have "spark_db_name (g_prefix g) (g_ward_no g * SPARKS_PER_WARD + int k) \<noteq> next_arrival g"
      using spark_db_name_inj[OF _ small[of "int k"] small[OF ns]] n calculation(2)
      by (auto simp: named_def next_arrival_def)
    ultimately show ?thesis by simp
  qed
qed

lemma named_fixed: "named db_of w g \<Longrightarrow> fixed g' = fixed g \<Longrightarrow> db_of w' = db_of w \<Longrightarrow> named db_of w' g'"
proof -
  assume n: "named db_of w g" and f: "fixed g' = fixed g" and w: "db_of w' = db_of w"
  have l: "length (g_sparks g') = length (g_sparks g)" by (rule handles_length[OF fixed_handles[OF f]])
  have "map s_db (g_sparks g') = map s_db (g_sparks g)" using f by (simp add: fixed_def handles_def)
  then have "s_db (g_sparks g' ! k) = s_db (g_sparks g ! k)" if "k < length (g_sparks g)" for k
    using that l by (metis nth_map)
  then show ?thesis using n f w l by (simp add: named_def fixed_def handles_def nsparks_def)
qed

context sql_engine
begin

lemma join_ward_shape:
  assumes "join_ward api g i w = Some (0, g', w')"
  obtains h where "g' = g\<lparr>g_sparks := g_sparks g @ [\<lparr>s_db = h, s_id = i, s_purse = 0, s_wear = 0, s_at = spark_home i\<rparr>]\<rparr>"
    "db_of w h = None" "db_of w' = (db_of w)(h \<mapsto> spark_db_name (g_prefix g) i)" "nsparks g < SPARKS_PER_WARD"
    "\<And>f. f \<noteq> spark_db_name (g_prefix g) i \<Longrightarrow> content w' f = content w f"
proof -
  let ?f = "spark_db_name (g_prefix g) i"
  obtain h w1 w2 w3 wire where o: "open_db api ?f w = (h, w1)" "h \<noteq> 0"
    and r: "run api h [Drop_If_Exists Spark_T, Drop_If_Exists Held_T] w1 = (0, w2)"
      "run api h [Create_Table Spark_T, Create_Table Held_T] w2 = (0, w3)"
      "run api h [Insert_Spark i (spark_home i) wire (class_owner CLASS_SPARK (g_ward_no g))] w3 = (0, w')"
    and g': "g' = g\<lparr>g_sparks := g_sparks g @ [\<lparr>s_db = h, s_id = i, s_purse = 0, s_wear = 0, s_at = spark_home i\<rparr>]\<rparr>"
    and n: "nsparks g < SPARKS_PER_WARD"
    using assms unfolding join_ward_def by (elim do_elims) (auto simp del: sparks_per_ward)
  have w1: "db_of w h = None" "db_of w1 = (db_of w)(h \<mapsto> ?f)" "content w1 = content w"
    using open_db_ok[OF o] by auto
  have "reach db_of content {h} w1 w1" using w1 by (intro reach_start) auto
  then have "reach db_of content {h} w1 w'"
    using run_reach[OF r(3) run_reach[OF r(2) run_reach[OF r(1)]]] by simp
  then have "db_of w' = db_of w1" "\<And>f. f \<noteq> ?f \<Longrightarrow> content w' f = content w f"
    using w1 by (auto simp: reach_def touches_def)
  then show thesis using that[OF g'] w1 n by simp
qed

lemma join_ward_named:
  assumes j: "join_ward api g (g_ward_no g * SPARKS_PER_WARD + nsparks g) w = Some (0, g', w')"
    and n: "named db_of w g" and o: "\<And>h. h \<in> set (handles g) \<Longrightarrow> db_of w h \<noteq> None"
  shows "named db_of w' g'"
proof -
  obtain h where g': "g' = g\<lparr>g_sparks := g_sparks g @ [\<lparr>s_db = h, s_id = g_ward_no g * SPARKS_PER_WARD + nsparks g,
      s_purse = 0, s_wear = 0, s_at = spark_home (g_ward_no g * SPARKS_PER_WARD + nsparks g)\<rparr>]\<rparr>"
    and h: "db_of w h = None" "db_of w' = (db_of w)(h \<mapsto> next_arrival g)" "nsparks g < SPARKS_PER_WARD"
    using join_ward_shape[OF j] unfolding next_arrival_def by metis
  have "h \<noteq> g_ward g" "\<And>k. k < length (g_sparks g) \<Longrightarrow> h \<noteq> s_db (g_sparks g ! k)"
    using o[OF handles_ward] o[OF handles_spark] h(1) by metis+
  then show ?thesis using n h
    by (auto simp: g' named_def nsparks_def nth_append less_Suc_eq next_arrival_def simp del: sparks_per_ward)
qed

lemma cycle_named:
  assumes "cycle api fuel g w = Some (0, g', w')" and b: "books db_of content 0 w g" and n: "named db_of w g"
  shows "books db_of content 0 w' g' \<and> named db_of w' g'"
  using assms(1)
proof (cases rule: cycle_cases)
  case s: (1 grp w1 arriving g2 grp2 w2 w3)
  note c = cycle_committed[OF s(1-3) b]
  have "books db_of content 0 w' g'" by (rule cycle_books[OF assms(1) b named_fresh[OF n]])
  moreover have n2: "named db_of w3 g2" using named_fixed[OF n c(3) touches_db_of[OF c(2)]] .
  then have "named db_of w' g'"
    using s(4) join_ward_named[OF _ n2 books_handles[OF c(1)]] by (auto split: if_splits simp del: sparks_per_ward)
  ultimately show ?thesis by simp
qed

lemma insert_venues_reach:
  "insert_venues api h no is w = Some (e, w') \<Longrightarrow> reach db_of content H w0 w \<Longrightarrow> h \<in> H \<Longrightarrow> reach db_of content H w0 w'"
proof (induction "is" arbitrary: w)
  case (Cons i "is")
  note IH = Cons.IH
  show ?case using Cons.prems(1)[unfolded insert_venues.simps] Cons.prems(2,3)
    by (elim do_elims) (clarsimp, (erule IH run_reach | simp)+)+
qed simp

lemma join_all_named:
  "join_all api g is w = Some (0, g', w') \<Longrightarrow> books db_of content 0 w g \<Longrightarrow> named db_of w g
    \<Longrightarrow> is = map (\<lambda>k. g_ward_no g * SPARKS_PER_WARD + nsparks g + int k) [0..<n]
    \<Longrightarrow> books db_of content 0 w' g' \<and> named db_of w' g' \<and> nsparks g' = nsparks g + int n"
proof (induction n arbitrary: g w "is")
  case (Suc n)
  have upt: "[0..<Suc n] = 0 # map Suc [0..<n]" by (simp add: map_Suc_upt upt_conv_Cons)
  obtain rest where is': "is = (g_ward_no g * SPARKS_PER_WARD + nsparks g) # rest"
    and rest: "rest = map (\<lambda>k. g_ward_no g * SPARKS_PER_WARD + (nsparks g + 1) + int k) [0..<n]"
    using Suc.prems(4) unfolding upt by (simp add: o_def algebra_simps del: upt_Suc sparks_per_ward)
  obtain g1 w1 where j: "join_ward api g (g_ward_no g * SPARKS_PER_WARD + nsparks g) w = Some (0, g1, w1)"
    and r: "join_all api g1 rest w1 = Some (0, g', w')"
    using Suc.prems(1) unfolding is' by (auto elim!: do_elims simp del: sparks_per_ward)
  obtain h where g1: "g1 = g\<lparr>g_sparks := g_sparks g @ [h]\<rparr>" using join_ward_shape[OF j] by metis
  have b1: "books db_of content 0 w1 g1"
    using join_ward_books[OF j Suc.prems(2)] named_fresh[OF Suc.prems(3)] unfolding next_arrival_def by blast
  have n1: "named db_of w1 g1" using join_ward_named[OF j Suc.prems(3) books_handles[OF Suc.prems(2)]] by blast
  have ns: "nsparks g1 = nsparks g + 1" "g_ward_no g1 = g_ward_no g" by (simp_all add: g1 nsparks_def)
  show ?case using Suc.IH[OF r b1 n1] rest ns by simp
qed simp

lemma found_ward_named:
  assumes f: "found_ward api g pre n seed base w = Some (0, g', w')"
    and start: "g_sparks g = []" "g_spent g = 0" and pre: "length pre \<le> 63"
    and base: "base = no * SPARKS_PER_WARD" "0 \<le> no" "no < 4096"
  shows "books db_of content 0 w' g' \<and> named db_of w' g' \<and> nsparks g' = int (nat n)"
proof -
  obtain h w1 w2 w3 w4 w5 wire where o: "open_db api (ward_db_name pre) w = (h, w1)" "h \<noteq> 0"
    and r: "run api h [Drop_If_Exists Ward_T, Drop_If_Exists Venue_T, Drop_If_Exists Board_T, Drop_If_Exists Ledger_T] w1 = (0, w2)"
      "run api h [Create_Table Ward_T, Create_Table Venue_T, Create_Table Board_T, Create_Table Ledger_T] w2 = (0, w3)"
      "insert_venues api h (base sdiv SPARKS_PER_WARD) [0..<nat NVENUES] w3 = Some (0, w4)"
      "run api h [Insert_Ward 300 4000 300 (nonphysical_place WIRE_QUEEN) wire (class_owner CLASS_QUEEN (base sdiv SPARKS_PER_WARD))] w4 = (0, w5)"
    and j: "join_all api (g\<lparr>g_ward := h, g_prefix := take 63 pre, g_ward_no := base sdiv SPARKS_PER_WARD,
        g_treasury := 300, g_debt := 4000, g_issued := 300, g_retired := 0, g_cycle := 0,
        g_found := 0, g_seq := 0, g_seed := seed, g_rng := rng_seed seed\<rparr>) (map (\<lambda>i. base + int i) [0..<nat n]) w5 = Some (0, g', w')"
    using f unfolding found_ward_def by (elim do_elims) (auto simp del: sparks_per_ward)
  have no: "base sdiv SPARKS_PER_WARD = no" using base by (simp add: sdiv_nonneg)
  have w1: "db_of w1 = (db_of w)(h \<mapsto> ward_db_name pre)" using open_db_ok[OF o] by simp
  have "reach db_of content {h} w1 w1" using w1 by (intro reach_start) simp
  then have "reach db_of content {h} w1 w5"
    using run_reach[OF r(4) insert_venues_reach[OF r(3) run_reach[OF r(2) run_reach[OF r(1)]]]] by simp
  then have w5: "db_of w5 h = Some (ward_db_name pre)" using w1 by (simp add: reach_def touches_def)
  let ?g = "g\<lparr>g_ward := h, g_prefix := take 63 pre, g_ward_no := no,
        g_treasury := 300, g_debt := 4000, g_issued := 300, g_retired := 0, g_cycle := 0,
        g_found := 0, g_seq := 0, g_seed := seed, g_rng := rng_seed seed\<rparr>"
  have b: "books db_of content 0 w5 ?g"
    using w5 start by (simp add: books_def linked_def balance_def purse_sum_def held_sum_def)
  have nm: "named db_of w5 ?g" using w5 start pre base by (simp add: named_def nsparks_def)
  have "books db_of content 0 w' g' \<and> named db_of w' g' \<and> nsparks g' = nsparks ?g + int (nat n)"
    by (rule join_all_named[OF j[unfolded no] b nm]) (use start base in \<open>simp add: nsparks_def\<close>)
  then show ?thesis using start by (simp add: nsparks_def)
qed
end

end
