(* ===== verification/Ward_Game.thy ===== *)
theory Ward_Game
  imports Ward_Cycle
begin

text \<open>
  More than one ward, and the programs around them: the replay fingerprint, the migration of a Spark,
  the checks across wards and the commands \<open>play\<close>, \<open>check\<close> and \<open>shard\<close> of \<open>src/src/queen.c\<close>. A live
  ward is a state machine (\<open>live\<close>): founded once, moved by cycles, commissions and payments. The lemmas
  show that the books and the names of a live ward stay right, that migration moves the books with
  the Spark, and that wards with kept books pass the check across all of them.
\<close>

section \<open>The fingerprint\<close>

definition FNV_PRIME :: u64 where "FNV_PRIME = 1099511628211"
definition FNV_START :: u64 where "FNV_START = 1469598103934665603"

definition fold_word :: "u64 \<Rightarrow> u64 \<Rightarrow> u64" where
  "fold_word h v = (h XOR v) * FNV_PRIME"

definition column_text :: "sqlval \<Rightarrow> string" where
  "column_text v = (case v of VInt i \<Rightarrow> dec i | VText s \<Rightarrow> s | VNull \<Rightarrow> [])"

definition fold_held :: "'w api \<Rightarrow> nat \<Rightarrow> u64 \<Rightarrow> 'w \<Rightarrow> u64 \<times> 'w" where
  "fold_held api db h w =
     (let (r, w) = sqlite3_rows api db Q_Held_Items w in
      (case r of None \<Rightarrow> h
       | Some rows \<Rightarrow> fold (\<lambda>row h. fold (\<lambda>c h. fold_word h (of_char c)) (c_string (column_text (hd row))) h) rows h, w))"

definition u32_of :: "int \<Rightarrow> u64" where
  "u32_of i = ucast (word_of_int i :: u32)"

fun fold_sparks :: "'w api \<Rightarrow> spark list \<Rightarrow> u64 \<Rightarrow> 'w \<Rightarrow> u64 \<times> 'w" where
  "fold_sparks api [] h w = (h, w)"
| "fold_sparks api (s # ss) h w =
     (let h = fold_word h (u32_of (s_purse s)); h = fold_word h (u32_of (s_wear s));
          h = fold_word h (word_of_int (px (s_at s))); h = fold_word h (word_of_int (py (s_at s)));
          h = fold_word h (word_of_int (pz (s_at s)));
          (h, w) = fold_held api (s_db s) h w
      in fold_sparks api ss h w)"

definition fingerprint :: "'w api \<Rightarrow> gyre \<Rightarrow> 'w \<Rightarrow> u64 \<times> 'w" where
  "fingerprint api g w =
     fold_sparks api (g_sparks g)
       (fold (\<lambda>v h. fold_word h (u32_of v))
          [g_cycle g, g_treasury g, g_debt g, g_issued g, g_retired g, g_spent g] FNV_START) w"

section \<open>Moving a Spark\<close>

definition drop_nth :: "nat \<Rightarrow> 'a list \<Rightarrow> 'a list" where
  "drop_nth i xs = take i xs @ drop (Suc i) xs"

definition migrate :: "'w api \<Rightarrow> gyre \<Rightarrow> gyre \<Rightarrow> int \<Rightarrow> 'w \<Rightarrow> (int \<times> gyre \<times> gyre \<times> 'w) option" where
  "migrate api from to idx w =
     (if idx < 0 \<or> idx \<ge> nsparks from then Some (1, from, to, w)
      else if nsparks to \<ge> MAX_SPARKS then Some (1, from, to, w)
      else let s = g_sparks from ! nat idx;
          from = from\<lparr>g_issued := g_issued from - s_purse s\<rparr>;
          to = to\<lparr>g_issued := g_issued to + s_purse s\<rparr>;
          (items, w) = scalar api (s_db s) Q_Held_Count w;
          from = from\<lparr>g_found := g_found from - items\<rparr>;
          to = to\<lparr>g_found := g_found to + items\<rparr>;
          (e, w) = run api (g_ward from) [Insert_Ledger (g_cycle from) ''departed'' (- s_purse s) (s_id s)] w in
      if e \<noteq> 0 then Some (1, from, to, w) else
      let (e, w) = run api (g_ward to) [Insert_Ledger (g_cycle to) ''arrived'' (s_purse s) (s_id s)] w in
      if e \<noteq> 0 then Some (1, from, to, w) else
      do { wire \<leftarrow> wire_id (g_ward_no to) (WIRE_SPARK_BASE + word_of_int (s_id s));
           let (e, w) = run api (s_db s) [Update_Spark_Wire wire (class_owner CLASS_SPARK (g_ward_no to)) (s_id s)] w;
           if e \<noteq> 0 then Some (1, from, to, w)
           else Some (0, from\<lparr>g_sparks := drop_nth (nat idx) (g_sparks from)\<rparr>,
                      to\<lparr>g_sparks := g_sparks to @ [s]\<rparr>, w) })"

section \<open>The checks across wards\<close>

fun sum_held :: "'w api \<Rightarrow> gyre list \<Rightarrow> 'w \<Rightarrow> int \<times> 'w" where
  "sum_held api [] w = (0, w)"
| "sum_held api (g # gs) w =
     (let (p, w) = purses api g w; (t, w) = sum_held api gs w
      in (g_treasury g + p + g_retired g + g_spent g + t, w))"

definition honest_across :: "'w api \<Rightarrow> gyre list \<Rightarrow> 'w \<Rightarrow> int \<times> 'w" where
  "honest_across api gs w =
     (let (held, w) = sum_held api gs w; issued = sum_list (map g_issued gs)
      in (if held \<noteq> issued then 1 else 0, w))"

definition to_wire :: "int \<Rightarrow> u32" where
  "to_wire v = word_of_int v"

fun spark_wires :: "'w api \<Rightarrow> spark list \<Rightarrow> nat \<Rightarrow> u32 list \<Rightarrow> 'w \<Rightarrow> u32 list \<times> 'w" where
  "spark_wires api [] cap out w = (out, w)"
| "spark_wires api (s # ss) cap out w =
     (if length out < cap
      then let (v, w) = scalar api (s_db s) Q_Spark_Wire w in spark_wires api ss cap (out @ [to_wire v]) w
      else (out, w))"

definition row_wires :: "nat \<Rightarrow> u32 list \<Rightarrow> sqlval list list \<Rightarrow> u32 list" where
  "row_wires cap out rows = out @ take (cap - length out) (map (\<lambda>row. to_wire (column_int64 (hd row))) rows)"

text \<open>\<open>None\<close> is the -1 of a query that could not be prepared.\<close>

definition gather_wires :: "'w api \<Rightarrow> gyre \<Rightarrow> nat \<Rightarrow> u32 list \<Rightarrow> 'w \<Rightarrow> u32 list option \<times> 'w" where
  "gather_wires api g cap out w =
     (let (r, w) = sqlite3_rows api (g_ward g) Q_Venue_Wires w in
      case r of None \<Rightarrow> (None, w)
      | Some rows \<Rightarrow>
          let out = row_wires cap out rows; (r, w) = sqlite3_rows api (g_ward g) Q_Board_Wires w in
          (case r of None \<Rightarrow> (None, w)
           | Some rows \<Rightarrow>
               let (out, w) = spark_wires api (g_sparks g) cap (row_wires cap out rows) w in (Some out, w)))"

fun gather_all :: "'w api \<Rightarrow> gyre list \<Rightarrow> nat \<Rightarrow> u32 list \<Rightarrow> 'w \<Rightarrow> u32 list option \<times> 'w" where
  "gather_all api [] cap out w = (Some out, w)"
| "gather_all api (g # gs) cap out w =
     (let (r, w) = gather_wires api g cap out w in
      case r of None \<Rightarrow> (None, w) | Some out \<Rightarrow> gather_all api gs cap out w)"

definition WIRES_CAP :: nat where "WIRES_CAP = 8192"

fun adjacent_twins :: "u32 list \<Rightarrow> bool" where
  "adjacent_twins (a # b # xs) = (b = a \<or> adjacent_twins (b # xs))"
| "adjacent_twins _ = False"

definition named_apart :: "'w api \<Rightarrow> gyre list \<Rightarrow> 'w \<Rightarrow> int \<times> 'w" where
  "named_apart api gs w =
     (let (r, w) = gather_all api gs WIRES_CAP [] w in
      case r of None \<Rightarrow> (1, w)
      | Some all \<Rightarrow> (if adjacent_twins (sort all) then 1 else 0, w))"

section \<open>Playing\<close>

fun play_cycles :: "'w api \<Rightarrow> nat \<Rightarrow> nat \<Rightarrow> gyre \<Rightarrow> 'w \<Rightarrow> (int \<times> gyre \<times> 'w) option" where
  "play_cycles api fuel 0 g w = Some (0, g, w)"
| "play_cycles api fuel (Suc c) g w =
     do { (e, g, w) \<leftarrow> cycle api fuel g w;
          if e \<noteq> 0 then Some (1, g, close_ward api g w) else do {
          let (e, w) = honest api g w;
          if e \<noteq> 0 then Some (1, g, close_ward api g w) else play_cycles api fuel c g w }}"

definition play :: "'w api \<Rightarrow> nat \<Rightarrow> string \<Rightarrow> int \<Rightarrow> int \<Rightarrow> u64 \<Rightarrow> 'w \<Rightarrow> (int \<times> gyre \<times> 'w) option" where
  "play api fuel pre cycles n seed w =
     do { (e, g, w) \<leftarrow> found_ward api zero_gyre pre n seed 0 w;
          if e \<noteq> 0 then Some (1, g, w) else play_cycles api fuel (nat cycles) g w }"

definition MAX_WARDS :: int where "MAX_WARDS = 8"

fun found_wards :: "'w api \<Rightarrow> nat \<Rightarrow> int \<Rightarrow> u64 \<Rightarrow> int \<Rightarrow> gyre list \<Rightarrow> 'w \<Rightarrow> (int \<times> gyre list \<times> 'w) option" where
  "found_wards api 0 n seed placed ws w = Some (0, ws, w)"
| "found_wards api (Suc k) n seed placed ws w =
     (let i = length ws; most = n - placed;
          most = (if most > SPARKS_PER_WARD then SPARKS_PER_WARD else most) in
      do { (e, g, w) \<leftarrow> found_ward api zero_gyre (take 31 (''gyre-shard-'' @ dec (int i))) most
             (seed + word_of_nat i) placed w;
           if e \<noteq> 0 then Some (1, ws, w)
           else found_wards api k n seed (placed + most) (ws @ [g]) w })"

fun shard_cycle :: "'w api \<Rightarrow> nat \<Rightarrow> nat list \<Rightarrow> gyre list \<Rightarrow> 'w \<Rightarrow> (int \<times> gyre list \<times> 'w) option" where
  "shard_cycle api fuel [] ws w = Some (0, ws, w)"
| "shard_cycle api fuel (i # is) ws w =
     do { (e, g, w) \<leftarrow> cycle api fuel (ws ! i) w;
          let ws = ws[i := g];
          if e \<noteq> 0 then Some (1, ws, w) else do {
          let (e, w) = honest api g w;
          if e \<noteq> 0 then Some (1, ws, w) else shard_cycle api fuel is ws w }}"

definition shard_midpoint :: "'w api \<Rightarrow> gyre list \<Rightarrow> 'w \<Rightarrow> (int \<times> gyre list \<times> 'w) option" where
  "shard_midpoint api ws w =
     do { (e, from, to, w) \<leftarrow> migrate api (ws ! 0) (ws ! 1) 0 w;
          let ws = ws[0 := from, 1 := to];
          if e \<noteq> 0 then Some (1, ws, w) else do {
          let (e, w) = honest_across api ws w;
          if e \<noteq> 0 then Some (1, ws, w) else do {
          let (e, w) = named_apart api ws w;
          Some (e, ws, w) }}}"

fun shard_cycles :: "'w api \<Rightarrow> nat \<Rightarrow> int \<Rightarrow> nat \<Rightarrow> int \<Rightarrow> gyre list \<Rightarrow> 'w \<Rightarrow> (int \<times> gyre list \<times> 'w) option" where
  "shard_cycles api fuel cycles 0 c ws w = Some (0, ws, w)"
| "shard_cycles api fuel cycles (Suc k) c ws w =
     do { (e, ws, w) \<leftarrow> shard_cycle api fuel [0..<length ws] ws w;
          if e \<noteq> 0 then Some (1, ws, w) else do {
          let (e, w) = honest_across api ws w;
          if e \<noteq> 0 then Some (1, ws, w) else do {
          (e, ws, w) \<leftarrow> (if length ws > 1 \<and> c = cycles sdiv 2 then shard_midpoint api ws w else Some (0, ws, w));
          if e \<noteq> 0 then Some (1, ws, w) else shard_cycles api fuel cycles k (c + 1) ws w }}}"

definition shard :: "'w api \<Rightarrow> nat \<Rightarrow> int \<Rightarrow> int \<Rightarrow> u64 \<Rightarrow> 'w \<Rightarrow> (int \<times> 'w) option" where
  "shard api fuel cycles n seed w =
     (let nwards = (n + SPARKS_PER_WARD - 1) sdiv SPARKS_PER_WARD in
      if nwards > MAX_WARDS then Some (2, w) else
      do { (e, ws, w) \<leftarrow> found_wards api (nat nwards) n seed 0 [] w;
           if e \<noteq> 0 then Some (1, w) else do {
           (e, ws, w) \<leftarrow> shard_cycles api fuel cycles (nat cycles) 0 ws w;
           let (rc, w) = (if e \<noteq> 0 then (1, w) else
             let (rc, w) = honest_across api ws w in if rc = 0 then named_apart api ws w else (rc, w));
           Some (rc, fold (close_ward api) ws w) }})"

text \<open>\<open>check\<close> plays one seed twice and compares the fingerprints.\<close>

definition check_replay :: "'w api \<Rightarrow> nat \<Rightarrow> int \<Rightarrow> int \<Rightarrow> u64 \<Rightarrow> 'w \<Rightarrow> (int \<times> 'w) option" where
  "check_replay api fuel cycles n seed w =
     do { (e, a, w) \<leftarrow> play api fuel ''gyre-a'' cycles n seed w;
          if e \<noteq> 0 then Some (1, w) else do {
          let (fa, w) = fingerprint api a w;
          let w = close_ward api a w;
          (e, b, w) \<leftarrow> play api fuel ''gyre-b'' cycles n seed w;
          if e \<noteq> 0 then Some (1, w) else do {
          let (fb, w) = fingerprint api b w;
          let w = close_ward api b w;
          Some (if fa \<noteq> fb then 1 else 0, w) }}}"

section \<open>A live ward\<close>

text \<open>The histories of one ward in which what changes it succeeds: it is founded, moved by cycles and payments that succeed and by
  commissions whether they buy or not, and checked. Every state \<open>play\<close> and \<open>check\<close> go on from is of this kind. A cycle that
  fails, a payment that is refused and a migration are not steps of it.\<close>

inductive live :: "'w api \<Rightarrow> gyre \<Rightarrow> 'w \<Rightarrow> bool" for api :: "'w api" where
  founded: "found_ward api zero_gyre pre n seed (no * SPARKS_PER_WARD) w = Some (0, g, w') \<Longrightarrow> length pre \<le> 63
    \<Longrightarrow> 0 \<le> no \<Longrightarrow> no < 4096 \<Longrightarrow> live api g w'"
| cycled: "live api g w \<Longrightarrow> cycle api fuel g w = Some (0, g', w') \<Longrightarrow> live api g' w'"
| commissioned: "live api g w \<Longrightarrow> build_venue api g i w = (e, g', w') \<Longrightarrow> live api g' w'"
| paid: "live api g w \<Longrightarrow> k < length (g_sparks g) \<Longrightarrow> pay_alone api g k amount None w = (0, g', w') \<Longrightarrow> live api g' w'"
| checked: "live api g w \<Longrightarrow> honest api g w = (e, w') \<Longrightarrow> live api g w'"

inductive_cases liveE: "live api g w"

context sql_engine
begin

lemma build_venue_named:
  assumes "build_venue api g i w = (e, g', w')" "books db_of content n w g" "named db_of w g"
  shows "named db_of w' g'"
proof (rule named_fixed[OF assms(3) same_books_fixed[OF build_venue_same[OF assms(1)]]])
  have "reach db_of content {g_ward g} w w'" using build_venue_reach[OF assms(1) books_start[OF assms(2)]] by simp
  then show "db_of w' = db_of w" by (simp add: reach_def touches_def)
qed

lemma purses_reach:
  "sum_scalar api q hs w = (v, w') \<Longrightarrow> (\<And>h. h \<in> set hs \<Longrightarrow> db_of w h \<noteq> None) \<Longrightarrow> touches db_of content {} w w'"
proof (induction hs arbitrary: w v)
  case (Cons h hs)
  obtain v1 w1 v2 where 1: "scalar api h q w = (v1, w1)" and 2: "sum_scalar api q hs w1 = (v2, w')"
    using Cons.prems(1) by (auto split: prod.splits)
  obtain f where f: "db_of w h = Some f" using Cons.prems(2)[of h] by auto
  obtain r where "sqlite3_rows api h q w = (r, w1)" using 1 by (auto simp: scalar_def split: prod.splits)
  from rows_frame[OF this f] have t1: "touches db_of content {} w w1" by (simp add: touches_def)
  then have "touches db_of content {} w1 w'" using Cons.IH[OF 2] Cons.prems(2) touches_db_of[OF t1] by simp
  with t1 show ?case by (rule touches_join)
qed simp

lemma honest_quiet:
  assumes "honest api g w = (e, w')" "books db_of content n w g"
  shows "touches db_of content {} w w'"
proof -
  have o: "db_of w h \<noteq> None" if "h \<in> set (map s_db (g_sparks g))" for h
    using books_handles[OF assms(2)] that by (simp add: handles_def)
  obtain p w1 where p: "purses api g w = (p, w1)" by fastforce
  have t1: "touches db_of content {} w w1" using purses_reach[OF p[unfolded purses_def] o] .
  have o1: "db_of w1 h \<noteq> None" if "h \<in> set (map s_db (g_sparks g))" for h
    using o[OF that] touches_db_of[OF t1] by simp
  have "touches db_of content {} w1 w2" if "sum_scalar api q (map s_db (g_sparks g)) w1 = (v, w2)" for q v w2
    using purses_reach[OF that o1] .
  then show ?thesis using assms(1) p t1
    by (auto simp: honest_def purses_def Let_def split: prod.splits if_splits intro: touches_join)
qed

lemma live_books: "live api g w \<Longrightarrow> books db_of content 0 w g \<and> named db_of w g"
proof (induction rule: live.induct)
  case (founded pre n seed no w g w')
  then show ?case using found_ward_named[OF founded(1), of no] by (simp add: zero_gyre_def)
next
  case (cycled g w fuel g' w')
  then show ?case using cycle_named by blast
next
  case (commissioned g w i e g' w')
  then show ?case using build_venue_books[OF commissioned(2)] build_venue_named[OF commissioned(2)] by blast
next
  case (paid g w k amount g' w')
  then have "books db_of content 0 w g" by simp
  note p = pay_alone_books[OF paid(3) this paid(2)]
  then have t: "touches db_of content {g_ward g, s_db (g_sparks g ! k)} w w'" by simp
  have "named db_of w' g'" by (rule named_fixed[OF _ _ touches_db_of[OF t]]) (use p paid.IH in auto)
  then show ?case using p by simp
next
  case (checked g w e w')
  then have t: "touches db_of content {} w w'" using honest_quiet by blast
  have "named db_of w' g" by (rule named_fixed[OF _ refl touches_db_of[OF t]]) (use checked in simp)
  then show ?case using checked books_quiet[OF t] by simp
qed

end

context sql_reader
begin

lemma live_honest:
  assumes "live api g w" "\<And>s. s \<in> set (g_sparks g) \<Longrightarrow> c_int (s_purse s)" "g_found g < 2 ^ 31"
  shows "fst (honest api g w) = 0"
  using honest_books[OF conjunct1[OF live_books[OF assms(1)]] assms(2,3)] by auto

end

section \<open>Migration\<close>

lemma sum_list_drop_nth: "i < length xs \<Longrightarrow> sum_list (drop_nth i xs) = sum_list xs - xs ! i" for xs :: "int list"
  using arg_cong[OF id_take_nth_drop[of i xs], of sum_list] by (simp add: drop_nth_def)

lemma map_drop_nth: "map f (drop_nth i xs) = drop_nth i (map f xs)"
  by (simp add: drop_nth_def take_map drop_map)

lemma set_drop_nth: "set (drop_nth i xs) \<subseteq> set xs"
  by (auto simp: drop_nth_def dest: in_set_takeD in_set_dropD)

lemma distinct_drop_nth: "distinct xs \<Longrightarrow> i < length xs \<Longrightarrow> distinct (drop_nth i xs)"
  by (subst (asm) id_take_nth_drop[of i xs]) (auto simp: drop_nth_def)

lemma books_depart:
  assumes b: "books db_of content n w g" and i: "i < length (g_sparks g)"
  shows "books db_of content n w (g\<lparr>g_issued := g_issued g - s_purse (g_sparks g ! i),
    g_found := g_found g - held_of (spark_db db_of content w (g_sparks g ! i)), g_sparks := drop_nth i (g_sparks g)\<rparr>)"
proof -
  have "distinct (map (\<lambda>s. db_of w (s_db s)) (drop_nth i (g_sparks g)))"
    using b i unfolding map_drop_nth by (intro distinct_drop_nth) (simp_all add: books_def linked_def Let_def o_def)
  then have "linked db_of w (g\<lparr>g_sparks := drop_nth i (g_sparks g)\<rparr>)"
    using b set_drop_nth[of i "g_sparks g"]
    by (auto simp: books_def linked_def Let_def o_def image_iff subset_iff)
  then show ?thesis using b i set_drop_nth[of i "g_sparks g"]
    by (auto simp: books_def linked_def balance_def purse_sum_def held_sum_def map_drop_nth sum_list_drop_nth)
qed

lemma books_arrive:
  assumes b: "books db_of content n w g" and s: "keeps_row (spark_db db_of content w s) s" "db_of w (s_db s) \<noteq> None"
    and new: "\<And>h. h \<in> set (handles g) \<Longrightarrow> db_of w h \<noteq> db_of w (s_db s)"
  shows "books db_of content n w (g\<lparr>g_issued := g_issued g + s_purse s,
    g_found := g_found g + held_of (spark_db db_of content w s), g_sparks := g_sparks g @ [s]\<rparr>)"
proof -
  have "db_of w (s_db s) \<notin> db_of w ` set (handles g)" using new by (metis imageE)
  then have "linked db_of w (g\<lparr>g_sparks := g_sparks g @ [s]\<rparr>)"
    using b s(2) by (auto simp: books_def linked_def Let_def handles_def)
  then show ?thesis using b s(1)
    by (simp add: books_def linked_def balance_def purse_sum_def held_sum_def)
qed

text \<open>Two wards whose databases are all different ones.\<close>

definition apart :: "('w \<Rightarrow> nat \<Rightarrow> string option) \<Rightarrow> 'w \<Rightarrow> gyre \<Rightarrow> gyre \<Rightarrow> bool" where
  "apart db_of w g g' \<longleftrightarrow> (\<forall>h \<in> set (handles g). \<forall>h' \<in> set (handles g'). db_of w h \<noteq> db_of w h')"

lemma books_other:
  assumes "books db_of content n w g'" "apart db_of w g g'" "touches db_of content H w w'" "H \<subseteq> set (handles g)"
  shows "books db_of content n w' g'"
proof (rule books_elsewhere[OF assms(1)])
  fix h assume h: "h \<in> set (handles g')"
  then obtain f where f: "db_of w h = Some f" using books_handles[OF assms(1)] by blast
  then have "\<forall>k \<in> H. db_of w k \<noteq> Some f" using assms(2,4) h by (force simp: apart_def)
  then show "db_of w' h = db_of w h \<and> content w' (the (db_of w h)) = content w (the (db_of w h))"
    using assms(3) f by (simp add: touches_def)
qed

context sql_engine
begin

lemma cycle_other:
  assumes "cycle api fuel g w = Some (0, g', w')" and b: "books db_of content 0 w g"
    and o: "books db_of content n w k" "apart db_of w g k"
    and new: "\<And>h. h \<in> set (handles g) \<union> set (handles k) \<Longrightarrow> db_of w h \<noteq> Some (next_arrival g)"
  shows "books db_of content n w' k"
  using assms(1)
proof (cases rule: cycle_cases)
  case s: (1 grp w1 arriving g2 grp2 w2 w3)
  note c = cycle_committed[OF s(1-3) b]
  have b3: "books db_of content n w3 k" by (rule books_other[OF o c(2)]) simp
  have d3: "db_of w3 = db_of w" by (rule touches_db_of[OF c(2)])
  have a: "next_arrival g2 = next_arrival g"
    using c(3) handles_length[OF fixed_handles[OF c(3)]] by (simp add: fixed_def next_arrival_def nsparks_def)
  show ?thesis
  proof (cases arriving)
    case True
    then obtain h where h: "db_of w3 h = None" "db_of w' = (db_of w3)(h \<mapsto> next_arrival g2)"
      "\<And>f. f \<noteq> next_arrival g2 \<Longrightarrow> content w' f = content w3 f"
      using s(4) join_ward_shape unfolding next_arrival_def by (metis (full_types))
    show ?thesis
    proof (rule books_elsewhere[OF b3])
      fix x assume x: "x \<in> set (handles k)"
      then obtain f where "db_of w3 x = Some f" "f \<noteq> next_arrival g2" using books_handles[OF b3 x] new[of x] d3 a by auto
      then show "db_of w' x = db_of w3 x \<and> content w' (the (db_of w3 x)) = content w3 (the (db_of w3 x))"
        using h by auto
    qed
  next
    case False
    then show ?thesis using s(4) b3 by simp
  qed
qed

end

context sql_reader
begin

lemma migrate_books:
  assumes m: "migrate api from to idx w = Some (0, from', to', w')"
    and b: "books db_of content 0 w from" "books db_of content 0 w to" and ap: "apart db_of w from to"
    and small: "c_int (held_of (spark_db db_of content w (g_sparks from ! nat idx)))"
  shows "books db_of content 0 w' from' \<and> books db_of content 0 w' to' \<and> g_issued from' + g_issued to' = g_issued from + g_issued to
    \<and> nsparks from' = nsparks from - 1 \<and> nsparks to' = nsparks to + 1"
proof -
  let ?i = "nat idx" let ?s = "g_sparks from ! nat idx"
  have i: "?i < length (g_sparks from)" using m unfolding migrate_def by (elim do_elims) (auto simp: nsparks_def)
  obtain items w1 w2 w3 wire where
    s: "scalar api (s_db ?s) Q_Held_Count w = (items, w1)"
      "run api (g_ward from) [Insert_Ledger (g_cycle from) ''departed'' (- s_purse ?s) (s_id ?s)] w1 = (0, w2)"
      "run api (g_ward to) [Insert_Ledger (g_cycle to) ''arrived'' (s_purse ?s) (s_id ?s)] w2 = (0, w3)"
      "run api (s_db ?s) [Update_Spark_Wire wire (class_owner CLASS_SPARK (g_ward_no to)) (s_id ?s)] w3 = (0, w')"
    and from': "from' = from\<lparr>g_issued := g_issued from - s_purse ?s, g_found := g_found from - items, g_sparks := drop_nth ?i (g_sparks from)\<rparr>"
    and to': "to' = to\<lparr>g_issued := g_issued to + s_purse ?s, g_found := g_found to + items, g_sparks := g_sparks to @ [?s]\<rparr>"
    using m unfolding migrate_def by (elim do_elims) (auto simp: Let_def)
  obtain f where f: "db_of w (s_db ?s) = Some f" using books_open[OF b(1) i] by blast
  have "keeps_row (content w f) ?s" using b(1) nth_mem[OF i] f by (force simp: books_def spark_db_def)
  then have "eval_query Q_Held_Count (content w f) = Some [[VInt (held_of (content w f))]]"
    by (auto simp: keeps_row_def held_of_def split: option.splits list.splits)
  then have items: "items = held_of (spark_db db_of content w ?s)" and t1: "touches db_of content {} w w1"
    using scalar_value[OF f, of Q_Held_Count] small s(1) f by (auto simp: spark_db_def)
  have b1: "books db_of content 0 w1 from" "books db_of content 0 w1 to" using books_quiet[OF t1] b by auto
  have ap': "apart db_of v to from" "apart db_of v from to" if "db_of v = db_of w" for v
    using ap that unfolding apart_def by metis+
  have d1: "db_of w1 = db_of w" using touches_db_of[OF t1] .
  have t2: "touches db_of content {g_ward from} w1 w2"
    using run_touches[OF s(2)] books_handles[OF b1(1) handles_ward] by blast
  have d2: "db_of w2 = db_of w" using touches_db_of[OF t2] d1 by simp
  have b2: "books db_of content 0 w2 from" "books db_of content 0 w2 to"
    using run_books[OF s(2) b1(1)] books_other[OF b1(2) ap'(2)[OF d1] t2] handles_ward by auto
  have t3: "touches db_of content {g_ward to} w2 w3"
    using run_touches[OF s(3)] books_handles[OF b2(2) handles_ward] by blast
  have d3: "db_of w3 = db_of w" using touches_db_of[OF t3] d2 by simp
  have b3: "books db_of content 0 w3 from" "books db_of content 0 w3 to"
    using run_books[OF s(3) b2(2)] books_other[OF b2(1) ap'(1)[OF d2] t3] handles_ward by auto
  have t4: "touches db_of content {s_db ?s} w3 w'" using run_touches[OF s(4)] f d3 by simp
  have d4: "db_of w' = db_of w" using touches_db_of[OF t4] d3 by simp
  have "books db_of content (0 - 0) w' from"
    by (rule run_spark_books[where s' = ?s, OF s(4) b3(1) i]) (simp, erule (1) keeps_wire, simp_all)
  then have b4: "books db_of content 0 w' from" "books db_of content 0 w' to"
    using books_other[OF b3(2) ap'(2)[OF d3] t4] handles_spark[OF i] by auto
  have "db_of w (g_ward from) \<noteq> Some f" "db_of w (g_ward to) \<noteq> Some f"
    using linked_not_ward[of db_of w "from" ?i] b(1) i f ap handles_spark[OF i] handles_ward[of "to"]
    unfolding books_def apart_def by metis+
  then have "content w3 f = content w f" using t1 t2 t3 d1 d2 by (auto simp: touches_def)
  moreover have "held_of (content w' f) = held_of (content w3 f) + 0"
    using keeps_wire[OF _ run_ok[OF s(4)]] f d3 \<open>keeps_row (content w f) ?s\<close> calculation by auto
  ultimately have held: "items = held_of (spark_db db_of content w' ?s)" using items f d4 by (simp add: spark_db_def)
  have "books db_of content 0 w' from'" using books_depart[OF b4(1) i] from' held by simp
  moreover have "books db_of content 0 w' to'"
  proof -
    have "keeps_row (spark_db db_of content w' ?s) ?s" using b4(1) nth_mem[OF i] by (simp add: books_def)
    moreover have "db_of w' h \<noteq> db_of w' (s_db ?s)" if "h \<in> set (handles to)" for h
      using ap'(1)[OF d4] that handles_spark[OF i] by (auto simp: apart_def)
    ultimately show ?thesis using books_arrive[OF b4(2), of ?s] to' held f d4 by simp
  qed
  moreover have "nsparks from' = nsparks from - 1" using i by (simp add: from' nsparks_def drop_nth_def)
  ultimately show ?thesis by (simp add: from' to' nsparks_def)
qed

lemma sum_held_books:
  "(\<And>g. g \<in> set gs \<Longrightarrow> books db_of content 0 w g) \<Longrightarrow> (\<And>g s. g \<in> set gs \<Longrightarrow> s \<in> set (g_sparks g) \<Longrightarrow> c_int (s_purse s))
    \<Longrightarrow> \<exists>w'. sum_held api gs w = (sum_list (map g_issued gs), w')"
proof (induction gs arbitrary: w)
  case (Cons g gs)
  obtain w1 where p: "purses api g w = (purse_sum g, w1)" "touches db_of content {} w w1"
    using purses_books[of 0 w g] Cons.prems by auto
  have "books db_of content 0 w1 k" if "k \<in> set gs" for k using books_quiet[OF p(2)] Cons.prems(1) that by simp
  then obtain w2 where "sum_held api gs w1 = (sum_list (map g_issued gs), w2)" using Cons.IH Cons.prems(2) by fastforce
  moreover have "g_treasury g + purse_sum g + g_retired g + g_spent g = g_issued g"
    using Cons.prems(1)[of g] by (simp add: books_def balance_def)
  ultimately show ?case using p(1) by simp
qed simp

end

end
