(* ===== verification/Ward_Theorems.thy ===== *)
theory Ward_Theorems
  imports Ward_Game
begin

text \<open>
  What the ward promises, as theorems over its operations, for every engine with the laws of
  \<open>sql_engine\<close> or \<open>sql_reader\<close>. The examples run on the in-memory engine: a ward of one Spark whose
  generator hands out zeros, so that a cycle can be evaluated without running ChaCha.
\<close>

section \<open>A ward to run the examples on\<close>

definition ex_spark_file :: database where
  "ex_spark_file = empty_db\<lparr>tb_spark := Some [\<lparr>sr_id = 0, sr_purse = 0, sr_wear = 0, sr_cycles = 0,
     sr_at = spark_home 0, sr_wire = 256, sr_owner = 0\<rparr>], tb_held := Some []\<rparr>"

definition ex_ward_file :: database where
  "ex_ward_file = empty_db\<lparr>tb_ward := Some [], tb_board := Some [], tb_ledger := Some [],
     tb_venue := Some (map (\<lambda>i. \<lparr>vr_id = i, vr_name = [], vr_cost = 500, vr_built = 0, vr_at = spark_home 0,
       vr_wire = i + 1, vr_owner = 0\<rparr>) [0, 1, 2, 3, 4, 5])\<rparr>"

definition ex_world :: mem where
  "ex_world = \<lparr>m_files = (\<lambda>_. empty_db)(''a-ward.db'' := ex_ward_file, ''a-spark-0.db'' := ex_spark_file,
       ''b-ward.db'' := ex_ward_file),
     m_open = [Some ''a-ward.db'', Some ''a-spark-0.db'', Some ''b-ward.db''], m_saved = (\<lambda>_. None), m_rowid = (\<lambda>_. 0),
     m_txn = 1, m_parts = [], m_faults = [], m_plan = (\<lambda>_. Some (- 1))\<rparr>"

definition zeros :: "nat \<Rightarrow> rng" where
  "zeros k = (if k \<le> 16 then \<lparr>rstate = replicate 16 0, rout = replicate 16 0, used = k\<rparr>
              else \<lparr>rstate = (replicate 16 0)[12 := 1], rout = replicate 16 0, used = k - 16\<rparr>)"

definition ex_gyre :: gyre where
  "ex_gyre = zero_gyre\<lparr>g_ward := 1, g_sparks := [\<lparr>s_db = 2, s_id = 0, s_purse = 0, s_wear = 0, s_at = spark_home 0\<rparr>],
     g_rng := zeros 0, g_treasury := 300, g_debt := 4000, g_issued := 300, g_prefix := ''a''\<rparr>"

text \<open>A second ward beside it, with no Spark.\<close>

definition ex_other :: gyre where
  "ex_other = zero_gyre\<lparr>g_ward := 3, g_ward_no := 1, g_treasury := 300, g_issued := 300, g_prefix := ''b''\<rparr>"

lemma qr_at_zeros: "i < 16 \<Longrightarrow> j < 16 \<Longrightarrow> k < 16 \<Longrightarrow> l < 16 \<Longrightarrow> qr_at i j k l (replicate 16 0) = replicate 16 0"
proof -
  have "(replicate 16 (0 :: u32))[n := 0] = replicate 16 0" for n
    by (metis list_update_id list_update_beyond nth_replicate length_replicate linorder_not_less)
  then show "i < 16 \<Longrightarrow> j < 16 \<Longrightarrow> k < 16 \<Longrightarrow> l < 16 \<Longrightarrow> ?thesis" by (simp add: qr_at_def RNG_QR_def RNG_ROTL_def)
qed

lemma rounds_zeros: "rounds n (replicate 16 0) = replicate 16 0"
  by (induction n) (simp_all add: double_round_def qr_at_zeros)

lemma rng_block_zeros: "rng_block \<lparr>rstate = replicate 16 0, rout = xs, used = k\<rparr> =
  \<lparr>rstate = (replicate 16 0)[12 := 1], rout = replicate 16 0, used = 0\<rparr>"
  by (simp add: rng_block_def rounds_zeros Let_def zip_replicate)

lemma rng_next_zeros: "k < 32 \<Longrightarrow> rng_next (zeros k) = (0, zeros (Suc k))"
  by (auto simp: rng_next_def zeros_def rng_block_zeros Let_def)

lemma rng_below_zeros:
  "k < 32 \<Longrightarrow> rng_below (Suc f) (zeros k) n = Some (0, if n = 0 then zeros k else zeros (Suc k))"
  by (simp add: rng_below_def rng_next_zeros)

lemmas engine_eval = run_def scalar_def scalar64_def built_def mem_defs
  group_join_def group_begin_def group_commit_def ward_consts NKINDS_def KINDS_def
  ex_world_def ex_gyre_def zero_gyre_def ex_ward_file_def ex_spark_file_def empty_db_def
  next_rowid_def update_where_def unique_wires_def opt_int_def board_col_def column_int_def column_int64_def
  wire_id_def wire_defs class_owner_def contract_place_def UM_def COMMONS_UM_def UNDER_UM_def nsparks_def

lemmas cycle_eval = cycle_def cycle_body_def commission_def post_board_def rng_below_zeros work_def
  choose_contract_def INT_MIN_def take_salvage_def wear_frame_def worn_def pay_wage_def pay_def stand_at_def
  debt_clock_def engine_eval

lemma ex_cycle:
  "map_option (\<lambda>(e, g, w). (e, g_treasury g, g_sparks g)) (cycle mem_engine 1 ex_gyre ex_world) =
   Some (0, 247, [\<lparr>s_db = 2, s_id = 0, s_purse = 4, s_wear = 4, s_at = \<lparr>px = 13000000, py = 0, pz = 30000000\<rparr>\<rparr>])"
  by (simp add: cycle_eval upt_rec Let_def)

lemma ex_cycled: obtains g w where "cycle mem_engine 1 ex_gyre ex_world = Some (0, g, w)" "g_treasury g = 247"
  using ex_cycle by auto

lemma ex_books: "books mem_file m_files 0 ex_world ex_gyre"
  by (simp add: books_def linked_def mem_file_def ex_world_def ex_gyre_def zero_gyre_def keeps_row_def spark_db_def
      held_sum_def held_of_def balance_def purse_sum_def ex_spark_file_def)

lemma dec_0: "dec 0 = ''0''"
  by code_simp

lemma ex_named: "named mem_file ex_world ex_gyre"
  by (simp add: named_def mem_file_def ex_world_def ex_gyre_def zero_gyre_def nsparks_def ward_db_name_def
      spark_db_name_def dec_0)

lemma ex_other_books: "books mem_file m_files 0 ex_world ex_other"
  by (simp add: books_def linked_def mem_file_def ex_world_def ex_other_def zero_gyre_def held_sum_def balance_def purse_sum_def)

lemma ex_apart: "apart mem_file ex_world ex_gyre ex_other"
  by (simp add: apart_def handles_def mem_file_def ex_world_def ex_other_def ex_gyre_def zero_gyre_def)

lemma ex_founded:
  "map_option (\<lambda>(e, g, w). (e, map s_purse (g_sparks g), g_found g)) (found_ward mem_engine zero_gyre ''a'' 1 7 (0 * SPARKS_PER_WARD) mem_start) = Some (0, [0], 0)"
  by (simp add: found_ward_def open_db_def join_ward_def mem_start_def create_table_def drop_table_def quoted_def engine_eval
      VENUE_PLACES_def nonphysical_place_def spark_home_def upt_rec Let_def word_le_nat_alt)

section \<open>The books\<close>

text \<open>C1. A cycle that succeeds keeps the books: whatever the engine, the planner and the draws answer,
  afterwards every Spark's database holds exactly the purse the process remembers, the scrip ever
  issued is in the treasury, in purses, paid to the Debt Clock or spent on venues, and no more salvage
  is held than was found, provided no database of the ward already has the name of the next arrival.\<close>

theorem cycle_keeps_books:
  assumes "sql_engine api db_of content" and "cycle api fuel g w = Some (0, g', w')"
    and "books db_of content 0 w g" and "\<forall>h \<in> set (handles g). db_of w h \<noteq> Some (next_arrival g)"
  shows "books db_of content 0 w' g'"
  using sql_engine.cycle_books[OF assms(1-3)] assms(4) by blast

theorem cycle_keeps_books_witness:
  "\<exists>g w. cycle mem_engine 1 ex_gyre ex_world = Some (0, g, w) \<and> books mem_file m_files 0 w g \<and> g_treasury g = 247"
proof -
  obtain g w where c: "cycle mem_engine 1 ex_gyre ex_world = Some (0, g, w)" "g_treasury g = 247" by (rule ex_cycled)
  have "\<forall>h \<in> set (handles ex_gyre). mem_file ex_world h \<noteq> Some (next_arrival ex_gyre)"
    using named_fresh[OF ex_named] by blast
  from cycle_keeps_books[OF mem.sql_engine_axioms c(1) ex_books this] c show ?thesis by blast
qed

text \<open>C2. A ward whose cycles and payments succeed is always honest: after any history of its founding, successful cycles,
  commissions (also refused ones), successful payments and checks, the check \<open>honest\<close> answers zero, as long as the
  purses and the count of salvage fit in an int and queries run to their end. It is not so for every state the program can
  reach: a service goes on after a cycle that failed, and memory and databases may then disagree
  (\<open>failed_cycle_keeps_its_changes\<close>). What a migration does is in C11.\<close>

theorem live_ward_honest:
  assumes "sql_reader api db_of content" and "live api g w"
    and "\<forall>s \<in> set (g_sparks g). c_int (s_purse s)" and "g_found g < 2 ^ 31"
  shows "fst (honest api g w) = 0"
  using sql_reader.live_honest[OF assms(1,2) _ assms(4)] assms(3) by blast

theorem live_ward_honest_witness:
  "\<exists>g w. live mem_engine g w \<and> length (g_sparks g) = 1 \<and> fst (honest mem_engine g w) = 0"
proof -
  obtain g w where f: "found_ward mem_engine zero_gyre ''a'' 1 7 (0 * SPARKS_PER_WARD) mem_start = Some (0, g, w)"
    "map s_purse (g_sparks g) = [0]" "g_found g = 0"
    using ex_founded by auto
  have l: "live mem_engine g w" by (rule live.founded[OF f(1)]) simp_all
  have "\<forall>s \<in> set (g_sparks g). c_int (s_purse s)" using f(2) by (auto simp: c_int_def)
  then have "fst (honest mem_engine g w) = 0" using live_ward_honest[OF mem.sql_reader_axioms l] f(3) by simp
  moreover have "length (g_sparks g) = 1" using f(2) by auto
  ultimately show ?thesis using l by blast
qed

text \<open>C14. A cycle of one ward leaves every other ward alone: the books of a ward whose databases are all
  different ones stay kept, provided none of them has the name of the next arrival.\<close>

theorem cycle_leaves_others:
  assumes "sql_engine api db_of content" and "cycle api fuel g w = Some (0, g', w')"
    and "books db_of content 0 w g" and "books db_of content n w other" and "apart db_of w g other"
    and "\<forall>h \<in> set (handles g) \<union> set (handles other). db_of w h \<noteq> Some (next_arrival g)"
  shows "books db_of content n w' other"
  using sql_engine.cycle_other[OF assms(1-5)] assms(6) by blast

theorem cycle_leaves_others_witness:
  "\<exists>g w. cycle mem_engine 1 ex_gyre ex_world = Some (0, g, w) \<and> books mem_file m_files 0 w ex_other"
proof -
  obtain g w where c: "cycle mem_engine 1 ex_gyre ex_world = Some (0, g, w)" by (rule ex_cycled)
  have "\<forall>h \<in> set (handles ex_other). mem_file ex_world h \<noteq> Some (next_arrival ex_gyre)"
    by (simp add: handles_def mem_file_def ex_other_def zero_gyre_def ex_world_def next_arrival_def spark_db_name_def ex_gyre_def)
  then have "\<forall>h \<in> set (handles ex_gyre) \<union> set (handles ex_other). mem_file ex_world h \<noteq> Some (next_arrival ex_gyre)"
    using named_fresh[OF ex_named] by blast
  from cycle_leaves_others[OF mem.sql_engine_axioms c ex_books ex_other_books ex_apart this] c show ?thesis by blast
qed

text \<open>C15. Founding a ward whose prefix fits its field, at the first id of a ward number below 4096,
  opens its books, gives every database its own name and seats exactly the Sparks asked for.\<close>

theorem found_ward_opens_books:
  assumes "sql_engine api db_of content" and "found_ward api zero_gyre pre n seed base w = Some (0, g, w')"
    and "length pre \<le> 63" and "base = no * SPARKS_PER_WARD" and "0 \<le> no" and "no < 4096"
  shows "books db_of content 0 w' g \<and> named db_of w' g \<and> nsparks g = int (nat n)"
  using sql_engine.found_ward_named[OF assms(1,2) _ _ assms(3-6)] by (simp add: zero_gyre_def)

theorem found_ward_opens_books_witness:
  "\<exists>g w. found_ward mem_engine zero_gyre ''a'' 1 7 (0 * SPARKS_PER_WARD) mem_start = Some (0, g, w) \<and> books mem_file m_files 0 w g"
proof -
  obtain g w where f: "found_ward mem_engine zero_gyre ''a'' 1 7 (0 * SPARKS_PER_WARD) mem_start = Some (0, g, w)"
    using ex_founded by auto
  from found_ward_opens_books[OF mem.sql_engine_axioms f] f show ?thesis by simp
qed

text \<open>C3. A payment outside a cycle lands on both sides or on neither in the ward's memory: refused, it
  leaves the ward exactly as it was, and paid, it moves the amount from the treasury to that one purse,
  keeps the books and touches no database but the ward's and that Spark's.\<close>

theorem pay_alone_both_or_neither:
  assumes "sql_engine api db_of content" and "books db_of content n w g" and "k < length (g_sparks g)"
    and "pay_alone api g k amount None w = (e, g', w')"
  shows "(e \<noteq> 0 \<longrightarrow> g' = g) \<and> (e = 0 \<longrightarrow>
     g_treasury g' = g_treasury g - amount \<and> s_purse (g_sparks g' ! k) = s_purse (g_sparks g ! k) + amount
     \<and> (\<forall>j < length (g_sparks g). j \<noteq> k \<longrightarrow> g_sparks g' ! j = g_sparks g ! j)
     \<and> books db_of content n w' g' \<and> touches db_of content {g_ward g, s_db (g_sparks g ! k)} w w')"
proof (cases "e = 0")
  case True
  obtain grp w1 grp2 w2 where p: "pay api g grp k amount None w1 = (0, g', grp2, w2)"
    using assms(4) True unfolding pay_alone_def by (elim do_elims) auto
  have "g' = g\<lparr>g_treasury := g_treasury g - amount,
        g_sparks := (g_sparks g)[k := (g_sparks g ! k)\<lparr>s_purse := s_purse (g_sparks g ! k) + amount\<rparr>]\<rparr>"
    using p unfolding pay_def by (elim do_elims) auto
  then show ?thesis using True assms(3) sql_engine.pay_alone_books[OF assms(1) _ assms(2,3), of amount None g' w'] assms(4) by simp
next
  case False
  then show ?thesis using pay_alone_refused[OF assms(4)] by simp
qed

theorem pay_alone_both_or_neither_witness:
  "g_treasury (fst (snd (pay_alone mem_engine ex_gyre 0 50 None ex_world))) = 250
   \<and> fst (snd (pay_alone mem_engine ex_gyre 0 50 None (ex_world\<lparr>m_faults := [False, False, True]\<rparr>))) = ex_gyre"
proof -
  obtain e g w where p: "pay_alone mem_engine ex_gyre 0 50 None ex_world = (e, g, w)" by (metis prod_cases3)
  obtain e2 g2 w2 where q: "pay_alone mem_engine ex_gyre 0 50 None (ex_world\<lparr>m_faults := [False, False, True]\<rparr>) = (e2, g2, w2)"
    by (metis prod_cases3)
  have k: "0 < length (g_sparks ex_gyre)" by (simp add: ex_gyre_def)
  have "fst (pay_alone mem_engine ex_gyre 0 50 None ex_world) = 0"
    by (simp add: pay_alone_def pay_def engine_eval Let_def)
  moreover have "fst (pay_alone mem_engine ex_gyre 0 50 None (ex_world\<lparr>m_faults := [False, False, True]\<rparr>)) \<noteq> 0"
    by (simp add: pay_alone_def pay_def engine_eval Let_def)
  moreover have "books mem_file m_files 0 (ex_world\<lparr>m_faults := [False, False, True]\<rparr>) ex_gyre"
    using ex_books by (simp add: books_def linked_def mem_file_def spark_db_def held_sum_def)
  ultimately show ?thesis
    using pay_alone_both_or_neither[OF mem.sql_engine_axioms ex_books k p]
      pay_alone_both_or_neither[OF mem.sql_engine_axioms _ k q] p q by (simp add: ex_gyre_def)
qed

text \<open>C11. A migration that succeeds moves the books with the Spark: both wards stay balanced, the scrip
  issued by the two together is unchanged, and exactly one Spark changes sides.\<close>

theorem migrate_moves_books:
  assumes "sql_reader api db_of content" and "migrate api from to idx w = Some (0, from', to', w')"
    and "books db_of content 0 w from" and "books db_of content 0 w to" and "apart db_of w from to"
    and "c_int (held_of (spark_db db_of content w (g_sparks from ! nat idx)))"
  shows "books db_of content 0 w' from' \<and> books db_of content 0 w' to'
    \<and> g_issued from' + g_issued to' = g_issued from + g_issued to
    \<and> nsparks from' = nsparks from - 1 \<and> nsparks to' = nsparks to + 1"
  by (rule sql_reader.migrate_books[OF assms])

theorem migrate_moves_books_witness:
  "\<exists>a b w. migrate mem_engine ex_gyre ex_other 0 ex_world = Some (0, a, b, w) \<and> books mem_file m_files 0 w b \<and> nsparks b = 1"
proof -
  have "map_option fst (migrate mem_engine ex_gyre ex_other 0 ex_world) = Some 0"
    by (simp add: migrate_def engine_eval ex_other_def Let_def word_le_nat_alt)
  then obtain a b w where m: "migrate mem_engine ex_gyre ex_other 0 ex_world = Some (0, a, b, w)" by auto
  have "c_int (held_of (spark_db mem_file m_files ex_world (g_sparks ex_gyre ! nat 0)))"
    by (simp add: spark_db_def mem_file_def ex_gyre_def ex_world_def ex_spark_file_def held_of_def c_int_def)
  from migrate_moves_books[OF mem.sql_reader_axioms m ex_books ex_other_books ex_apart this] m
  show ?thesis by (auto simp: nsparks_def ex_other_def zero_gyre_def)
qed

text \<open>The check across wards: wards that each keep their books pass \<open>honest_across\<close> together.\<close>

theorem wards_honest_across:
  assumes "sql_reader api db_of content" and "\<forall>g \<in> set gs. books db_of content 0 w g"
    and "\<forall>g \<in> set gs. \<forall>s \<in> set (g_sparks g). c_int (s_purse s)"
  shows "fst (honest_across api gs w) = 0"
  using sql_reader.sum_held_books[OF assms(1), of gs w] assms(2,3) by (auto simp: honest_across_def)

theorem wards_honest_across_witness: "fst (honest_across mem_engine [ex_gyre, ex_other] ex_world) = 0"
  by (rule wards_honest_across[OF mem.sql_reader_axioms])
    (auto simp: ex_books ex_other_books, auto simp: ex_gyre_def ex_other_def zero_gyre_def c_int_def)

section \<open>A venue bought twice\<close>

text \<open>Before the first cycle a venue is marked built in cycle 0, which reads as not built: it is paid for and can be paid
  for again.\<close>

lemma venue_bought_twice:
  "case build_venue mem_engine ex_gyre 0 ex_world of (e, g, w) \<Rightarrow> e = 0 \<and> g_treasury g = 180
     \<and> (case build_venue mem_engine g 0 w of (e, g, w) \<Rightarrow> e = 0 \<and> g_treasury g = 60)"
  by (simp add: build_venue_def engine_eval Let_def)

section \<open>A cycle that fails\<close>

text \<open>A cycle whose last write fails rolls the databases back and keeps its changes in memory: the Spark's database
  still says nothing, and the ward remembers a purse of four.\<close>

lemma failed_cycle_keeps_its_changes:
  "map_option (\<lambda>(e, g, w). (e, g_treasury g, map s_purse (g_sparks g), map_option (map sr_purse) (tb_spark (m_files w ''a-spark-0.db''))))
     (cycle mem_engine 1 ex_gyre (ex_world\<lparr>m_faults := [False, False, False, False, False, False, False, False, False, False, False, False, False, False, False, False, False, False, False, False, False, False, False, True]\<rparr>)) = Some (1, 247, [4], Some [0])"
  by (simp add: cycle_eval group_abort_def upt_rec Let_def)

end
