(* ===== verification/Taskweft.thy ===== *)
theory Taskweft
  imports Fabric_Prelude
begin

text \<open>
  The search of the planner, \<open>src/thirdparty/taskweft/tw_planner.hpp\<close>, on a state of any type: the
  budget, the memo keys, the method scores, the witness scan and \<open>tw_seek_plan\<close> with its caches. A
  task is a call with integer arguments: the goals and the other values of taskweft are not modelled,
  since the domain of \<open>src/src/planner.cpp\<close> makes none. \<open>std::hash\<close> on strings is a parameter, and so
  is the wall clock: \<open>late t\<close> says that the deadline has passed when the budget reads the clock at its
  tick \<open>t\<close>.
\<close>

section \<open>Calls and domains\<close>

record tw_call =
  call_name :: string
  call_args :: "int list"

type_synonym 's action_fn = "'s \<Rightarrow> int list \<Rightarrow> 's option"
type_synonym 's method_fn = "'s \<Rightarrow> int list \<Rightarrow> tw_call list option"

record 's tw_domain =
  actions :: "(string \<times> 's action_fn) list"
  task_methods :: "(string \<times> 's method_fn list) list"

section \<open>The budget\<close>

definition TW_MAX_DEPTH :: nat where "TW_MAX_DEPTH = 400"
definition TW_BUDGET_SAMPLE_EVERY :: int where "TW_BUDGET_SAMPLE_EVERY = 256"

text \<open>What the calls of one search share: the budget, the two caches and the method scores.\<close>

record search =
  tick :: int
  fired :: bool
  fail_cache :: "u64 list"
  success_cache :: "(u64 \<times> tw_call list) list"
  method_stats :: "(u64 \<times> int list) list"

definition new_search :: search where
  "new_search = \<lparr>tick = 0, fired = False, fail_cache = [], success_cache = [], method_stats = []\<rparr>"

definition exceeded :: "(int \<Rightarrow> bool) \<Rightarrow> search \<Rightarrow> bool \<times> search" where
  "exceeded late c =
     (if fired c then (True, c) else
      let c = c\<lparr>tick := tick c + 1\<rparr> in
      if tick c smod TW_BUDGET_SAMPLE_EVERY \<noteq> 0 then (False, c)
      else if late (tick c) then (True, c\<lparr>fired := True\<rparr>) else (False, c))"

section \<open>Memo keys\<close>

definition tw_mix_hash :: "u64 \<Rightarrow> u64 \<Rightarrow> u64" where
  "tw_mix_hash h v = h XOR (v + 0x9e3779b97f4a7c15 + push_bit 6 h + drop_bit 2 h)"

text \<open>\<open>TwValue::stable_hash\<close> of an integer; its type is the third of the enumeration.\<close>

definition stable_hash :: "int \<Rightarrow> u64" where
  "stable_hash i = tw_mix_hash (tw_mix_hash 1469598103934665603 2) (word_of_int i)"

definition tw_task_hash :: "(string \<Rightarrow> u64) \<Rightarrow> tw_call \<Rightarrow> u64" where
  "tw_task_hash std_hash t =
     fold (\<lambda>a h. tw_mix_hash h (stable_hash a)) (call_args t) (tw_mix_hash 0x43554c4c (std_hash (call_name t)))"

definition tw_tasks_hash :: "(string \<Rightarrow> u64) \<Rightarrow> tw_call list \<Rightarrow> u64" where
  "tw_tasks_hash std_hash ts = fold (\<lambda>t h. tw_mix_hash h (tw_task_hash std_hash t)) ts 0x5441534b"

definition tw_search_key :: "(string \<Rightarrow> u64) \<Rightarrow> ('s \<Rightarrow> u64) \<Rightarrow> 's \<Rightarrow> tw_call list \<Rightarrow> u64" where
  "tw_search_key std_hash signature_hash s ts = tw_mix_hash (signature_hash s) (tw_tasks_hash std_hash ts)"

definition tw_method_call_hash :: "(string \<Rightarrow> u64) \<Rightarrow> tw_call \<Rightarrow> u64" where
  "tw_method_call_hash std_hash t =
     fold (\<lambda>a h. tw_mix_hash h (stable_hash a)) (call_args t) (tw_mix_hash 0x4d455448 (std_hash (call_name t)))"

section \<open>Method scores\<close>

definition scores_of :: "search \<Rightarrow> u64 \<Rightarrow> int list" where
  "scores_of c key = (case map_of (method_stats c) key of None \<Rightarrow> [] | Some l \<Rightarrow> l)"

definition score_at :: "int list \<Rightarrow> nat \<Rightarrow> int" where
  "score_at l i = (if i < length l then l ! i else 0)"

fun best_method :: "int list \<Rightarrow> nat \<Rightarrow> int \<Rightarrow> nat list \<Rightarrow> nat \<times> int" where
  "best_method l best score [] = (best, score)"
| "best_method l best score (i # is) =
     (if score_at l i > score then best_method l i (score_at l i) is else best_method l best score is)"

definition tw_order_methods :: "search \<Rightarrow> u64 \<Rightarrow> nat \<Rightarrow> nat list" where
  "tw_order_methods c key count =
     (let order = [0..<count] in
      if count \<le> 1 then order else
      let (best, score) = best_method (scores_of c key) 0 (score_at (scores_of c key) 0) [1..<count] in
      if score > 0 \<and> best \<noteq> 0 then order[0 := order ! best, best := order ! 0] else order)"

definition tw_note_method_result :: "u64 \<Rightarrow> nat \<Rightarrow> bool \<Rightarrow> search \<Rightarrow> search" where
  "tw_note_method_result key i success c =
     (let l = scores_of c key; l = l @ replicate (Suc i - length l) 0;
          v = max (- 64) (min 64 (l ! i + (if success then 2 else - 1))) in
      c\<lparr>method_stats := (key, l[i := v]) # method_stats c\<rparr>)"

section \<open>Probes\<close>

definition is_action :: "'s tw_domain \<Rightarrow> string \<Rightarrow> bool" where
  "is_action d n = (map_of (actions d) n \<noteq> None)"

definition tw_task_shallow_plausible :: "'s tw_domain \<Rightarrow> tw_call \<Rightarrow> bool" where
  "tw_task_shallow_plausible d t =
     (is_action d (call_name t) \<or> map_of (task_methods d) (call_name t) \<noteq> None)"

definition tw_prefix_plausible :: "'s tw_domain \<Rightarrow> tw_call list \<Rightarrow> bool" where
  "tw_prefix_plausible d ts = list_all (tw_task_shallow_plausible d) (take 2 ts)"

definition has_method :: "'s tw_domain \<Rightarrow> tw_call \<Rightarrow> bool" where
  "has_method d t = (case map_of (task_methods d) (call_name t) of None \<Rightarrow> False | Some ms \<Rightarrow> ms \<noteq> [])"

definition tw_witness_oracle_goal_reach :: "'s tw_domain \<Rightarrow> tw_call list \<Rightarrow> bool" where
  "tw_witness_oracle_goal_reach d ts =
     (let compound = filter (\<lambda>t. \<not> is_action d (call_name t)) ts;
          certified = length (filter (has_method d) compound);
          skipped = length (filter (\<lambda>t. \<not> has_method d t) compound) in
      certified > 0 \<or> skipped = 0)"

section \<open>The search\<close>

text \<open>The fast path: the walk over the actions at the head of the tasks. It ends out of time, with the
  whole plan, at a dead end, or at a compound task.\<close>

datatype 's walk = Out_Of_Time | Walked "tw_call list" | Dead_End | Branch 's "tw_call list" tw_call "tw_call list"

fun tw_walk :: "(int \<Rightarrow> bool) \<Rightarrow> 's tw_domain \<Rightarrow> 's \<Rightarrow> tw_call list \<Rightarrow> tw_call list \<Rightarrow> search \<Rightarrow> 's walk \<times> search" where
  "tw_walk late d s plan tasks c =
     (let (out, c) = exceeded late c in
      if out then (Out_Of_Time, c) else
      case tasks of [] \<Rightarrow> (Walked plan, c)
      | t # rest \<Rightarrow>
          if \<not> tw_witness_oracle_goal_reach d tasks then (Dead_End, c) else
          case map_of (actions d) (call_name t) of None \<Rightarrow> (Branch s plan t rest, c)
          | Some act \<Rightarrow> (case act s (call_args t) of None \<Rightarrow> (Dead_End, c)
              | Some s' \<Rightarrow> tw_walk late d s' (plan @ [t]) rest c))"

declare tw_walk.simps [simp del]

definition mark_fail :: "u64 \<Rightarrow> search \<Rightarrow> tw_call list option \<times> search" where
  "mark_fail key c = (None, if key \<noteq> 0 then c\<lparr>fail_cache := key # fail_cache c\<rparr> else c)"

definition mark_success :: "u64 \<Rightarrow> tw_call list \<Rightarrow> search \<Rightarrow> tw_call list option \<times> search" where
  "mark_success key plan c =
     (Some plan, if key \<noteq> 0 then c\<lparr>success_cache := (key, plan) # success_cache c\<rparr> else c)"

text \<open>The loop over the methods of a compound task. \<open>seek\<close> is the search one level down.\<close>

fun tw_try_methods :: "(string \<Rightarrow> u64) \<Rightarrow> 's tw_domain \<Rightarrow> ('s \<Rightarrow> tw_call list \<Rightarrow> search \<Rightarrow> tw_call list option \<times> search) \<Rightarrow>
    's \<Rightarrow> tw_call \<Rightarrow> tw_call list \<Rightarrow> 's method_fn list \<Rightarrow> u64 list \<Rightarrow> nat list \<Rightarrow> search \<Rightarrow> tw_call list option \<times> search" where
  "tw_try_methods std_hash d seek s t rest ms seen [] c = (None, c)"
| "tw_try_methods std_hash d seek s t rest ms seen (i # is) c =
     (case (ms ! i) s (call_args t) of
        None \<Rightarrow> tw_try_methods std_hash d seek s t rest ms seen is c
      | Some subs \<Rightarrow>
          let new_tasks = subs @ rest; sig = tw_tasks_hash std_hash new_tasks in
          if sig \<in> set seen then tw_try_methods std_hash d seek s t rest ms seen is c
          else if \<not> tw_prefix_plausible d new_tasks
          then tw_try_methods std_hash d seek s t rest ms (sig # seen) is c
          else
            let (r, c) = seek s new_tasks c; key = tw_method_call_hash std_hash t in
            case r of Some plan \<Rightarrow> (Some plan, tw_note_method_result key i True c)
            | None \<Rightarrow> tw_try_methods std_hash d seek s t rest ms (sig # seen) is (tw_note_method_result key i False c))"

text \<open>One call of the search. \<open>deeper\<close> is \<open>None\<close> when the fuel is spent.\<close>

definition tw_visit :: "(string \<Rightarrow> u64) \<Rightarrow> ('s \<Rightarrow> u64) \<Rightarrow> (int \<Rightarrow> bool) \<Rightarrow> 's tw_domain \<Rightarrow>
    ('s \<Rightarrow> tw_call list \<Rightarrow> search \<Rightarrow> tw_call list option \<times> search) option \<Rightarrow>
    's \<Rightarrow> tw_call list \<Rightarrow> search \<Rightarrow> tw_call list option \<times> search" where
  "tw_visit std_hash signature_hash late d deeper s tasks c =
     (let (out, c) = exceeded late c in
      if out then (None, c) else
      if tasks = [] then (Some [], c) else
      let key = tw_search_key std_hash signature_hash s tasks in
      if key \<in> set (fail_cache c) then (None, c) else
      case map_of (success_cache c) key of Some plan \<Rightarrow> (Some plan, c)
      | None \<Rightarrow>
          let (walk, c) = tw_walk late d s [] tasks c in
          case walk of
            Out_Of_Time \<Rightarrow> (None, c)
          | Walked plan \<Rightarrow> mark_success key plan c
          | Dead_End \<Rightarrow> mark_fail key c
          | Branch s plan t rest \<Rightarrow>
              (case deeper of None \<Rightarrow> mark_fail key c
               | Some seek \<Rightarrow>
                   (case map_of (task_methods d) (call_name t) of None \<Rightarrow> mark_fail key c
                    | Some ms \<Rightarrow>
                        let order = tw_order_methods c (tw_method_call_hash std_hash t) (length ms);
                            (r, c) = tw_try_methods std_hash d seek s t rest ms [] order c in
                        (case r of None \<Rightarrow> mark_fail key c | Some tail \<Rightarrow> mark_success key (plan @ tail) c))))"

primrec tw_seek_plan :: "(string \<Rightarrow> u64) \<Rightarrow> ('s \<Rightarrow> u64) \<Rightarrow> (int \<Rightarrow> bool) \<Rightarrow> 's tw_domain \<Rightarrow> nat \<Rightarrow>
    's \<Rightarrow> tw_call list \<Rightarrow> search \<Rightarrow> tw_call list option \<times> search" where
  "tw_seek_plan std_hash signature_hash late d 0 = tw_visit std_hash signature_hash late d None"
| "tw_seek_plan std_hash signature_hash late d (Suc fuel) =
     tw_visit std_hash signature_hash late d (Some (tw_seek_plan std_hash signature_hash late d fuel))"

section \<open>What the search returns can be carried out\<close>

fun run_plan :: "'s tw_domain \<Rightarrow> 's \<Rightarrow> tw_call list \<Rightarrow> 's option" where
  "run_plan d s [] = Some s"
| "run_plan d s (t # ts) =
     (case map_of (actions d) (call_name t) of None \<Rightarrow> None
      | Some act \<Rightarrow> (case act s (call_args t) of None \<Rightarrow> None | Some s' \<Rightarrow> run_plan d s' ts))"

lemma run_plan_append:
  "run_plan d s (ps @ qs) = (case run_plan d s ps of None \<Rightarrow> None | Some s' \<Rightarrow> run_plan d s' qs)"
  by (induction d s ps rule: run_plan.induct) (auto split: option.splits)

lemma exceeded_cache: "exceeded late c = (b, c') \<Longrightarrow> success_cache c' = success_cache c"
  by (auto simp: exceeded_def Let_def split: if_splits)

lemma note_cache [simp]: "success_cache (tw_note_method_result key i b c) = success_cache c"
  by (simp add: tw_note_method_result_def Let_def)

lemma walk_sound:
  "tw_walk late d s plan ts c = (w, c') \<Longrightarrow> run_plan d s0 plan = Some s \<Longrightarrow>
     success_cache c' = success_cache c \<and>
     (case w of Walked p \<Rightarrow> run_plan d s0 p \<noteq> None | Branch s' p t rest \<Rightarrow> run_plan d s0 p = Some s' | _ \<Rightarrow> True)"
proof (induction ts arbitrary: s plan c)
  case Nil
  then show ?case by (auto simp: tw_walk.simps split: prod.splits if_splits dest!: exceeded_cache)
next
  case (Cons t ts)
  from Cons.prems show ?case
    by (subst (asm) tw_walk.simps)
      (auto simp: run_plan_append split: prod.splits if_splits option.splits dest!: Cons.IH exceeded_cache)
qed

text \<open>The search on an empty success cache, one level down or at any depth: a failure leaves the cache
  empty, a success is a plan that can be carried out.\<close>

definition finds :: "'s tw_domain \<Rightarrow> ('s \<Rightarrow> tw_call list \<Rightarrow> search \<Rightarrow> tw_call list option \<times> search) \<Rightarrow> bool" where
  "finds d seek \<longleftrightarrow> (\<forall>s ts c r c'. seek s ts c = (r, c') \<longrightarrow> success_cache c = [] \<longrightarrow>
     (case r of None \<Rightarrow> success_cache c' = [] | Some p \<Rightarrow> run_plan d s p \<noteq> None))"

lemma findsD:
  "finds d seek \<Longrightarrow> seek s ts c = (r, c') \<Longrightarrow> success_cache c = [] \<Longrightarrow>
     (case r of None \<Rightarrow> success_cache c' = [] | Some p \<Rightarrow> run_plan d s p \<noteq> None)"
  by (auto simp: finds_def)

lemma try_finds:
  assumes f: "finds d seek"
  shows "tw_try_methods std_hash d seek s t rest ms seen is c = (r, c') \<Longrightarrow> success_cache c = [] \<Longrightarrow>
     (case r of None \<Rightarrow> success_cache c' = [] | Some p \<Rightarrow> run_plan d s p \<noteq> None)"
proof (induction "is" arbitrary: seen c)
  case Nil
  then show ?case by auto
next
  case (Cons i "is")
  show ?case
  proof (cases "(ms ! i) s (call_args t)")
    case None
    then show ?thesis using Cons by simp
  next
    case (Some subs)
    obtain r1 c1 where s1: "seek s (subs @ rest) c = (r1, c1)" by fastforce
    show ?thesis
      using Cons.prems Some s1 findsD [OF f s1 Cons.prems(2)]
      by (auto simp: Let_def split: if_splits option.splits dest!: Cons.IH)
  qed
qed

lemma visit_finds:
  assumes f: "\<And>seek. deeper = Some seek \<Longrightarrow> finds d seek"
  shows "finds d (tw_visit std_hash sig late d deeper)"
  unfolding finds_def
proof (intro allI impI)
  fix s ts c r c'
  assume v: "tw_visit std_hash sig late d deeper s ts c = (r, c')" and e: "success_cache c = []"
  obtain out c1 where c1: "exceeded late c = (out, c1)" by fastforce
  obtain w c2 where c2: "tw_walk late d s [] ts c1 = (w, c2)" by fastforce
  have e1: "success_cache c1 = []" using exceeded_cache [OF c1] e by simp
  note w = walk_sound [OF c2, where ?s0.0 = s, simplified, unfolded e1]
  show "case r of None \<Rightarrow> success_cache c' = [] | Some p \<Rightarrow> run_plan d s p \<noteq> None"
  proof (cases w)
    case (Branch s' p t rest)
    have p: "run_plan d s p = Some s'" and e2: "success_cache c2 = []" using w Branch by simp_all
    show ?thesis
      using v c1 c2 e1 Branch p e2
      by (auto simp: tw_visit_def Let_def mark_fail_def mark_success_def run_plan_append
          split: if_splits option.splits prod.splits dest!: try_finds [OF f])
  qed (use v c1 c2 e1 w in \<open>auto simp: tw_visit_def Let_def mark_fail_def mark_success_def split: if_splits\<close>)
qed

lemma seek_finds: "finds d (tw_seek_plan std_hash sig late d fuel)"
  by (induction fuel) (auto intro!: visit_finds)

end
