(* ===== verification/Planner_Search.thy ===== *)
theory Planner_Search
  imports Planner
begin

text \<open>
  The search of the Queen's planner on her domain. The nodes of the search are the task lists of
  \<open>posed\<close> on the states reached by buying venues; a list that begins with a venue the ward cannot buy is a
  dead end and every other one has an answer. The lemmas follow one search from its first call: how its
  context changes over a dead end (\<open>visit_dead\<close>), over the methods of a task (\<open>try_walks\<close>), and what
  each task decides, up to \<open>plan_venue_decides\<close>.
\<close>

section \<open>Quiet searches\<close>

definition calm :: "search \<Rightarrow> bool" where
  "calm c \<longleftrightarrow> \<not> fired c \<and> 0 \<le> tick c \<and> success_cache c = []
     \<and> (\<forall>(k, l) \<in> set (method_stats c). \<forall>x \<in> set l. x \<le> 0)"

lemma calm_new: "calm new_search"
  by (simp add: calm_def new_search_def)

text \<open>A budget that has not reached its first reading of the clock lets the search go on.\<close>

definition later :: "int \<Rightarrow> search \<Rightarrow> search" where
  "later k c = c\<lparr>tick := tick c + k\<rparr>"

lemma later_fields [simp]:
  "tick (later k c) = tick c + k" "fired (later k c) = fired c" "fail_cache (later k c) = fail_cache c"
  "success_cache (later k c) = success_cache c" "method_stats (later k c) = method_stats c"
  by (simp_all add: later_def)

lemma exceeded_calm:
  assumes "calm c" "0 \<le> k" "tick c + k + 1 < TW_BUDGET_SAMPLE_EVERY"
  shows "exceeded late (later k c) = (False, later (k + 1) c)"
  using assms
  by (simp add: exceeded_def calm_def TW_BUDGET_SAMPLE_EVERY_def Let_def c_arith later_def add.assoc)

lemma exceeded_first:
  "calm c \<Longrightarrow> tick c + 1 < TW_BUDGET_SAMPLE_EVERY \<Longrightarrow> exceeded late c = (False, later 1 c)"
  using exceeded_calm [of c 0] by (simp add: later_def)

lemma calm_later [simp]: "calm c \<Longrightarrow> 0 \<le> k \<Longrightarrow> calm (later k c)"
  by (simp add: calm_def)

lemma calm_fail [simp]: "calm c \<Longrightarrow> calm (c\<lparr>fail_cache := ks\<rparr>)"
  by (simp add: calm_def)

lemma scores_calm: "calm c \<Longrightarrow> x \<in> set (scores_of c key) \<Longrightarrow> x \<le> 0"
  by (cases "map_of (method_stats c) key") (auto simp: calm_def scores_of_def dest!: map_of_SomeD)

lemma score_at_calm: "calm c \<Longrightarrow> score_at (scores_of c key) i \<le> 0"
  using scores_calm [OF _ nth_mem] by (simp add: score_at_def)

lemma best_method_bounded:
  "(\<And>i. score_at l i \<le> 0) \<Longrightarrow> score \<le> 0 \<Longrightarrow> snd (best_method l best score is) \<le> 0"
  by (induction l best score "is" rule: best_method.induct) simp_all

lemma order_calm: "calm c \<Longrightarrow> tw_order_methods c key n = [0..<n]"
  using best_method_bounded [of "scores_of c key" "score_at (scores_of c key) 0" 0 "[1..<n]"] score_at_calm
  by (auto simp: tw_order_methods_def Let_def split: prod.splits)

lemma calm_note: 
  assumes "calm c"
  shows "calm (tw_note_method_result key i False c)"
proof -
  let ?l = "scores_of c key @ replicate (Suc i - length (scores_of c key)) 0"
  have nonpos: "\<forall>x \<in> set ?l. x \<le> 0" using scores_calm [OF assms] by auto
  have "i < length ?l" by simp
  then have "?l ! i \<le> 0" using nonpos nth_mem by blast
  then have "x \<le> 0" if "x \<in> set (?l[i := max (- 64) (min 64 (?l ! i + - 1))])" for x
    using that nonpos set_update_subset_insert [of ?l i] by (force simp: max_def min_def)
  then show ?thesis
    using assms by (simp add: calm_def tw_note_method_result_def Let_def)
qed

lemma note_fields [simp]:
  "tick (tw_note_method_result key i b c) = tick c" "fired (tw_note_method_result key i b c) = fired c"
  "fail_cache (tw_note_method_result key i b c) = fail_cache c"
  by (simp_all add: tw_note_method_result_def Let_def)

section \<open>The nodes of the search\<close>

definition earn_task :: tw_call where "earn_task = call ''make_the_ward_earn''"
definition keep_task :: tw_call where "keep_task = call ''keep_the_sparks_working''"
definition word_task :: tw_call where "word_task = call ''let_word_get_out''"

text \<open>The task lists the methods pose.\<close>

definition posed :: "tw_call list list" where
  "posed =
     [[call ''run_the_ward''], [commission_call DEN, keep_task], [earn_task], [commission_call RAILS, earn_task],
      [commission_call PLAZA, earn_task], [call ''hold''], [keep_task], [commission_call TAVERN, keep_task],
      [commission_call CHAPEL, keep_task], [word_task], [commission_call ROW]]"

text \<open>The states the search can be in: what buying venues makes of the first one.\<close>

inductive reached :: "plan_state \<Rightarrow> plan_state \<Rightarrow> bool" for s0 where
  start: "reached s0 s0"
| buy: "reached s0 s \<Longrightarrow> act_commission s [v] = Some s' \<Longrightarrow> reached s0 s'"

text \<open>A task list that begins with a venue the ward cannot buy is a dead end.\<close>

definition dead :: "plan_state \<Rightarrow> tw_call list \<Rightarrow> bool" where
  "dead s ts \<longleftrightarrow> (\<exists>v rest. ts = commission_call v # rest \<and> act_commission s [v] = None)"

abbreviation key_of :: "(string \<Rightarrow> u64) \<Rightarrow> plan_state \<Rightarrow> tw_call list \<Rightarrow> u64" where
  "key_of std_hash \<equiv> tw_search_key std_hash (plan_signature std_hash)"

text \<open>The memo keys are 64 bits wide. The caches answer wrongly only when a node that has an answer shares its key with a dead
  end of the same search; nothing in the repository or in C++ excludes it.\<close>

definition collides :: "(string \<Rightarrow> u64) \<Rightarrow> plan_state \<Rightarrow> bool" where
  "collides std_hash s0 \<longleftrightarrow>
     (\<exists>s ts s' ts'. reached s0 s \<and> ts \<in> set posed \<and> \<not> dead s ts \<and> reached s0 s' \<and> ts' \<in> set posed \<and> dead s' ts'
        \<and> key_of std_hash s ts = key_of std_hash s' ts')"

abbreviation no_collision :: "(string \<Rightarrow> u64) \<Rightarrow> plan_state \<Rightarrow> bool" where
  "no_collision std_hash s0 \<equiv> \<not> collides std_hash s0"

abbreviation seek :: "(string \<Rightarrow> u64) \<Rightarrow> (int \<Rightarrow> bool) \<Rightarrow> nat \<Rightarrow> plan_state \<Rightarrow> tw_call list \<Rightarrow> search \<Rightarrow> tw_call list option \<times> search" where
  "seek std_hash late \<equiv> tw_seek_plan std_hash (plan_signature std_hash) late ward_domain"

text \<open>A context of the search before its first success: only dead ends are in the fail cache.\<close>

definition sound :: "(string \<Rightarrow> u64) \<Rightarrow> plan_state \<Rightarrow> search \<Rightarrow> bool" where
  "sound std_hash s0 c \<longleftrightarrow> calm c \<and>
     (\<forall>k \<in> set (fail_cache c). \<exists>s ts. reached s0 s \<and> ts \<in> set posed \<and> dead s ts \<and> k = key_of std_hash s ts)"

lemma sound_new: "sound std_hash s0 new_search"
  by (simp add: sound_def calm_new) (simp add: new_search_def)

lemma sound_later [simp]: "sound std_hash s0 c \<Longrightarrow> 0 \<le> k \<Longrightarrow> sound std_hash s0 (later k c)"
  by (simp add: sound_def)

lemma sound_note: "sound std_hash s0 c \<Longrightarrow> sound std_hash s0 (tw_note_method_result key i False c)"
  by (simp add: sound_def calm_note)

lemma sound_calm [simp]: "sound std_hash s0 c \<Longrightarrow> calm c"
  by (simp add: sound_def)

lemma live_uncached:
  assumes "no_collision std_hash s0" "sound std_hash s0 c" "reached s0 s" "ts \<in> set posed" "\<not> dead s ts"
  shows "key_of std_hash s ts \<notin> set (fail_cache c)"
proof
  assume "key_of std_hash s ts \<in> set (fail_cache c)"
  then obtain s' ts' where n: "reached s0 s'" "ts' \<in> set posed" "dead s' ts'"
    and k: "key_of std_hash s ts = key_of std_hash s' ts'"
    using assms(2) by (auto simp: sound_def)
  then show False using assms(1,3-5) unfolding collides_def by blast
qed

lemma domain_calls [simp]:
  "map_of (actions ward_domain) ''commission'' = Some act_commission"
  "call_args (commission_call v) = [v]" "call_args (call n) = []" "call_name (call n) = n"
  "map_of (actions ward_domain) ''hold'' = Some act_hold"
  "call_name (commission_call v) = ''commission''"
  by (simp_all add: commission_call_def call_def ward_domain_def)

lemma domain_actions [simp]:
  "is_action ward_domain ''commission''" "is_action ward_domain ''hold''"
  by (simp_all add: is_action_def ward_domain_def)

lemma posed_probes:
  assumes "ts \<in> set posed"
  shows "tw_prefix_plausible ward_domain ts" "tw_witness_oracle_goal_reach ward_domain ts"
    "ts \<noteq> []"
  using assms
  by (auto simp: posed_def earn_task_def keep_task_def word_task_def tw_prefix_plausible_def
      tw_task_shallow_plausible_def is_action_def tw_witness_oracle_goal_reach_def Let_def has_method_def
      ward_domain_def call_def commission_call_def)

lemma oracle_tails:
  "tw_witness_oracle_goal_reach ward_domain [earn_task]" "tw_witness_oracle_goal_reach ward_domain [keep_task]"
  by (simp_all add: tw_witness_oracle_goal_reach_def Let_def has_method_def is_action_def
      ward_domain_def call_def earn_task_def keep_task_def)

lemma visit_dead:
  assumes c: "sound std_hash s0 c" and t: "tick c + 2 < TW_BUDGET_SAMPLE_EVERY"
    and n: "reached s0 s" "ts \<in> set posed" "dead s ts"
  obtains c' where "seek std_hash late f s ts c = (None, c')" "sound std_hash s0 c'" "tick c' \<le> tick c + 2"
proof -
  obtain v rest where ts: "ts = commission_call v # rest" "act_commission s [v] = None"
    using n(3) by (auto simp: dead_def)
  have probes: "tw_witness_oracle_goal_reach ward_domain ts" using posed_probes [OF n(2)] by simp
  have e1: "exceeded late c = (False, later 1 c)" by (rule exceeded_first) (use c t in simp_all)
  have e2: "exceeded late (later 1 c) = (False, later 2 c)"
    using exceeded_calm [of c 1] c t by simp
  have w: "tw_walk late ward_domain s [] ts (later 1 c) = (Dead_End, later 2 c)"
    using e2 probes ts by (simp add: tw_walk.simps)
  have empty: "success_cache c = []" using c by (simp add: sound_def calm_def)
  have s3: "sound std_hash s0 (later 2 c\<lparr>fail_cache := key_of std_hash s ts # fail_cache c\<rparr>)"
    using c n by (auto simp: sound_def)
  have v: "\<exists>c'. tw_visit std_hash (plan_signature std_hash) late ward_domain deeper s ts c = (None, c')
      \<and> sound std_hash s0 c' \<and> tick c' \<le> tick c + 2" for deeper
    using e1 w empty s3 ts(1) c by (auto simp: tw_visit_def Let_def mark_fail_def)
  then show ?thesis using that by (cases f) fastforce+
qed

section \<open>Answers\<close>

text \<open>\<open>answers n s ts v\<close>: with fuel \<open>n\<close> and time for \<open>n\<close> levels the search finds a plan for \<open>ts\<close> whose first
  commission is \<open>v\<close>. \<open>tried n s t v\<close> says the same of the loop over the methods of the compound task \<open>t\<close>.\<close>

definition enough :: "nat \<Rightarrow> search \<Rightarrow> bool" where
  "enough n c \<longleftrightarrow> tick c + 12 * int n + 4 < TW_BUDGET_SAMPLE_EVERY"

definition answers :: "(string \<Rightarrow> u64) \<Rightarrow> (int \<Rightarrow> bool) \<Rightarrow> plan_state \<Rightarrow> nat \<Rightarrow> plan_state \<Rightarrow> tw_call list \<Rightarrow> int \<Rightarrow> bool" where
  "answers std_hash late s0 n s ts v \<longleftrightarrow>
     (\<forall>f c. n \<le> f \<longrightarrow> sound std_hash s0 c \<longrightarrow> enough n c \<longrightarrow>
        (\<exists>p c'. seek std_hash late f s ts c = (Some p, c') \<and> \<not> fired c' \<and> first_commission p = v))"

definition tried :: "(string \<Rightarrow> u64) \<Rightarrow> (int \<Rightarrow> bool) \<Rightarrow> plan_state \<Rightarrow> nat \<Rightarrow> plan_state \<Rightarrow> tw_call \<Rightarrow> int \<Rightarrow> bool" where
  "tried std_hash late s0 n s t v \<longleftrightarrow>
     (\<exists>ms. map_of (task_methods ward_domain) (call_name t) = Some ms \<and>
       (\<forall>f c. n \<le> f \<longrightarrow> sound std_hash s0 c \<longrightarrow> tick c + 12 * int n + 12 < TW_BUDGET_SAMPLE_EVERY \<longrightarrow>
        (\<exists>p c'. tw_try_methods std_hash ward_domain (seek std_hash late f) s t [] ms [] [0..<length ms] c = (Some p, c')
           \<and> \<not> fired c' \<and> first_commission p = v)))"

definition passes :: "plan_state \<Rightarrow> int list \<Rightarrow> plan_state method_fn \<Rightarrow> bool" where
  "passes s args m \<longleftrightarrow> (case m s args of None \<Rightarrow> True | Some subs \<Rightarrow> dead s subs \<and> subs \<in> set posed)"

lemma try_walks:
  assumes nc: "no_collision std_hash s0" and s: "reached s0 s"
    and live: "(ms ! i) s (call_args t) = Some subs" "subs \<in> set posed" "\<not> dead s subs"
    and ans: "answers std_hash late s0 n s subs v" and f: "n \<le> f"
  shows "\<lbrakk>\<forall>j \<in> set is. passes s (call_args t) (ms ! j); sound std_hash s0 c;
     tick c + 2 * int (length is) + 12 * int n + 4 < TW_BUDGET_SAMPLE_EVERY;
     \<forall>k \<in> set seen. \<exists>ts \<in> set posed. dead s ts \<and> k = tw_tasks_hash std_hash ts\<rbrakk> \<Longrightarrow>
     \<exists>p c'. tw_try_methods std_hash ward_domain (seek std_hash late f) s t [] ms seen (is @ i # is') c = (Some p, c')
       \<and> \<not> fired c' \<and> first_commission p = v"
proof (induction "is" arbitrary: c seen)
  case Nil
  have "tw_tasks_hash std_hash subs \<notin> set seen"
  proof
    assume "tw_tasks_hash std_hash subs \<in> set seen"
    then obtain ts where ts: "ts \<in> set posed" "dead s ts" "tw_tasks_hash std_hash subs = tw_tasks_hash std_hash ts"
      using Nil.prems(4) by auto
    then have "key_of std_hash s subs = key_of std_hash s ts" by (simp add: tw_search_key_def)
    then show False using nc s live(2,3) ts(1,2) unfolding collides_def by blast
  qed
  moreover obtain p c' where "seek std_hash late f s subs c = (Some p, c')" "\<not> fired c'" "first_commission p = v"
    using ans f Nil.prems(2,3) unfolding answers_def enough_def by fastforce
  ultimately show ?case using live(1) posed_probes(1) [OF live(2)] by (simp add: Let_def)
next
  case (Cons j js)
  have rest: "\<forall>k \<in> set js. passes s (call_args t) (ms ! k)" using Cons.prems(1) by simp
  show ?case
  proof (cases "(ms ! j) s (call_args t)")
    case None
    then show ?thesis using Cons.IH [OF rest Cons.prems(2) _ Cons.prems(4)] Cons.prems(3) by simp
  next
    case (Some ts)
    then have ts: "dead s ts" "ts \<in> set posed" using Cons.prems(1) by (auto simp: passes_def)
    obtain c1 where c1: "seek std_hash late f s ts c = (None, c1)" "sound std_hash s0 c1" "tick c1 \<le> tick c + 2"
      using visit_dead [OF Cons.prems(2) _ s ts(2,1)] Cons.prems(3) by auto
    let ?c2 = "tw_note_method_result (tw_method_call_hash std_hash t) j False c1"
    show ?thesis
    proof (cases "tw_tasks_hash std_hash ts \<in> set seen")
      case True
      then show ?thesis
        using Cons.IH [OF rest Cons.prems(2) _ Cons.prems(4)] Cons.prems(3) Some by (simp add: Let_def)
    next
      case False
      then show ?thesis
        using Cons.IH [OF rest sound_note [OF c1(2)], of "tw_method_call_hash std_hash t" j "tw_tasks_hash std_hash ts # seen"]
          Cons.prems(3,4) Some c1 ts posed_probes(1) [OF ts(2)] by (auto simp: Let_def)
    qed
  qed
qed

lemma triedI:
  assumes nc: "no_collision std_hash s0" and s: "reached s0 s"
    and ms: "map_of (task_methods ward_domain) (call_name t) = Some (ms1 @ m # ms2)" and few: "length ms1 \<le> 4"
    and pass: "\<forall>m' \<in> set ms1. passes s (call_args t) m'"
    and live: "m s (call_args t) = Some subs" "subs \<in> set posed" "\<not> dead s subs"
    and ans: "answers std_hash late s0 n s subs v"
  shows "tried std_hash late s0 n s t v"
proof -
  let ?ms = "ms1 @ m # ms2" and ?i = "length ms1"
  have order: "[0..<length ?ms] = [0..<?i] @ ?i # [Suc ?i..<length ?ms]"
    using upt_add_eq_append [of 0 ?i "Suc (length ms2)"] upt_conv_Cons [of ?i "length ?ms"] by simp
  have "\<exists>p c'. tw_try_methods std_hash ward_domain (seek std_hash late f) s t [] ?ms [] ([0..<?i] @ ?i # [Suc ?i..<length ?ms]) c
       = (Some p, c') \<and> \<not> fired c' \<and> first_commission p = v"
    if "n \<le> f" "sound std_hash s0 c" "tick c + 12 * int n + 12 < TW_BUDGET_SAMPLE_EVERY" for f c
    by (rule try_walks [OF nc s _ live(2,3) ans that(1) _ that(2)])
      (use that(3) few pass live(1) in \<open>auto simp: nth_append\<close>)
  then show ?thesis unfolding tried_def using ms order by (intro exI [of _ ?ms]) simp
qed

text \<open>The three kinds of node that have an answer: a compound task, a venue the ward can buy with the task
  that goes on after it, and the two lists of actions.\<close>

lemma branch_answers:
  assumes nc: "no_collision std_hash s0" and s: "reached s0 s" and ts: "ts \<in> set posed" "\<not> dead s ts"
    and walk: "\<And>c. calm c \<Longrightarrow> tick c + 3 < TW_BUDGET_SAMPLE_EVERY \<Longrightarrow>
      tw_walk late ward_domain s [] ts (later 1 c) = (Branch s' plan t [], later k c)" and k: "0 \<le> k" "k \<le> 3"
    and tr: "tried std_hash late s0 n s' t u" and first: "\<And>p. first_commission p = u \<Longrightarrow> first_commission (plan @ p) = v"
  shows "answers std_hash late s0 (Suc n) s ts v"
  unfolding answers_def
proof (intro allI impI)
  fix f c assume f: "Suc n \<le> f" and c: "sound std_hash s0 c" and e: "enough (Suc n) c"
  obtain f' where f': "f = Suc f'" "n \<le> f'" using f by (cases f) auto
  have e1: "exceeded late c = (False, later 1 c)"
    by (rule exceeded_first) (use c e in \<open>simp_all add: enough_def\<close>)
  have w: "tw_walk late ward_domain s [] ts (later 1 c) = (Branch s' plan t [], later k c)"
    by (rule walk) (use c e in \<open>simp_all add: enough_def\<close>)
  have c2: "sound std_hash s0 (later k c)" using c k by simp
  obtain ms p c' where ms: "map_of (task_methods ward_domain) (call_name t) = Some ms"
    and r: "tw_try_methods std_hash ward_domain (seek std_hash late f') s' t [] ms [] [0..<length ms] (later k c) = (Some p, c')"
      "\<not> fired c'" "first_commission p = u"
    using tr f'(2) c2 e k unfolding tried_def enough_def by fastforce
  show "\<exists>p c'. seek std_hash late f s ts c = (Some p, c') \<and> \<not> fired c' \<and> first_commission p = v"
    using e1 w ms r(1,2) first [OF r(3)] f'(1) live_uncached [OF nc c s ts] order_calm [of "later k c"] c k posed_probes(3) [OF ts(1)]
    by (simp add: tw_visit_def Let_def mark_success_def sound_def calm_def)
qed

lemma compound_answers:
  assumes nc: "no_collision std_hash s0" and s: "reached s0 s" and t: "[t] \<in> set posed" "\<not> is_action ward_domain (call_name t)"
    and tr: "tried std_hash late s0 n s t v"
  shows "answers std_hash late s0 (Suc n) s [t] v"
proof (rule branch_answers [OF nc s t(1) _ _ _ _ tr, where plan = "[]" and k = 2])
  show "\<not> dead s [t]" using t(2) by (auto simp: dead_def)
  show "tw_walk late ward_domain s [] [t] (later 1 c) = (Branch s [] t [], later 2 c)"
    if "calm c" "tick c + 3 < TW_BUDGET_SAMPLE_EVERY" for c
    using that exceeded_calm [of c 1] posed_probes(2) [OF t(1)] t(2) by (simp add: tw_walk.simps is_action_def)
qed simp_all

lemma buy_answers:
  assumes nc: "no_collision std_hash s0" and s: "reached s0 s" and t: "[commission_call v, t] \<in> set posed" "[t] \<in> set posed"
    "\<not> is_action ward_domain (call_name t)" and buy: "act_commission s [v] = Some s'"
    and tr: "tried std_hash late s0 n s' t u"
  shows "answers std_hash late s0 (Suc n) s [commission_call v, t] v"
proof (rule branch_answers [OF nc s t(1) _ _ _ _ tr, where plan = "[commission_call v]" and k = 3])
  show "\<not> dead s [commission_call v, t]" using buy by (auto simp: dead_def commission_call_def)
  show "tw_walk late ward_domain s [] [commission_call v, t] (later 1 c) = (Branch s' [commission_call v] t [], later 3 c)"
    if "calm c" "tick c + 3 < TW_BUDGET_SAMPLE_EVERY" for c
    using that exceeded_calm [of c 1] exceeded_calm [of c 2] posed_probes(2) [OF t(1)] posed_probes(2) [OF t(2)] t(3) buy
    by (simp add: tw_walk.simps is_action_def)
qed simp_all

lemma action_answers:
  assumes nc: "no_collision std_hash s0" and s: "reached s0 s" and a: "[a] \<in> set posed"
    "map_of (actions ward_domain) (call_name a) = Some act" "act s (call_args a) = Some s'" and alive: "\<not> dead s [a]"
  shows "answers std_hash late s0 0 s [a] (first_commission [a])"
  unfolding answers_def
proof (intro allI impI)
  fix f c assume c: "sound std_hash s0 c" and e: "enough 0 c"
  have e': "exceeded late c = (False, later 1 c)" "exceeded late (later 1 c) = (False, later 2 c)"
    "exceeded late (later 2 c) = (False, later 3 c)"
    using exceeded_first [of c] exceeded_calm [of c 1] exceeded_calm [of c 2] c e by (simp_all add: enough_def)
  have w: "tw_walk late ward_domain s [] [a] (later 1 c) = (Walked [a], later 3 c)"
    using e'(2,3) posed_probes(2) [OF a(1)] a(2,3) by (simp add: tw_walk.simps)
  have "\<exists>p c'. tw_visit std_hash (plan_signature std_hash) late ward_domain deeper s [a] c = (Some p, c')
      \<and> \<not> fired c' \<and> first_commission p = first_commission [a]" for deeper
    using e'(1) w live_uncached [OF nc c s a(1) alive] c
    by (simp add: tw_visit_def Let_def mark_success_def sound_def calm_def)
  then show "\<exists>p c'. seek std_hash late f s [a] c = (Some p, c') \<and> \<not> fired c' \<and> first_commission p = first_commission [a]"
    by (cases f) simp_all
qed

lemma hold_posed [simp]: "[call ''hold''] \<in> set posed"
  by (simp add: posed_def)

lemma hold_answers:
  assumes "no_collision std_hash s0" "reached s0 s"
  shows "answers std_hash late s0 0 s [call ''hold''] (- 1)"
proof -
  have "\<not> dead s [call ''hold'']" by (simp add: dead_def commission_call_def call_def)
  from action_answers [OF assms hold_posed _ _ this, of act_hold s late] show ?thesis by (simp add: act_hold_def)
qed

lemma answers_mono: "answers std_hash late s0 n s ts v \<Longrightarrow> n \<le> n' \<Longrightarrow> answers std_hash late s0 n' s ts v"
  unfolding answers_def enough_def by (smt (verit) int_ops(7) le_trans of_nat_le_iff)

section \<open>What each task decides\<close>

definition ready :: "plan_state \<Rightarrow> bool" where
  "ready s \<longleftrightarrow> length (p_built s) = 6 \<and> p_cycle s \<noteq> 0"

definition bought :: "plan_state \<Rightarrow> int \<Rightarrow> plan_state" where
  "bought s v = s\<lparr>p_built := (p_built s)[nat v := p_cycle s], p_treasury := p_treasury s - nested (p_cost s) v\<rparr>"

lemma commission_iff:
  "0 \<le> v \<Longrightarrow> v < 6 \<Longrightarrow> act_commission s [v] = (if can_buy s v then Some (bought s v) else None)"
  by (auto simp: act_commission_def can_buy_def bought_def PLAN_NVENUES_def)

lemma dead_iff: "0 \<le> v \<Longrightarrow> v < 6 \<Longrightarrow> dead s (commission_call v # ts) \<longleftrightarrow> \<not> can_buy s v"
  by (auto simp: dead_def commission_iff) (auto simp: commission_call_def commission_iff)

lemma dead_call [simp]: "n \<noteq> ''commission'' \<Longrightarrow> \<not> dead s (call n # ts)"
  by (auto simp: dead_def commission_call_def call_def)

lemma ready_bought [simp]: "ready s \<Longrightarrow> ready (bought s v)"
  by (simp add: ready_def bought_def)

lemma built_bought [simp]:
  "ready s \<Longrightarrow> 0 \<le> u \<Longrightarrow> u < 6 \<Longrightarrow> 0 \<le> v \<Longrightarrow> v < 6 \<Longrightarrow> is_built (bought s v) u \<longleftrightarrow> is_built s u \<or> u = v"
  by (auto simp: ready_def bought_def is_built_def nested_def nth_list_update)

lemma reached_bought: "reached s0 s \<Longrightarrow> can_buy s v \<Longrightarrow> 0 \<le> v \<Longrightarrow> v < 6 \<Longrightarrow> reached s0 (bought s v)"
  using reached.buy [of s0 s v "bought s v"] by (simp add: commission_iff)

lemma compound_tasks [simp]:
  "[earn_task] \<in> set posed" "[keep_task] \<in> set posed" "[word_task] \<in> set posed" "[call ''run_the_ward''] \<in> set posed"
  "\<not> is_action ward_domain ''make_the_ward_earn''" "\<not> is_action ward_domain ''keep_the_sparks_working''"
  "\<not> is_action ward_domain ''let_word_get_out''" "\<not> is_action ward_domain ''run_the_ward''"
  by (simp_all add: posed_def earn_task_def keep_task_def word_task_def is_action_def ward_domain_def call_def)

lemma posed_commissions [simp]:
  "[commission_call DEN, keep_task] \<in> set posed" "[commission_call TAVERN, keep_task] \<in> set posed"
  "[commission_call CHAPEL, keep_task] \<in> set posed" "[commission_call RAILS, earn_task] \<in> set posed"
  "[commission_call PLAZA, earn_task] \<in> set posed" "[commission_call ROW] \<in> set posed"
  by (simp_all add: posed_def)

lemma task_names [simp]:
  "call_name earn_task = ''make_the_ward_earn''" "call_name keep_task = ''keep_the_sparks_working''"
  "call_name word_task = ''let_word_get_out''" "call_args earn_task = []" "call_args keep_task = []" "call_args word_task = []"
  by (simp_all add: earn_task_def keep_task_def word_task_def)

lemma ward_methods:
  "map_of (task_methods ward_domain) ''run_the_ward'' = Some [m_repair_first, m_earn_first]"
  "map_of (task_methods ward_domain) ''make_the_ward_earn'' = Some [m_rails, m_plaza, m_save_to_earn, m_then_the_sparks]"
  "map_of (task_methods ward_domain) ''keep_the_sparks_working'' =
     Some [m_den, m_tavern, m_chapel, m_save_for_sparks, m_then_the_word]"
  "map_of (task_methods ward_domain) ''let_word_get_out'' = Some [m_row, m_wait]"
  by (simp_all add: ward_domain_def)

lemmas method_defs = m_rails_def m_plaza_def m_save_to_earn_def m_then_the_sparks_def m_den_def m_tavern_def
  m_chapel_def m_save_for_sparks_def m_then_the_word_def m_row_def m_wait_def m_repair_first_def m_earn_first_def
  next_of_def earn_task_def [symmetric] keep_task_def [symmetric] word_task_def [symmetric]

lemmas venue_range = TAVERN_def DEN_def RAILS_def PLAZA_def CHAPEL_def ROW_def

lemma dead_tasks [simp]: "\<not> dead s (earn_task # ts)" "\<not> dead s (keep_task # ts)" "\<not> dead s (word_task # ts)"
  by (simp_all add: earn_task_def keep_task_def word_task_def)

lemma dead_venues [simp]:
  "dead s (commission_call DEN # ts) \<longleftrightarrow> \<not> can_buy s DEN" "dead s (commission_call TAVERN # ts) \<longleftrightarrow> \<not> can_buy s TAVERN"
  "dead s (commission_call CHAPEL # ts) \<longleftrightarrow> \<not> can_buy s CHAPEL" "dead s (commission_call RAILS # ts) \<longleftrightarrow> \<not> can_buy s RAILS"
  "dead s (commission_call PLAZA # ts) \<longleftrightarrow> \<not> can_buy s PLAZA" "dead s (commission_call ROW # ts) \<longleftrightarrow> \<not> can_buy s ROW"
  by (rule dead_iff; simp add: venue_range)+

lemma word_tried:
  assumes nc: "no_collision std_hash s0" and s: "reached s0 s"
  shows "tried std_hash late s0 0 s word_task (word_choice s)"
proof (cases "can_buy s ROW \<and> p_room_to_grow s > 0")
  case True
  then have b: "\<not> is_built s ROW" "act_commission s [ROW] = Some (bought s ROW)"
    by (simp_all add: can_buy_def commission_iff venue_range)
  show ?thesis
  proof (rule triedI [OF nc s, where ?ms1.0 = "[]" and m = m_row and ?ms2.0 = "[m_wait]" and subs = "[commission_call ROW]"])
    show "answers std_hash late s0 0 s [commission_call ROW] (word_choice s)"
      using action_answers [OF nc s, of "commission_call ROW" act_commission "bought s ROW" late] b True
      by (simp add: word_choice_def)
  qed (use True b in \<open>simp_all add: ward_methods method_defs\<close>)
next
  case False
  show ?thesis
  proof (rule triedI [OF nc s, where ?ms1.0 = "[m_row]" and m = m_wait and ?ms2.0 = "[]" and subs = "[call ''hold'']"])
    show "answers std_hash late s0 0 s [call ''hold''] (word_choice s)"
      using hold_answers [OF nc s, of late] False by (auto simp: word_choice_def)
  qed (use False in \<open>auto simp add: ward_methods method_defs passes_def\<close>)
qed

text \<open>A task that buys the first venue of a list it can, holds while one of the list is missing, and hands on
  when they are all built.\<close>

definition missing :: "plan_state \<Rightarrow> int list \<Rightarrow> nat" where
  "missing s vs = length (filter (\<lambda>v. \<not> is_built s v) vs)"

lemma missing_bought:
  assumes "ready s" "can_buy s v" "v \<in> set vs" "\<forall>u \<in> set vs. 0 \<le> u \<and> u < 6"
  shows "missing (bought s v) vs < missing s vs"
proof -
  have v: "0 \<le> v" "v < 6" "\<not> is_built s v" using assms by (auto simp: can_buy_def)
  have "filter (\<lambda>u. \<not> is_built (bought s v) u) vs = filter (\<lambda>u. u \<noteq> v) (filter (\<lambda>u. \<not> is_built s u) vs)"
    unfolding filter_filter by (rule filter_cong) (use assms v in auto)
  moreover have "v \<in> set (filter (\<lambda>u. \<not> is_built s u) vs)" using assms(3) v(3) by simp
  ultimately show ?thesis
    unfolding missing_def using length_filter_less [of v "filter (\<lambda>u. \<not> is_built s u) vs" "\<lambda>u. u \<noteq> v"] by simp
qed

lemma keep_tried:
  assumes nc: "no_collision std_hash s0"
  shows "reached s0 s \<Longrightarrow> ready s \<Longrightarrow> missing s [DEN, TAVERN, CHAPEL] \<le> k \<Longrightarrow>
    tried std_hash late s0 (k + 1) s keep_task (keep_choice s)"
proof (induction k arbitrary: s rule: less_induct)
  case (less k)
  note s = less.prems(1)
  have buy: "answers std_hash late s0 (k + 1) s [commission_call v, keep_task] v"
    if v: "can_buy s v" "v \<in> {DEN, TAVERN, CHAPEL}" for v
  proof -
    have r: "0 \<le> v" "v < 6" "[commission_call v, keep_task] \<in> set posed" using v by (auto simp: venue_range) (auto simp: posed_def venue_range)
    have "missing (bought s v) [DEN, TAVERN, CHAPEL] < missing s [DEN, TAVERN, CHAPEL]"
      by (rule missing_bought) (use less.prems v in \<open>auto simp: venue_range\<close>)
    then have "missing (bought s v) [DEN, TAVERN, CHAPEL] \<le> k - 1" "k > 0" using less.prems(3) by simp_all
    then have tr: "tried std_hash late s0 k (bought s v) keep_task (keep_choice (bought s v))"
      using less.IH [of "k - 1" "bought s v"] reached_bought [OF s v(1) r(1,2)] less.prems(2) by simp
    then show ?thesis
      using buy_answers [OF nc s r(3) _ _ _ tr] r v by (simp add: commission_iff)
  qed
  consider "can_buy s DEN" | "\<not> can_buy s DEN" "can_buy s TAVERN"
    | "\<not> can_buy s DEN" "\<not> can_buy s TAVERN" "can_buy s CHAPEL"
    | (hold) "\<forall>v \<in> {DEN, TAVERN, CHAPEL}. \<not> can_buy s v" "\<not> list_all (is_built s) [DEN, TAVERN, CHAPEL]"
    | (on) "list_all (is_built s) [DEN, TAVERN, CHAPEL]" "\<forall>v \<in> {DEN, TAVERN, CHAPEL}. \<not> can_buy s v"
    by blast
  then show ?case
  proof cases
    case 1
    show ?thesis
      by (rule triedI [OF nc s, where ?ms1.0 = "[]" and m = m_den and subs = "[commission_call DEN, keep_task]"])
        (use 1 buy [of DEN] in \<open>auto simp: ward_methods method_defs passes_def can_buy_def keep_choice_def\<close>)
  next
    case 2
    show ?thesis
      by (rule triedI [OF nc s, where ?ms1.0 = "[m_den]" and m = m_tavern and subs = "[commission_call TAVERN, keep_task]"])
        (use 2 buy [of TAVERN] in \<open>auto simp: ward_methods method_defs passes_def can_buy_def keep_choice_def\<close>)
  next
    case 3
    show ?thesis
      by (rule triedI [OF nc s, where ?ms1.0 = "[m_den, m_tavern]" and m = m_chapel and subs = "[commission_call CHAPEL, keep_task]"])
        (use 3 buy [of CHAPEL] in \<open>auto simp: ward_methods method_defs passes_def can_buy_def keep_choice_def\<close>)
  next
    case hold
    show ?thesis
      by (rule triedI [OF nc s, where ?ms1.0 = "[m_den, m_tavern, m_chapel]" and m = m_save_for_sparks and subs = "[call ''hold'']"])
        (use hold answers_mono [OF hold_answers [OF nc s]] in \<open>auto simp: ward_methods method_defs passes_def keep_choice_def\<close>)
  next
    case on
    have "answers std_hash late s0 (k + 1) s [word_task] (word_choice s)"
      using answers_mono [OF compound_answers [OF nc s _ _ word_tried [OF nc s]]] by simp
    then show ?thesis
      by (intro triedI [OF nc s, where ?ms1.0 = "[m_den, m_tavern, m_chapel, m_save_for_sparks]" and m = m_then_the_word and subs = "[word_task]"])
        (use on in \<open>auto simp: ward_methods method_defs passes_def keep_choice_def\<close>)
  qed
qed

lemma earn_tried:
  assumes nc: "no_collision std_hash s0"
  shows "reached s0 s \<Longrightarrow> ready s \<Longrightarrow> missing s [RAILS, PLAZA] \<le> k \<Longrightarrow>
    tried std_hash late s0 (k + 5) s earn_task (earn_choice s)"
proof (induction k arbitrary: s rule: less_induct)
  case (less k)
  note s = less.prems(1)
  have buy: "answers std_hash late s0 (k + 5) s [commission_call v, earn_task] v"
    if v: "can_buy s v" "v \<in> {RAILS, PLAZA}" for v
  proof -
    have r: "0 \<le> v" "v < 6" "[commission_call v, earn_task] \<in> set posed" using v by (auto simp: venue_range) (auto simp: posed_def venue_range)
    have "missing (bought s v) [RAILS, PLAZA] < missing s [RAILS, PLAZA]"
      by (rule missing_bought) (use less.prems v in \<open>auto simp: venue_range\<close>)
    then have "missing (bought s v) [RAILS, PLAZA] \<le> k - 1" "k > 0" using less.prems(3) by simp_all
    then have tr: "tried std_hash late s0 (k + 4) (bought s v) earn_task (earn_choice (bought s v))"
      using less.IH [of "k - 1" "bought s v"] reached_bought [OF s v(1) r(1,2)] less.prems(2) by (cases k) (simp_all add: add.commute)
    then show ?thesis
      using buy_answers [OF nc s r(3) _ _ _ tr] r v by (simp add: commission_iff add.commute)
  qed
  consider "can_buy s RAILS" | "\<not> can_buy s RAILS" "can_buy s PLAZA"
    | (hold) "\<forall>v \<in> {RAILS, PLAZA}. \<not> can_buy s v" "\<not> list_all (is_built s) [RAILS, PLAZA]"
    | (on) "list_all (is_built s) [RAILS, PLAZA]" "\<forall>v \<in> {RAILS, PLAZA}. \<not> can_buy s v"
    by blast
  then show ?case
  proof cases
    case 1
    show ?thesis
      by (rule triedI [OF nc s, where ?ms1.0 = "[]" and m = m_rails and subs = "[commission_call RAILS, earn_task]"])
        (use 1 buy [of RAILS] in \<open>auto simp: ward_methods method_defs passes_def can_buy_def earn_choice_def\<close>)
  next
    case 2
    show ?thesis
      by (rule triedI [OF nc s, where ?ms1.0 = "[m_rails]" and m = m_plaza and subs = "[commission_call PLAZA, earn_task]"])
        (use 2 buy [of PLAZA] in \<open>auto simp: ward_methods method_defs passes_def can_buy_def earn_choice_def\<close>)
  next
    case hold
    show ?thesis
      by (rule triedI [OF nc s, where ?ms1.0 = "[m_rails, m_plaza]" and m = m_save_to_earn and subs = "[call ''hold'']"])
        (use hold answers_mono [OF hold_answers [OF nc s]] in \<open>auto simp: ward_methods method_defs passes_def earn_choice_def\<close>)
  next
    case on
    have "missing s [DEN, TAVERN, CHAPEL] \<le> 3" by (simp add: missing_def)
    then have "answers std_hash late s0 (k + 5) s [keep_task] (keep_choice s)"
      using answers_mono [OF compound_answers [OF nc s _ _ keep_tried [OF nc s less.prems(2)]], of 3 "k + 5"] by simp
    then show ?thesis
      by (intro triedI [OF nc s, where ?ms1.0 = "[m_rails, m_plaza, m_save_to_earn]" and m = m_then_the_sparks and subs = "[keep_task]"])
        (use on in \<open>auto simp: ward_methods method_defs passes_def earn_choice_def\<close>)
  qed
qed

lemma run_tried:
  assumes nc: "no_collision std_hash s0" and s: "reached s0 s" and r: "ready s"
  shows "tried std_hash late s0 8 s (call ''run_the_ward'') (decide s)"
proof (cases "can_buy s DEN \<and> p_worst_wear s \<ge> WEAR_THAT_CANNOT_WAIT")
  case True
  have tr: "tried std_hash late s0 4 (bought s DEN) keep_task (keep_choice (bought s DEN))"
    using keep_tried [OF nc, of "bought s DEN" 3 late] reached_bought [OF s] True r by (simp add: missing_def venue_range)
  have b: "act_commission s [DEN] = Some (bought s DEN)" using True by (simp add: commission_iff venue_range)
  have "answers std_hash late s0 8 s [commission_call DEN, keep_task] DEN"
    using answers_mono [OF buy_answers [OF nc s _ _ _ b tr], where n' = 8] by simp
  then show ?thesis
    by (intro triedI [OF nc s, where ?ms1.0 = "[]" and m = m_repair_first and subs = "[commission_call DEN, keep_task]"])
      (use True in \<open>auto simp: ward_methods method_defs passes_def can_buy_def decide_def\<close>)
next
  case False
  have "missing s [RAILS, PLAZA] \<le> 2" by (simp add: missing_def)
  then have "answers std_hash late s0 8 s [earn_task] (earn_choice s)"
    using compound_answers [OF nc s _ _ earn_tried [OF nc s r], of 2] by simp
  then show ?thesis
    by (intro triedI [OF nc s, where ?ms1.0 = "[m_repair_first]" and m = m_earn_first and subs = "[earn_task]"])
      (use False in \<open>auto simp: ward_methods method_defs passes_def decide_def\<close>)
qed

lemma plan_venue_decides:
  assumes "no_collision std_hash (state_of v)" "v_cycle v \<noteq> 0"
  shows "plan_venue std_hash late v = Some (decide (state_of v))"
proof -
  have r: "ready (state_of v)" using assms(2) by (simp add: ready_def state_of_def PLAN_NVENUES_def)
  have "answers std_hash late (state_of v) 9 (state_of v) [call ''run_the_ward''] (decide (state_of v))"
    using compound_answers [OF assms(1) reached.start _ _ run_tried [OF assms(1) reached.start r]] by simp
  moreover have "9 \<le> TW_MAX_DEPTH" "enough 9 new_search"
    by (simp_all add: TW_MAX_DEPTH_def enough_def new_search_def TW_BUDGET_SAMPLE_EVERY_def)
  ultimately obtain p c' where "seek std_hash late TW_MAX_DEPTH (state_of v) [call ''run_the_ward''] new_search = (Some p, c')"
    "\<not> fired c'" "first_commission p = decide (state_of v)"
    unfolding answers_def using sound_new by blast
  then show ?thesis by (simp add: plan_venue_def plan_search_def)
qed

end
