(* ===== verification/Planner_Theorems.thy ===== *)
theory Planner_Theorems
  imports Planner_Search Ward
begin

text \<open>
  What the Queen's planner promises: that it answers, which venue it answers, and that the ward can afford
  it, alone and inside \<open>commission\<close> of \<open>src/src/queen.c\<close>.
\<close>

section \<open>Plans that can be carried out\<close>

lemma first_commission_cases:
  assumes "run_plan ward_domain s p \<noteq> None"
  shows "first_commission p = - 1 \<or>
    0 \<le> first_commission p \<and> first_commission p < PLAN_NVENUES \<and> can_buy s (first_commission p)"
  using assms
proof (induction p arbitrary: s)
  case (Cons t p)
  then consider "call_name t = ''commission''" "act_commission s (call_args t) \<noteq> None"
    | "call_name t = ''hold''" "run_plan ward_domain s p \<noteq> None"
    by (fastforce simp: ward_domain_def act_hold_def split: if_splits option.splits)
  then show ?case
  proof cases
    case 1
    then show ?thesis by (auto simp: act_commission_def can_buy_def split: list.splits if_splits)
  next
    case 2
    then show ?thesis using Cons.IH by auto
  qed
qed simp

lemma plan_venue_runs:
  assumes "plan_venue std_hash late v = Some i"
  shows "i = - 1 \<or> 0 \<le> i \<and> i < PLAN_NVENUES \<and> can_buy (state_of v) i"
proof -
  obtain p c where s: "plan_search std_hash late v = (Some p, c)" "i = first_commission p"
    using assms by (auto simp: plan_venue_def split: if_splits option.splits prod.splits)
  have "run_plan ward_domain (state_of v) p \<noteq> None"
    using findsD [where seek = "tw_seek_plan std_hash (plan_signature std_hash) late ward_domain TW_MAX_DEPTH",
      OF seek_finds, of "state_of v" "[call ''run_the_ward'']" new_search "Some p" c] s(1)
    by (simp add: plan_search_def new_search_def)
  then show ?thesis using first_commission_cases s(2) by simp
qed

lemma plan_venue_fits:
  assumes "plan_venue std_hash late v = Some i"
  shows "i = - 1 \<or> 0 \<le> i \<and> i < 6 \<and> v_built v ! nat i = 0 \<and> v_cost v ! nat i + v_reserve v \<le> v_treasury v"
proof -
  have "nested (map (\<lambda>k. xs ! k) [0..<6]) i = xs ! nat i" if "0 \<le> i" "i < 6" for xs :: "int list"
    using that by (simp add: nested_def nat_less_iff)
  then show ?thesis
    using plan_venue_runs [OF assms] by (auto simp: PLAN_NVENUES_def can_buy_def is_built_def state_of_def)
qed

text \<open>Buying by hand or by plan, in memory: the price leaves the treasury for what was spent, or nothing moves.\<close>

lemma build_venue_treasury:
  assumes "build_venue api g i w = (e, g', w')"
  shows "g' = g \<or> 0 \<le> i \<and> i < NVENUES \<and> v_price (VENUES ! nat i) \<le> g_treasury g \<and>
    g' = g\<lparr>g_treasury := g_treasury g - v_price (VENUES ! nat i), g_spent := g_spent g + v_price (VENUES ! nat i)\<rparr>"
  using assms unfolding build_venue_def by (elim do_elims) (clarsimp | simp)+

lemma price_pos: "0 \<le> i \<Longrightarrow> i < NVENUES \<Longrightarrow> 0 < v_price (VENUES ! nat i)"
  by (auto simp: ward_consts less_Suc_eq nth_Cons' nat_less_iff)

section \<open>A ward to plan for\<close>

text \<open>A hash that tells the names of this search apart by their lengths, and a ward that has the Tavern and the
  Den and can afford the Rails.\<close>

definition length_hash :: "string \<Rightarrow> u64" where
  "length_hash s = word_of_nat (length s)"

definition plan_view :: ward_view where
  "plan_view = \<lparr>v_cycle = 3, v_treasury = 300, v_debt = 900, v_nsparks = 1, v_reserve = 25, v_built = [1, 2, 0, 0, 0, 0],
     v_cost = [120, 200, 260, 340, 420, 500], v_worst_wear = 10, v_room_to_grow = 1383\<rparr>"

lemma plan_signature_before: "plan_signature length_hash (state_of plan_view) = 15414181594799381779"
  by code_simp

lemma plan_signature_after: "plan_signature length_hash (bought (state_of plan_view) RAILS) = 8039534489402915939"
  by code_simp

lemma plan_keys_apart:
  "distinct (map (\<lambda>ts. tw_mix_hash 15414181594799381779 (tw_tasks_hash length_hash ts)) posed @
     map (\<lambda>ts. tw_mix_hash 8039534489402915939 (tw_tasks_hash length_hash ts)) posed)"
  by code_simp

lemma plan_view_reached: "reached (state_of plan_view) s \<Longrightarrow> s \<in> {state_of plan_view, bought (state_of plan_view) RAILS}"
proof (induction rule: reached.induct)
  case (buy s v s')
  have "0 \<le> v \<and> v < 6" using buy.hyps(2) by (auto simp: act_commission_def PLAN_NVENUES_def split: if_splits)
  then have "v \<in> {0, 1, 2, 3, 4, 5}" by auto
  then show ?case using buy
    by (auto simp: act_commission_def PLAN_NVENUES_def is_built_def nested_def state_of_def plan_view_def bought_def
        RAILS_def upt_rec split: if_splits)
qed simp

lemma plan_view_no_collision: "no_collision length_hash (state_of plan_view)"
proof -
  have "inj_on (\<lambda>(s, ts). tw_search_key length_hash (plan_signature length_hash) s ts)
      ({state_of plan_view, bought (state_of plan_view) RAILS} \<times> set posed)"
    using plan_keys_apart unfolding distinct_append distinct_map
    by (fastforce simp: inj_on_def tw_search_key_def plan_signature_before plan_signature_after)
  moreover have "{s. reached (state_of plan_view) s} \<subseteq> {state_of plan_view, bought (state_of plan_view) RAILS}"
    using plan_view_reached by blast
  ultimately have inj: "inj_on (\<lambda>(s, ts). tw_search_key length_hash (plan_signature length_hash) s ts)
      ({s. reached (state_of plan_view) s} \<times> set posed)"
    by (auto intro: inj_on_subset)
  show ?thesis
  proof
    assume "collides length_hash (state_of plan_view)"
    then obtain s ts s' ts' where "reached (state_of plan_view) s" "ts \<in> set posed" "\<not> dead s ts"
      "reached (state_of plan_view) s'" "ts' \<in> set posed" "dead s' ts'"
      "tw_search_key length_hash (plan_signature length_hash) s ts = tw_search_key length_hash (plan_signature length_hash) s' ts'"
      unfolding collides_def by blast
    then show False using inj_onD [OF inj, of "(s, ts)" "(s', ts')"] by auto
  qed
qed

lemma plan_view_decides: "decide (state_of plan_view) = RAILS"
  by (simp add: decide_def earn_choice_def can_buy_def is_built_def nested_def state_of_def plan_view_def
      PLAN_NVENUES_def venue_range WEAR_THAT_CANNOT_WAIT_def upt_rec)

lemma plan_view_venue: "plan_venue length_hash (\<lambda>t. False) plan_view = Some 2"
  using plan_venue_decides [OF plan_view_no_collision, of "\<lambda>t. False"] plan_view_decides
  by (simp add: plan_view_def RAILS_def)

text \<open>The same ward in its database.\<close>

definition plan_file :: database where
  "plan_file = empty_db\<lparr>tb_ledger := Some [],
     tb_venue := Some (map (\<lambda>(i, b). \<lparr>vr_id = i, vr_name = [], vr_cost = 500, vr_built = b, vr_at = spark_home 0,
       vr_wire = i + 1, vr_owner = 0\<rparr>) [(0, 1), (1, 2), (2, 0), (3, 0), (4, 0), (5, 0)])\<rparr>"

definition plan_world :: mem where
  "plan_world = mem_start\<lparr>m_files := (\<lambda>_. plan_file), m_open := [Some ''a-ward.db'']\<rparr>"

definition plan_gyre :: gyre where
  "plan_gyre = zero_gyre\<lparr>g_ward := 1, g_sparks := [\<lparr>s_db = 2, s_id = 0, s_purse = 0, s_wear = 10, s_at = spark_home 0\<rparr>],
     g_cycle := 3, g_treasury := 300, g_debt := 900\<rparr>"

definition plan_api :: "mem api" where
  "plan_api = mem_engine\<lparr>queen_plan := \<lambda>v w. (plan_venue length_hash (\<lambda>t. False) v, w)\<rparr>"

lemma plan_gyre_commission: "(\<lambda>(r, g, w). (r, g_treasury g, g_spent g)) (commission plan_api plan_gyre plan_world) = (2, 40, 260)"
  using plan_view_venue
  by (simp add: commission_def build_venue_def plan_api_def plan_gyre_def plan_world_def mem_start_def plan_file_def plan_view_def
      run_def scalar_def built_def mem_defs ward_consts zero_gyre_def empty_db_def next_rowid_def update_where_def
      unique_wires_def column_int_def column_int64_def worst_wear_def ward_room_def nsparks_def upt_rec Let_def)

text \<open>C4. Once a cycle has begun, the Queen's planner answers the rule \<open>decide\<close>, or the memo failed it. The search with its caches,
  scores, fuel of 400 and budget finds a plan whose first commission is the venue the rule names, or a plan that only
  holds when the rule names none, whatever the clock says, so that a replay decides the same way; the one way out is
  that two nodes of this very search, one with an answer and one a dead end, have the same 64-bit memo key, which
  \<open>std::hash\<close> does not exclude.\<close>

theorem plan_venue_is_decide:
  assumes "v_cycle v \<noteq> 0"
  shows "plan_venue std_hash late v = Some (decide (state_of v)) \<or> collides std_hash (state_of v)"
  using plan_venue_decides [OF _ assms] by blast

theorem plan_venue_is_decide_witness:
  "plan_venue length_hash (\<lambda>t. True) plan_view = Some RAILS"
  using plan_venue_is_decide [of plan_view length_hash "\<lambda>t. True"] plan_view_no_collision plan_view_decides by (simp add: plan_view_def)

text \<open>C13. Whatever the string hash, the clock and the collisions of the caches, a venue the planner answers is one
  of the six, is not built, and leaves the reserve in the treasury after its price.\<close>

theorem plan_venue_affordable:
  assumes "plan_venue std_hash late v = Some i"
  shows "i = - 1 \<or> 0 \<le> i \<and> i < 6 \<and> v_built v ! nat i = 0 \<and> v_cost v ! nat i + v_reserve v \<le> v_treasury v"
  by (rule plan_venue_fits [OF assms])

theorem plan_venue_affordable_witness: "v_built plan_view ! 2 = 0 \<and> v_cost plan_view ! 2 + 25 \<le> v_treasury plan_view"
  using plan_venue_affordable [OF plan_view_venue] by (simp add: plan_view_def)

text \<open>C12. A commission with this planner, on any engine and whether its writes succeed or not: the ward is left
  as it was, or exactly the price of one venue has moved from the treasury to what was spent, and what is left
  pays every Spark the reserve of 25.\<close>

theorem commission_keeps_reserve:
  assumes plan: "\<And>v w. queen_plan api v w = (plan_venue std_hash late v, w)" 
    and c: "commission api g w = (r, g', w')"
  shows "g' = g \<or> (\<exists>i. 0 \<le> i \<and> i < NVENUES \<and>
    g' = g\<lparr>g_treasury := g_treasury g - v_price (VENUES ! nat i), g_spent := g_spent g + v_price (VENUES ! nat i)\<rparr> \<and>
    25 * nsparks g \<le> g_treasury g')"
proof -
  obtain bs w1 where bs: "read_built api (g_ward g) [0..<nat NVENUES] w = (bs, w1)" by fastforce
  define view where "view = \<lparr>v_cycle = g_cycle g, v_treasury = g_treasury g, v_debt = g_debt g, v_nsparks = nsparks g,
            v_reserve = 25 * nsparks g, v_built = bs, v_cost = map v_price VENUES,
            v_worst_wear = worst_wear g, v_room_to_grow = ward_room g\<rparr>"
  have step: "g' = g \<or> (\<exists>i e. plan_venue std_hash late view = Some i \<and> 0 \<le> i \<and> i < NVENUES \<and> build_venue api g i w1 = (e, g', w'))"
    using c unfolding commission_def bs Let_def plan view_def [symmetric]
    by (auto simp: view_def not_less split: option.splits if_splits prod.splits)
  { fix i e assume i: "plan_venue std_hash late view = Some i" "0 \<le> i" "i < NVENUES" and b: "build_venue api g i w1 = (e, g', w')"
    have "v_cost view ! nat i + v_reserve view \<le> v_treasury view" using plan_venue_fits [OF i(1)] i(2) by simp
    moreover have "v_cost view ! nat i = v_price (VENUES ! nat i)"
      using i by (simp add: view_def NVENUES_def nat_less_iff)
    ultimately have ?thesis using build_venue_treasury [OF b] i by (auto simp: view_def) }
  then show ?thesis using step by blast
qed


theorem commission_keeps_reserve_witness:
  "\<exists>g' w'. commission plan_api plan_gyre plan_world = (2, g', w') \<and> g' \<noteq> plan_gyre \<and> 25 * nsparks plan_gyre \<le> g_treasury g'"
proof -
  obtain g' w' where c: "commission plan_api plan_gyre plan_world = (2, g', w')" "g_treasury g' = 40"
    using plan_gyre_commission by (auto split: prod.splits)
  have plan: "\<And>v w. queen_plan plan_api v w = (plan_venue length_hash (\<lambda>t. False) v, w)" by (simp add: plan_api_def)
  have "g' \<noteq> plan_gyre" using c(2) by (auto simp: plan_gyre_def)
  then show ?thesis using commission_keeps_reserve [OF plan c(1)] c(1) by blast
qed

end
