(* ===== verification/Cbor.thy ===== *)
theory Cbor
  imports Fabric_Prelude
begin

text \<open>
  The reply writer of \<open>src/thirdparty/interactor/src/cbor.c\<close>: a buffer of fixed capacity that drops every
  write after the first that did not fit. The writer is compared with RFC 8949: \<open>encode\<close> is the encoding of
  a data item and \<open>decode\<close> a reader of it, and every write is the encoding of an item appended to the
  buffer, or an overflow that stays reported. The body of a map is the list of its keys and values in turn.
\<close>

section \<open>The writer\<close>

record cbor =
  c_buf :: bytes
  c_cap :: nat
  c_over :: bool

definition weft_cbor_to :: "nat \<Rightarrow> cbor" where
  "weft_cbor_to cap = \<lparr>c_buf = [], c_cap = cap, c_over = False\<rparr>"

definition weft_cbor_raw :: "cbor \<Rightarrow> u8 \<Rightarrow> cbor" where
  "weft_cbor_raw c b =
     (if length (c_buf c) \<ge> c_cap c then c\<lparr>c_over := True\<rparr> else c\<lparr>c_buf := c_buf c @ [b]\<rparr>)"

definition weft_cbor_head :: "cbor \<Rightarrow> u8 \<Rightarrow> u64 \<Rightarrow> cbor" where
  "weft_cbor_head c major v =
     (let m = push_bit 5 major;
          bytes = fold (\<lambda>i c. weft_cbor_raw c (ucast (drop_bit (i * 8) v))) in
      if v < 24 then weft_cbor_raw c (m OR ucast v)
      else if v \<le> 0xff then weft_cbor_raw (weft_cbor_raw c (m OR 24)) (ucast v)
      else if v \<le> 0xffff then bytes [1, 0] (weft_cbor_raw c (m OR 25))
      else if v \<le> 0xffffffff then bytes [3, 2, 1, 0] (weft_cbor_raw c (m OR 26))
      else bytes [7, 6, 5, 4, 3, 2, 1, 0] (weft_cbor_raw c (m OR 27)))"

definition weft_cbor_int :: "cbor \<Rightarrow> int \<Rightarrow> cbor" where
  "weft_cbor_int c v =
     (if v < 0 then weft_cbor_head c 1 (word_of_int (- (v + 1))) else weft_cbor_head c 0 (word_of_int v))"

definition weft_cbor_text :: "cbor \<Rightarrow> string \<Rightarrow> cbor" where
  "weft_cbor_text c s =
     fold (\<lambda>x c. weft_cbor_raw c (of_char x)) s (weft_cbor_head c 3 (word_of_nat (length s)))"

definition weft_cbor_map :: "cbor \<Rightarrow> u64 \<Rightarrow> cbor" where
  "weft_cbor_map c pairs = weft_cbor_head c 5 pairs"

definition weft_cbor_array :: "cbor \<Rightarrow> u64 \<Rightarrow> cbor" where
  "weft_cbor_array c items = weft_cbor_head c 4 items"

definition weft_cbor_bool :: "cbor \<Rightarrow> bool \<Rightarrow> cbor" where
  "weft_cbor_bool c b = weft_cbor_raw c (if b then 0xf5 else 0xf4)"

definition weft_cbor_break :: "cbor \<Rightarrow> cbor" where
  "weft_cbor_break c = weft_cbor_raw c 0xff"

definition weft_cbor_kv_int :: "cbor \<Rightarrow> string \<Rightarrow> int \<Rightarrow> cbor" where
  "weft_cbor_kv_int c k v = weft_cbor_int (weft_cbor_text c k) v"

definition weft_cbor_kv_text :: "cbor \<Rightarrow> string \<Rightarrow> string \<Rightarrow> cbor" where
  "weft_cbor_kv_text c k v = weft_cbor_text (weft_cbor_text c k) v"

definition weft_cbor_kv_bool :: "cbor \<Rightarrow> string \<Rightarrow> bool \<Rightarrow> cbor" where
  "weft_cbor_kv_bool c k v = weft_cbor_bool (weft_cbor_text c k) v"

section \<open>Appending bytes\<close>

definition puts :: "cbor \<Rightarrow> bytes \<Rightarrow> cbor" where
  "puts c bs = fold (\<lambda>b c. weft_cbor_raw c b) bs c"

lemma puts_Nil [simp]: "puts c [] = c"
  and puts_append [simp]: "puts (puts c bs) bs' = puts c (bs @ bs')"
  and raw_puts: "weft_cbor_raw c b = puts c [b]"
  by (simp_all add: puts_def)

lemma fold_raw_puts: "fold (\<lambda>x c. weft_cbor_raw c (f x)) xs c = puts c (map f xs)"
  by (simp add: puts_def fold_map o_def)

lemma raw_over: "c_over c \<Longrightarrow> c_over (weft_cbor_raw c b)"
  by (simp add: weft_cbor_raw_def)

lemma puts_over: "c_over c \<Longrightarrow> c_over (puts c bs)"
  unfolding puts_def by (induction bs arbitrary: c) (simp_all add: raw_over)

text \<open>A buffer that is not over holds every byte that was written; it is over when they do not fit.\<close>

lemma puts_fits: "length (c_buf c) + length bs \<le> c_cap c \<Longrightarrow> puts c bs = c\<lparr>c_buf := c_buf c @ bs\<rparr>"
  unfolding puts_def by (induction bs arbitrary: c) (simp_all add: weft_cbor_raw_def)

lemma puts_does_not_fit: "length (c_buf c) \<le> c_cap c \<Longrightarrow> c_cap c < length (c_buf c) + length bs \<Longrightarrow> c_over (puts c bs)"
proof (induction bs arbitrary: c)
  case (Cons b bs)
  have s: "puts c (b # bs) = puts (weft_cbor_raw c b) bs" by (simp add: puts_def)
  show ?case
  proof (cases "length (c_buf c) \<ge> c_cap c")
    case True
    then show ?thesis unfolding s by (intro puts_over) (simp add: weft_cbor_raw_def)
  next
    case False
    then show ?thesis using Cons unfolding s by (simp add: weft_cbor_raw_def)
  qed
qed simp

section \<open>Data items\<close>

datatype item =
  I_Int int
| I_Text bytes
| I_Array "item list"
| I_Stream "item list"
| I_Map "item list"
| I_Bool bool
| I_Null

definition head_bytes :: "u8 \<Rightarrow> u64 \<Rightarrow> bytes" where
  "head_bytes major v =
     (let m = push_bit 5 major; bytes = map (\<lambda>i. ucast (drop_bit (i * 8) v)) in
      if v < 24 then [m OR ucast v]
      else if v \<le> 0xff then [m OR 24, ucast v]
      else if v \<le> 0xffff then (m OR 25) # bytes [1, 0]
      else if v \<le> 0xffffffff then (m OR 26) # bytes [3, 2, 1, 0]
      else (m OR 27) # bytes [7, 6, 5, 4, 3, 2, 1, 0])"

fun encode :: "item \<Rightarrow> bytes" where
  "encode (I_Int v) = (if v < 0 then head_bytes 1 (word_of_int (- (v + 1))) else head_bytes 0 (word_of_int v))"
| "encode (I_Text s) = head_bytes 3 (word_of_nat (length s)) @ s"
| "encode (I_Array xs) = head_bytes 4 (word_of_nat (length xs)) @ concat (map encode xs)"
| "encode (I_Stream xs) = 0x9f # concat (map encode xs) @ [0xff]"
| "encode (I_Map xs) = head_bytes 5 (word_of_nat (length xs div 2)) @ concat (map encode xs)"
| "encode (I_Bool b) = [if b then 0xf5 else 0xf4]"
| "encode I_Null = [0xf6]"

text \<open>The items a 64-bit writer can write.\<close>

fun writable :: "item \<Rightarrow> bool" where
  "writable (I_Int v) \<longleftrightarrow> - (2 ^ 63) \<le> v \<and> v < 2 ^ 63"
| "writable (I_Text s) \<longleftrightarrow> length s < 2 ^ 64"
| "writable (I_Array xs) \<longleftrightarrow> length xs < 2 ^ 64 \<and> (\<forall>x \<in> set xs. writable x)"
| "writable (I_Stream xs) \<longleftrightarrow> (\<forall>x \<in> set xs. writable x)"
| "writable (I_Map xs) \<longleftrightarrow> even (length xs) \<and> length xs < 2 ^ 64 \<and> (\<forall>x \<in> set xs. writable x)"
| "writable (I_Bool b) \<longleftrightarrow> True"
| "writable I_Null \<longleftrightarrow> True"

section \<open>A reader\<close>

primrec be_value :: "bytes \<Rightarrow> nat" where
  "be_value [] = 0"
| "be_value (b # bs) = unat b * 256 ^ length bs + be_value bs"

definition argument :: "nat \<Rightarrow> bytes \<Rightarrow> (nat \<times> bytes) option" where
  "argument n bs = (if length bs < n then None else Some (be_value (take n bs), drop n bs))"

text \<open>The major type, the low five bits, the argument and what follows.\<close>

definition read_head :: "bytes \<Rightarrow> (nat \<times> nat \<times> nat \<times> bytes) option" where
  "read_head bs =
     (case bs of [] \<Rightarrow> None
      | b # rest \<Rightarrow>
          let major = unat b div 32; info = unat b mod 32 in
          if info < 24 then Some (major, info, info, rest)
          else if info = 31 then Some (major, info, 0, rest)
          else if info > 27 then None
          else do { (v, rest) \<leftarrow> argument (2 ^ (info - 24)) rest; Some (major, info, v, rest) })"

fun read_item :: "nat \<Rightarrow> bytes \<Rightarrow> (item \<times> bytes) option"
  and read_items :: "nat \<Rightarrow> nat \<Rightarrow> bytes \<Rightarrow> (item list \<times> bytes) option"
  and read_stream :: "nat \<Rightarrow> bytes \<Rightarrow> (item list \<times> bytes) option" where
  "read_item 0 bs = None"
| "read_item (Suc f) bs =
     do { (major, info, v, rest) \<leftarrow> read_head bs;
          if info = 31 then (if major = 4 then do { (xs, rest) \<leftarrow> read_stream f rest; Some (I_Stream xs, rest) } else None)
          else if major = 0 then Some (I_Int (int v), rest)
          else if major = 1 then Some (I_Int (- 1 - int v), rest)
          else if major = 3 then (if length rest < v then None else Some (I_Text (take v rest), drop v rest))
          else if major = 4 then do { (xs, rest) \<leftarrow> read_items f v rest; Some (I_Array xs, rest) }
          else if major = 5 then do { (xs, rest) \<leftarrow> read_items f (2 * v) rest; Some (I_Map xs, rest) }
          else if major = 7 \<and> info = 20 then Some (I_Bool False, rest)
          else if major = 7 \<and> info = 21 then Some (I_Bool True, rest)
          else if major = 7 \<and> info = 22 then Some (I_Null, rest)
          else None }"
| "read_items f 0 bs = Some ([], bs)"
| "read_items 0 (Suc k) bs = None"
| "read_items (Suc f) (Suc k) bs =
     do { (x, rest) \<leftarrow> read_item f bs; (xs, rest) \<leftarrow> read_items f k rest; Some (x # xs, rest) }"
| "read_stream 0 bs = None"
| "read_stream (Suc f) bs =
     (if bs \<noteq> [] \<and> hd bs = 0xff then Some ([], tl bs)
      else do { (x, rest) \<leftarrow> read_item f bs; (xs, rest) \<leftarrow> read_stream f rest; Some (x # xs, rest) })"

definition decode :: "bytes \<Rightarrow> (item \<times> bytes) option" where
  "decode bs = read_item (2 * length bs) bs"

section \<open>Reading back what was written\<close>

lemma top_bits:
  assumes "k < 8" "w < 32"
  shows "unat (push_bit 5 (word_of_nat k) OR w :: u8) = 32 * k + unat w"
proof -
  have w: "unat w < 32" using assms(2) by (simp add: word_less_nat_alt)
  have "push_bit 5 (word_of_nat k) AND w = (0 :: u8)"
  proof (rule bit_word_eqI)
    fix n assume "n < LENGTH(8)"
    have "\<not> bit w n" if "5 \<le> n"
    proof -
      have "unat w < 2 ^ n" using w power_increasing [OF that, of "2 :: nat"] by simp
      then have "take_bit n (unat w) = unat w" by (simp add: take_bit_nat_eq_self)
      then have "\<not> bit (unat w) n" by (metis bit_take_bit_iff less_irrefl)
      then show ?thesis by (simp add: bit_unsigned_iff)
    qed
    then show "bit (push_bit 5 (word_of_nat k) AND w) n = bit (0 :: u8) n"
      by (auto simp: bit_and_iff bit_push_bit_iff)
  qed
  then have "push_bit 5 (word_of_nat k) OR w = (push_bit 5 (word_of_nat k) + w :: u8)"
    by (simp add: disjunctive_add_eq_or)
  also have "\<dots> = word_of_nat (32 * k + unat w)" by (simp add: push_bit_eq_mult mult.commute)
  finally have e: "push_bit 5 (word_of_nat k) OR w = (word_of_nat (32 * k + unat w) :: u8)" .
  show ?thesis unfolding e using assms(1) w by (simp add: unat_of_nat del: of_nat_add of_nat_mult)
qed

lemma be_value_bytes:
  "be_value (map (\<lambda>i. ucast (drop_bit (i * 8) v)) (rev [0..<n])) = unat (v :: u64) mod 256 ^ n"
proof (induction n)
  case (Suc n)
  have "unat (ucast (drop_bit (n * 8) v) :: u8) = unat v div 256 ^ n mod 256"
    unfolding unsigned_ucast_eq unat_drop_bit_eq by (simp add: drop_bit_eq_div take_bit_eq_mod power_mult mult.commute [of n])
  then show ?case using Suc mod_mult2_eq [of "unat v" "256 ^ n" 256] by (simp add: mult.commute)
qed simp

lemma read_head_bytes:
  assumes "k < 8"
  shows "\<exists>info < 28. read_head (head_bytes (word_of_nat k) v @ rest) = Some (k, info, unat v, rest)"
proof -
  have small: "(ucast v :: u8) < 32 \<and> unat (ucast v :: u8) = unat v" if "v < 24"
    using that by (simp add: word_less_nat_alt unsigned_ucast_eq take_bit_eq_mod)
  have b: "be_value (map (\<lambda>i. ucast (drop_bit (i * 8) v)) (rev [0..<n])) = unat v" if "unat v < 256 ^ n" for n
    using that by (simp add: be_value_bytes)
  have l: "rev [0..<1] = [0]" "rev [0..<2] = [1, 0]" "rev [0..<4] = [3, 2, 1, 0]" "rev [0..<8] = [7, 6, 5, 4, 3, 2, 1, 0]"
    by (simp_all add: upt_rec)
  have m: "v \<le> 0xff \<Longrightarrow> unat v < 256 ^ 1" "v \<le> 0xffff \<Longrightarrow> unat v < 256 ^ 2" "v \<le> 0xffffffff \<Longrightarrow> unat v < 256 ^ 4"
    "unat v < 256 ^ 8"
    using unsigned_less [of v] by (simp_all add: word_le_nat_alt)
  note u = top_bits [OF assms]
  show ?thesis
  proof -
    consider "v < 24" | "\<not> v < 24" "v \<le> 0xff" | "\<not> v \<le> 0xff" "\<not> v < 24" "v \<le> 0xffff"
      | "\<not> v \<le> 0xff" "\<not> v < 24" "\<not> v \<le> 0xffff" "v \<le> 0xffffffff"
      | "\<not> v \<le> 0xff" "\<not> v < 24" "\<not> v \<le> 0xffff" "\<not> v \<le> 0xffffffff" by blast
    then show ?thesis
    proof cases
      case 1
      then have "unat v < 24" by (simp add: word_less_nat_alt)
      then show ?thesis using 1 small u by (simp add: head_bytes_def read_head_def Let_def)
    next
      case 2
      then show ?thesis using b [OF m(1)] u [of 24] unfolding l
        by (simp add: head_bytes_def read_head_def Let_def argument_def)
    next
      case 3
      then show ?thesis using b [OF m(2)] u [of 25] unfolding l
        by (simp add: head_bytes_def read_head_def Let_def argument_def)
    next
      case 4
      then show ?thesis using b [OF m(3)] u [of 26] unfolding l
        by (simp add: head_bytes_def read_head_def Let_def argument_def)
    next
      case 5
      then show ?thesis using b [OF m(4)] u [of 27] unfolding l
        by (simp add: head_bytes_def read_head_def Let_def argument_def)
    qed
  qed
qed
lemma head_bytes_nonempty [simp]: "head_bytes major v \<noteq> []"
  by (simp add: head_bytes_def Let_def)

lemma encode_nonempty: "encode x \<noteq> []"
  by (cases x) simp_all

lemma head_not_break: "k < 7 \<Longrightarrow> hd (head_bytes (word_of_nat k) v) \<noteq> 0xff"
proof
  assume k: "k < 7" and h: "hd (head_bytes (word_of_nat k) v) = 0xff"
  obtain info rest' where "info < 28" "read_head (head_bytes (word_of_nat k) v @ []) = Some (k, info, unat v, [])"
    using read_head_bytes [of k v "[]"] k by auto
  moreover obtain b bs where "head_bytes (word_of_nat k) v = b # bs" using head_bytes_nonempty by (meson list.exhaust)
  ultimately show False using h by (auto simp: read_head_def Let_def split: if_splits)
qed

lemmas head_numerals = read_head_bytes [of 0, simplified] read_head_bytes [of 1, simplified]
  read_head_bytes [of 3, simplified] read_head_bytes [of 4, simplified] read_head_bytes [of 5, simplified]

lemma encode_not_break: "hd (encode x) \<noteq> 0xff"
proof (cases x)
  case (I_Int v)
  then show ?thesis using head_not_break [of 0] head_not_break [of 1] by simp
qed (use head_not_break [of 3] head_not_break [of 4] head_not_break [of 5] in
    \<open>auto simp: hd_append\<close>)

lemma read_items_encode:
  assumes "\<And>x n rest. x \<in> set xs \<Longrightarrow> 2 * length (encode x) \<le> n \<Longrightarrow> read_item n (encode x @ rest) = Some (x, rest)"
    and "2 * length (concat (map encode xs)) + 1 \<le> n"
  shows "read_items n (length xs) (concat (map encode xs) @ rest) = Some (xs, rest)"
  using assms
proof (induction xs arbitrary: n)
  case (Cons x xs)
  obtain f where n: "n = Suc f" using Cons.prems(2) by (cases n) auto
  have "read_item f (encode x @ concat (map encode xs) @ rest) = Some (x, concat (map encode xs) @ rest)"
    using Cons.prems n by simp
  moreover have "read_items f (length xs) (concat (map encode xs) @ rest) = Some (xs, rest)"
    by (rule Cons.IH) (use Cons.prems n encode_nonempty [of x] in \<open>cases "encode x"; simp\<close>)+
  ultimately show ?case by (simp add: n)
qed simp

lemma read_stream_encode:
  assumes "\<And>x n rest. x \<in> set xs \<Longrightarrow> 2 * length (encode x) \<le> n \<Longrightarrow> read_item n (encode x @ rest) = Some (x, rest)"
    and "2 * length (concat (map encode xs)) + 1 \<le> n"
  shows "read_stream n (concat (map encode xs) @ 0xff # rest) = Some (xs, rest)"
  using assms
proof (induction xs arbitrary: n)
  case Nil
  then show ?case by (cases n) simp_all
next
  case (Cons x xs)
  obtain f where n: "n = Suc f" using Cons.prems(2) by (cases n) auto
  have "read_item f (encode x @ concat (map encode xs) @ 0xff # rest) = Some (x, concat (map encode xs) @ 0xff # rest)"
    using Cons.prems n by simp
  moreover have "read_stream f (concat (map encode xs) @ 0xff # rest) = Some (xs, rest)"
    by (rule Cons.IH) (use Cons.prems n encode_nonempty [of x] in \<open>cases "encode x"; simp\<close>)+
  ultimately show ?case using encode_not_break [of x] encode_nonempty [of x] by (simp add: n hd_append)
qed

lemma unat_length: "n < 2 ^ 64 \<Longrightarrow> unat (word_of_nat n :: u64) = n"
  by (simp add: unat_of_nat)

lemma unat_int: "0 \<le> v \<Longrightarrow> v < 2 ^ 64 \<Longrightarrow> int (unat (word_of_int v :: u64)) = v"
  by (simp add: uint_word_of_int)

lemma read_item_encode:
  "writable x \<Longrightarrow> 2 * length (encode x) \<le> n \<Longrightarrow> read_item n (encode x @ rest) = Some (x, rest)"
proof (induction x arbitrary: n rest)
  case (I_Int v)
  obtain f where n: "n = Suc f" using I_Int.prems(2) encode_nonempty [of "I_Int v"] by (cases n) auto
  show ?case
    using head_numerals(1) [of "word_of_int v" rest] head_numerals(2) [of "word_of_int (- (v + 1))" rest]
      unat_int [of v] unat_int [of "- (v + 1)"] I_Int.prems(1) n by (auto simp del: of_nat_unat)
next
  case (I_Text s)
  obtain f where n: "n = Suc f" using I_Text.prems(2) encode_nonempty [of "I_Text s"] by (cases n) auto
  show ?case using head_numerals(3) [of "word_of_nat (length s)" "s @ rest"] I_Text.prems(1) n by (auto simp: unat_length)
next
  case (I_Array xs)
  obtain f where n: "n = Suc f" using I_Array.prems(2) encode_nonempty [of "I_Array xs"] by (cases n) auto
  have len: "1 \<le> length (head_bytes 4 (word_of_nat (length xs)))"
    by (simp add: Suc_leI)
  have "read_items f (length xs) (concat (map encode xs) @ rest) = Some (xs, rest)"
    by (rule read_items_encode) (use I_Array n len in auto)
  then show ?case
    using head_numerals(4) [of "word_of_nat (length xs)" "concat (map encode xs) @ rest"] I_Array.prems(1) n by (auto simp: unat_length)
next
  case (I_Stream xs)
  obtain f where n: "n = Suc f" using I_Stream.prems(2) by (cases n) auto
  have "read_stream f (concat (map encode xs) @ 0xff # rest) = Some (xs, rest)"
    by (rule read_stream_encode) (use I_Stream n in auto)
  then show ?case using n by (simp add: read_head_def Let_def)
next
  case (I_Map xs)
  obtain f where n: "n = Suc f" using I_Map.prems(2) encode_nonempty [of "I_Map xs"] by (cases n) auto
  have len: "1 \<le> length (head_bytes 5 (word_of_nat (length xs div 2)))"
    by (simp add: Suc_leI)
  have "read_items f (length xs) (concat (map encode xs) @ rest) = Some (xs, rest)"
    by (rule read_items_encode) (use I_Map n len in auto)
  then show ?case
    using head_numerals(5) [of "word_of_nat (length xs div 2)" "concat (map encode xs) @ rest"] I_Map.prems(1) n
    by (auto simp: unat_length)
next
  case (I_Bool b)
  then show ?case by (cases n) (auto simp: read_head_def Let_def)
next
  case I_Null
  then show ?case by (cases n) (auto simp: read_head_def Let_def)
qed

section \<open>What the writer writes\<close>

lemma head_puts: "weft_cbor_head c major v = puts c (head_bytes major v)"
  by (simp add: weft_cbor_head_def head_bytes_def Let_def puts_def)

lemma int_puts: "weft_cbor_int c v = puts c (encode (I_Int v))"
  by (simp add: weft_cbor_int_def head_puts)

definition text_item :: "string \<Rightarrow> item" where
  "text_item s = I_Text (map of_char s)"

lemma text_puts: "weft_cbor_text c s = puts c (encode (text_item s))"
  by (simp add: weft_cbor_text_def head_puts fold_raw_puts text_item_def)

lemma bool_puts: "weft_cbor_bool c b = puts c (encode (I_Bool b))"
  by (simp add: weft_cbor_bool_def raw_puts)

lemma break_puts: "weft_cbor_break c = puts c [0xff]"
  by (simp add: weft_cbor_break_def raw_puts)

lemma kv_int_puts: "weft_cbor_kv_int c k v = puts c (encode (text_item k) @ encode (I_Int v))"
  by (simp add: weft_cbor_kv_int_def int_puts text_puts)

lemma kv_text_puts: "weft_cbor_kv_text c k v = puts c (encode (text_item k) @ encode (text_item v))"
  by (simp add: weft_cbor_kv_text_def text_puts)

lemma kv_bool_puts: "weft_cbor_kv_bool c k v = puts c (encode (text_item k) @ encode (I_Bool v))"
  by (simp add: weft_cbor_kv_bool_def bool_puts text_puts)

lemmas cbor_puts = head_puts int_puts text_puts bool_puts break_puts kv_int_puts kv_text_puts kv_bool_puts raw_puts weft_cbor_map_def weft_cbor_array_def

end
