(* ===== verification/Contract.thy ===== *)
theory Contract
  imports Fabric_Prelude
begin

text \<open>
  The interactor contract of \<open>weft/interactor.h\<close>: a command in, reply bytes out. A transport is written against
  it and an interactor provides it, so that neither knows the other.
\<close>

section \<open>The contract\<close>

text \<open>A command, the room for the reply and the stop flag, in the interactor's own context. \<open>None\<close> is a process
  that has exited.\<close>

type_synonym 'x ask = "string \<Rightarrow> nat \<Rightarrow> bool \<Rightarrow> 'x \<Rightarrow> (bytes \<times> bool \<times> 'x) option"

definition weft_ask :: "'x ask option \<Rightarrow> 'x ask" where
  "weft_ask actor command cap stop x =
     (case actor of None \<Rightarrow> Some ([], stop, x) | Some ask \<Rightarrow> ask command cap stop x)"

text \<open>A reply stays within the room it was given.\<close>

locale interactor =
  fixes ask :: "'x ask"
  assumes within_cap: "ask command cap stop x = Some (reply, stop', x') \<Longrightarrow> length reply \<le> cap"

end
