(* ===== verification/Interactor.thy ===== *)
theory Interactor
  imports Cbor Contract Ward_Game
begin

text \<open>
  The Queen's interactor, \<open>src/src/interactor.c\<close>: a command in, reply bytes out. The command is split at its
  first two spaces, obeyed, and answered with one CBOR map of seven pairs: whether it was obeyed, what the ward
  has to say, whether its books are honest, and the ward, its venues, its board and its Sparks.
\<close>

section \<open>The ward, as a subscriber sees it\<close>

definition WARD_COMMAND_MAX :: nat where "WARD_COMMAND_MAX = 512"
definition WARD_REPLY_MAX :: nat where "WARD_REPLY_MAX = 262144"

definition say_spark :: "'w api \<Rightarrow> spark \<Rightarrow> cbor \<Rightarrow> 'w \<Rightarrow> cbor \<times> 'w" where
  "say_spark api s c w =
     (let c = weft_cbor_map c 8;
          c = weft_cbor_kv_int c ''id'' (s_id s);
          c = weft_cbor_kv_int c ''purse'' (s_purse s);
          c = weft_cbor_kv_int c ''wear'' (s_wear s);
          c = weft_cbor_kv_int c ''x'' (px (s_at s));
          c = weft_cbor_kv_int c ''y'' (py (s_at s));
          c = weft_cbor_kv_int c ''z'' (pz (s_at s));
          (wire, w) = scalar api (s_db s) Q_Spark_Wire w;
          c = weft_cbor_kv_int c ''wire'' wire;
          (owner, w) = scalar api (s_db s) Q_Spark_Owner w;
          c = weft_cbor_kv_int c ''owner'' owner
      in (c, w))"

fun say_each :: "'w api \<Rightarrow> spark list \<Rightarrow> cbor \<Rightarrow> 'w \<Rightarrow> cbor \<times> 'w" where
  "say_each api [] c w = (c, w)"
| "say_each api (s # ss) c w = (let (c, w) = say_spark api s c w in say_each api ss c w)"

definition say_sparks :: "'w api \<Rightarrow> gyre \<Rightarrow> cbor \<Rightarrow> 'w \<Rightarrow> cbor \<times> 'w" where
  "say_sparks api g c w =
     (let c = weft_cbor_text c ''sparks''; c = weft_cbor_array c (word_of_int (nsparks g)) in
      say_each api (g_sparks g) c w)"

definition say_cell :: "cbor \<Rightarrow> sqlval \<Rightarrow> cbor" where
  "say_cell c v =
     (case v of VText t \<Rightarrow> weft_cbor_text c t | VNull \<Rightarrow> weft_cbor_raw c 0xf6 | _ \<Rightarrow> weft_cbor_int c (column_int64 v))"

definition say_row :: "string list \<Rightarrow> sqlval list \<Rightarrow> cbor \<Rightarrow> cbor" where
  "say_row cols row c =
     fold (\<lambda>i c. say_cell (weft_cbor_text c (cols ! i)) (row ! i)) [0..<length cols]
       (weft_cbor_map c (word_of_nat (length cols)))"

definition say_rows :: "'w api \<Rightarrow> gyre \<Rightarrow> string \<Rightarrow> query \<Rightarrow> string list \<Rightarrow> cbor \<Rightarrow> 'w \<Rightarrow> cbor \<times> 'w" where
  "say_rows api g key q cols c w =
     (let c = weft_cbor_text c key; (r, w) = sqlite3_rows api (g_ward g) q w in
      case r of None \<Rightarrow> (weft_cbor_array c 0, w)
      | Some rows \<Rightarrow> (weft_cbor_break (fold (say_row cols) rows (weft_cbor_raw c 0x9f)), w))"

definition VCOLS :: "string list" where
  "VCOLS = [''id'', ''name'', ''cost'', ''built'', ''x'', ''y'', ''z'', ''wire'', ''owner'']"

definition BCOLS :: "string list" where
  "BCOLS = [''id'', ''kind'', ''payout'', ''risk'', ''taken'', ''outcome'', ''x'', ''y'', ''z'', ''wire'', ''owner'']"

definition say_ward :: "'w api \<Rightarrow> gyre \<Rightarrow> cbor \<Rightarrow> 'w \<Rightarrow> cbor \<times> 'w" where
  "say_ward api g c w =
     (let c = weft_cbor_text c ''ward'';
          c = weft_cbor_map c 8;
          c = weft_cbor_kv_int c ''cycle'' (g_cycle g);
          c = weft_cbor_kv_int c ''treasury'' (g_treasury g);
          c = weft_cbor_kv_int c ''debt'' (g_debt g);
          c = weft_cbor_kv_int c ''issued'' (g_issued g);
          c = weft_cbor_kv_int c ''retired'' (g_retired g);
          c = weft_cbor_kv_int c ''spent'' (g_spent g);
          c = weft_cbor_kv_int c ''sparks'' (nsparks g);
          c = weft_cbor_kv_int c ''room'' (ward_room g);
          (c, w) = say_rows api g ''venues'' Q_Venue_Rows VCOLS c w;
          (c, w) = say_rows api g ''board'' Q_Board_Rows BCOLS c w
      in say_sparks api g c w)"

section \<open>Commands\<close>

text \<open>The text before the first space, and the text after it when there is one.\<close>

fun split_space :: "string \<Rightarrow> string \<times> string option" where
  "split_space [] = ([], None)"
| "split_space (x # xs) =
     (if x = CHR '' '' then ([], Some xs) else let (word, rest) = split_space xs in (x # word, rest))"

definition split_command :: "string \<Rightarrow> string \<times> string option \<times> string option" where
  "split_command line =
     (let (verb, rest) = split_space (dropWhile (\<lambda>x. x = CHR ''/'' \<or> x = CHR '' '') line) in
      case rest of None \<Rightarrow> (verb, None, None)
      | Some args \<Rightarrow> let (arg1, arg2) = split_space args in (verb, Some arg1, arg2))"

fun run_cycles :: "'w api \<Rightarrow> nat \<Rightarrow> nat \<Rightarrow> gyre \<Rightarrow> 'w \<Rightarrow> (bool \<times> string \<times> gyre \<times> 'w) option" where
  "run_cycles api fuel 0 g w = Some (True, ''the ward moved'', g, w)"
| "run_cycles api fuel (Suc n) g w =
     do { (e, g, w) \<leftarrow> cycle api fuel g w;
          if e \<noteq> 0 then Some (False, ''the ward stopped mid-cycle'', g, w) else
          let (h, w) = honest api g w in
          if h \<noteq> 0 then Some (False, ''the ward stopped being honest'', g, w) else run_cycles api fuel n g w }"

definition cycles_asked :: "string option \<Rightarrow> int" where
  "cycles_asked arg1 =
     (let n = (case arg1 of None \<Rightarrow> 1 | Some a \<Rightarrow> c_atoi a); n = (if n < 1 then 1 else n) in
      if n > 64 then 64 else n)"

text \<open>The loop over the Sparks keeps the last one with the id.\<close>

definition find_spark :: "int \<Rightarrow> spark list \<Rightarrow> nat option" where
  "find_spark who ss =
     fold (\<lambda>i r. if s_id (ss ! i) = who then Some i else r) [0..<length ss] None"

definition obey_commission :: "'w api \<Rightarrow> gyre \<Rightarrow> string option \<Rightarrow> 'w \<Rightarrow> bool \<times> string \<times> gyre \<times> 'w" where
  "obey_commission api g arg1 w =
     (let v = (case arg1 of None \<Rightarrow> - 1 | Some a \<Rightarrow> c_atoi a); (e, g, w) = build_venue api g v w in
      if e \<noteq> 0 then (False, ''no such venue, or it is already built, or the treasury will not reach'', g, w)
      else (True, ''commissioned'', g, w))"

definition obey_pay :: "'w api \<Rightarrow> gyre \<Rightarrow> string option \<Rightarrow> string option \<Rightarrow> 'w \<Rightarrow> bool \<times> string \<times> gyre \<times> 'w" where
  "obey_pay api g arg1 arg2 w =
     (let who = (case arg1 of None \<Rightarrow> - 1 | Some a \<Rightarrow> c_atoi a);
          amount = (case arg2 of None \<Rightarrow> 0 | Some a \<Rightarrow> c_atoi a) in
      case find_spark who (g_sparks g) of
        None \<Rightarrow> (False, ''no such Spark here, or an amount the treasury will not reach'', g, w)
      | Some k \<Rightarrow>
          if amount \<le> 0 \<or> g_treasury g < amount
          then (False, ''no such Spark here, or an amount the treasury will not reach'', g, w)
          else let (e, g, w) = pay_alone api g k amount None w in
            if e \<noteq> 0 then (False, ''the payment landed on neither side'', g, w) else (True, ''paid'', g, w))"

definition obey_restart :: "'w api \<Rightarrow> gyre \<Rightarrow> 'w \<Rightarrow> (bool \<times> string \<times> gyre \<times> 'w) option" where
  "obey_restart api g w =
     do { (e, g', w) \<leftarrow> found_ward api zero_gyre ''gyre-live'' (nsparks g) (g_seed g) 0 (close_ward api g w);
          if e \<noteq> 0 then Some (False, ''the ward could not be founded again'', g', w)
          else Some (True, ''the ward is founded again'', g', w) }"

definition obey :: "'w api \<Rightarrow> nat \<Rightarrow> gyre \<Rightarrow> string \<Rightarrow> string option \<Rightarrow> string option \<Rightarrow> 'w \<Rightarrow>
    (bool \<times> string \<times> gyre \<times> 'w) option" where
  "obey api fuel g verb arg1 arg2 w =
     (if verb = ''look'' \<or> verb = [] then Some (True, ''the ward as it stands'', g, w)
      else if verb = ''cycle'' then run_cycles api fuel (nat (cycles_asked arg1)) g w
      else if verb = ''commission'' then Some (obey_commission api g arg1 w)
      else if verb = ''pay'' then Some (obey_pay api g arg1 arg2 w)
      else if verb = ''restart'' then obey_restart api g w
      else if verb = ''quit'' then Some (True, ''goodbye'', g, w)
      else Some (False, ''no such command'', g, w))"

definition say_reply :: "'w api \<Rightarrow> bool \<Rightarrow> string \<Rightarrow> gyre \<Rightarrow> cbor \<Rightarrow> 'w \<Rightarrow> cbor \<times> 'w" where
  "say_reply api ok say g c w =
     (let c = weft_cbor_map c 7;
          c = weft_cbor_text c ''ok''; c = weft_cbor_bool c ok;
          c = weft_cbor_text c ''say''; c = weft_cbor_text c say;
          c = weft_cbor_text c ''honest'';
          (hon, w) = (if g_ward g \<noteq> 0 then let (h, w) = honest api g w in (h = 0, w) else (False, w));
          c = weft_cbor_bool c hon
      in say_ward api g c w)"

text \<open>\<open>*stop\<close> is set by a restart that failed, and only by it.\<close>

definition ward_command :: "'w api \<Rightarrow> nat \<Rightarrow> gyre \<Rightarrow> string \<Rightarrow> cbor \<Rightarrow> bool \<Rightarrow> 'w \<Rightarrow>
    (bool \<times> gyre \<times> cbor \<times> bool \<times> 'w) option" where
  "ward_command api fuel g line c stop w =
     do { let (verb, arg1, arg2) = split_command line;
          (ok, say, g, w) \<leftarrow> obey api fuel g verb arg1 arg2 w;
          let (c, w) = say_reply api ok say g c w;
          Some (verb = ''quit'', g, c, stop \<or> verb = ''restart'' \<and> \<not> ok, w) }"

section \<open>The contract\<close>

text \<open>The reply is the bytes of the buffer, and none when the ward did not fit.\<close>

definition ward_ask :: "'w api \<Rightarrow> nat \<Rightarrow> gyre \<Rightarrow> string \<Rightarrow> nat \<Rightarrow> bool \<Rightarrow> 'w \<Rightarrow> (bytes \<times> bool \<times> gyre \<times> 'w) option" where
  "ward_ask api fuel g command cap stop w =
     do { let line = take (WARD_COMMAND_MAX - 1) command;
          (_, g, c, stop, w) \<leftarrow> ward_command api fuel g line (weft_cbor_to cap) stop w;
          Some (if c_over c then [] else c_buf c, stop, g, w) }"

section \<open>The reply as a data item\<close>

definition spark_item :: "spark \<Rightarrow> int \<Rightarrow> int \<Rightarrow> item" where
  "spark_item s wire owner = I_Map
     [text_item ''id'', I_Int (s_id s), text_item ''purse'', I_Int (s_purse s), text_item ''wear'', I_Int (s_wear s),
      text_item ''x'', I_Int (px (s_at s)), text_item ''y'', I_Int (py (s_at s)), text_item ''z'', I_Int (pz (s_at s)),
      text_item ''wire'', I_Int wire, text_item ''owner'', I_Int owner]"

fun spark_items :: "'w api \<Rightarrow> spark list \<Rightarrow> 'w \<Rightarrow> item list \<times> 'w" where
  "spark_items api [] w = ([], w)"
| "spark_items api (s # ss) w =
     (let (wire, w) = scalar api (s_db s) Q_Spark_Wire w; (owner, w) = scalar api (s_db s) Q_Spark_Owner w;
          (xs, w) = spark_items api ss w in (spark_item s wire owner # xs, w))"

definition cell_item :: "sqlval \<Rightarrow> item" where
  "cell_item v = (case v of VText t \<Rightarrow> text_item t | VNull \<Rightarrow> I_Null | VInt i \<Rightarrow> I_Int i)"

definition row_item :: "string list \<Rightarrow> sqlval list \<Rightarrow> item" where
  "row_item cols row = I_Map (concat (map (\<lambda>i. [text_item (cols ! i), cell_item (row ! i)]) [0..<length cols]))"

definition rows_item :: "string list \<Rightarrow> sqlval list list option \<Rightarrow> item" where
  "rows_item cols r = (case r of None \<Rightarrow> I_Array [] | Some rows \<Rightarrow> I_Stream (map (row_item cols) rows))"

definition ward_item :: "gyre \<Rightarrow> item" where
  "ward_item g = I_Map
     [text_item ''cycle'', I_Int (g_cycle g), text_item ''treasury'', I_Int (g_treasury g),
      text_item ''debt'', I_Int (g_debt g), text_item ''issued'', I_Int (g_issued g),
      text_item ''retired'', I_Int (g_retired g), text_item ''spent'', I_Int (g_spent g),
      text_item ''sparks'', I_Int (nsparks g), text_item ''room'', I_Int (ward_room g)]"

text \<open>What the reply says, and the world after the queries it was read from.\<close>

definition reply_item :: "'w api \<Rightarrow> bool \<Rightarrow> string \<Rightarrow> gyre \<Rightarrow> 'w \<Rightarrow> item \<times> 'w" where
  "reply_item api ok say g w =
     (let (hon, w) = (if g_ward g \<noteq> 0 then let (h, w) = honest api g w in (h = 0, w) else (False, w));
          (venues, w) = sqlite3_rows api (g_ward g) Q_Venue_Rows w;
          (board, w) = sqlite3_rows api (g_ward g) Q_Board_Rows w;
          (sparks, w) = spark_items api (g_sparks g) w
      in (I_Map [text_item ''ok'', I_Bool ok, text_item ''say'', text_item say, text_item ''honest'', I_Bool hon,
            text_item ''ward'', ward_item g, text_item ''venues'', rows_item VCOLS venues,
            text_item ''board'', rows_item BCOLS board, text_item ''sparks'', I_Array sparks], w))"

lemma say_spark_puts:
  "say_spark api s c w =
     (let (wire, w) = scalar api (s_db s) Q_Spark_Wire w; (owner, w) = scalar api (s_db s) Q_Spark_Owner w in
      (puts c (encode (spark_item s wire owner)), w))"
  by (simp add: say_spark_def spark_item_def cbor_puts Let_def del: encode.simps(1) split: prod.splits)

lemma say_each_puts:
  "say_each api ss c w = (let (xs, w) = spark_items api ss w in (puts c (concat (map encode xs)), w))"
  by (induction ss arbitrary: c w) (simp_all add: say_spark_puts Let_def split: prod.splits)

lemma spark_items_length: "spark_items api ss w = (xs, w') \<Longrightarrow> length xs = length ss"
  by (induction ss arbitrary: w xs) (auto split: prod.splits)

lemma say_sparks_puts:
  "say_sparks api g c w =
     (let (xs, w) = spark_items api (g_sparks g) w in
      (puts c (encode (text_item ''sparks'') @ encode (I_Array xs)), w))"
  by (auto simp: say_sparks_def cbor_puts say_each_puts nsparks_def Let_def split: prod.splits dest: spark_items_length)

lemma say_cell_puts: "say_cell c v = puts c (encode (cell_item v))"
  by (simp add: say_cell_def cell_item_def cbor_puts column_int64_def split: sqlval.splits)

lemma say_cells_puts:
  "fold (\<lambda>i c. say_cell (weft_cbor_text c (cols ! i)) (row ! i)) js c =
     puts c (concat (map encode (concat (map (\<lambda>i. [text_item (cols ! i), cell_item (row ! i)]) js))))"
  by (induction js arbitrary: c) (simp_all add: say_cell_puts cbor_puts)

lemma length_pairs: "length (concat (map (\<lambda>i. [f i, g i]) js)) = 2 * length js"
  by (induction js) simp_all

lemma say_row_puts: "say_row cols row c = puts c (encode (row_item cols row))"
  unfolding say_row_def say_cells_puts by (simp add: row_item_def length_pairs cbor_puts)

lemma say_all_rows_puts: "fold (say_row cols) rows c = puts c (concat (map encode (map (row_item cols) rows)))"
  by (induction rows arbitrary: c) (simp_all add: say_row_puts)

lemma say_rows_puts:
  "say_rows api g key q cols c w =
     (let (r, w) = sqlite3_rows api (g_ward g) q w in (puts c (encode (text_item key) @ encode (rows_item cols r)), w))"
  by (simp add: say_rows_def rows_item_def say_all_rows_puts cbor_puts Let_def split: prod.splits option.splits)

lemma say_ward_puts:
  "say_ward api g c w =
     (let (venues, w) = sqlite3_rows api (g_ward g) Q_Venue_Rows w;
          (board, w) = sqlite3_rows api (g_ward g) Q_Board_Rows w;
          (sparks, w) = spark_items api (g_sparks g) w
      in (puts c (concat (map encode [text_item ''ward'', ward_item g, text_item ''venues'', rows_item VCOLS venues,
            text_item ''board'', rows_item BCOLS board, text_item ''sparks'', I_Array sparks])), w))"
  by (simp add: say_ward_def ward_item_def say_rows_puts say_sparks_puts cbor_puts Let_def del: encode.simps(1) split: prod.splits)

lemma say_reply_puts:
  "say_reply api ok say g c w = (let (x, w) = reply_item api ok say g w in (puts c (encode x), w))"
  by (simp add: say_reply_def reply_item_def say_ward_puts cbor_puts Let_def del: encode.simps(1,2,3,6) split: prod.splits)

lemma ward_ask_reply:
  "ward_ask api fuel g command cap stop w =
     do { let (verb, arg1, arg2) = split_command (take 511 command);
          (ok, say, g, w) \<leftarrow> obey api fuel g verb arg1 arg2 w;
          let (x, w) = reply_item api ok say g w;
          Some (if length (encode x) \<le> cap then encode x else [], stop \<or> verb = ''restart'' \<and> \<not> ok, g, w) }"
proof -
  have buf: "(if c_over (puts (weft_cbor_to cap) bs) then [] else c_buf (puts (weft_cbor_to cap) bs)) =
      (if length bs \<le> cap then bs else [])" for bs
    using puts_fits [of "weft_cbor_to cap" bs] puts_does_not_fit [of "weft_cbor_to cap" bs]
    by (auto simp: weft_cbor_to_def)
  obtain verb arg1 arg2 where v: "split_command (take 511 command) = (verb, arg1, arg2)" by (metis prod_cases3)
  show ?thesis
  proof (cases "obey api fuel g verb arg1 arg2 w")
    case None
    then show ?thesis by (simp add: ward_ask_def ward_command_def WARD_COMMAND_MAX_def v)
  next
    case (Some r)
    obtain ok say g' w' where r: "r = (ok, say, g', w')" by (metis prod_cases4)
    obtain x w'' where x: "reply_item api ok say g' w' = (x, w'')" by fastforce
    show ?thesis using Some r x buf [of "encode x"]
      by (simp add: ward_ask_def ward_command_def WARD_COMMAND_MAX_def say_reply_puts v)
  qed
qed

section \<open>The ward as an interactor\<close>

definition ward_interactor :: "'w api \<Rightarrow> nat \<Rightarrow> (gyre \<times> 'w) ask" where
  "ward_interactor api fuel command cap stop x =
     map_option (\<lambda>(reply, stop, g, w). (reply, stop, (g, w))) (ward_ask api fuel (fst x) command cap stop (snd x))"

lemma ward_ask_within: "ward_ask api fuel g command cap stop w = Some (reply, stop', g', w') \<Longrightarrow> length reply \<le> cap"
  by (auto simp: ward_ask_reply split: bind_splits prod.splits if_splits)

interpretation ward: interactor "ward_interactor api fuel" for api fuel
  by unfold_locales (auto simp: ward_interactor_def dest: ward_ask_within)

section \<open>Commands and the books\<close>

text \<open>A ward that keeps its books and whose databases have their names.\<close>

definition kept :: "('w \<Rightarrow> nat \<Rightarrow> string option) \<Rightarrow> ('w \<Rightarrow> string \<Rightarrow> database) \<Rightarrow> 'w \<Rightarrow> gyre \<Rightarrow> bool" where
  "kept db_of content w g \<longleftrightarrow> books db_of content 0 w g \<and> named db_of w g"

lemma find_spark_index: "find_spark who ss = Some k \<Longrightarrow> k < length ss \<and> s_id (ss ! k) = who"
proof -
  have "fold (\<lambda>i r. if s_id (ss ! i) = who then Some i else r) js r = Some k \<Longrightarrow>
      r = Some k \<or> k \<in> set js \<and> s_id (ss ! k) = who" for js r
    by (induction js arbitrary: r) (auto split: if_splits)
  then show "find_spark who ss = Some k \<Longrightarrow> ?thesis" unfolding find_spark_def by fastforce
qed

lemma idle_obey:
  assumes "obey api fuel g verb arg1 arg2 w = Some (ok, say, g', w')" "verb \<notin> {''cycle'', ''commission'', ''pay'', ''restart''}"
  shows "g' = g \<and> w' = w"
  using assms by (auto simp: obey_def split: if_splits)

context sql_engine
begin

lemma kept_quiet: "touches db_of content {} w w' \<Longrightarrow> kept db_of content w g \<Longrightarrow> kept db_of content w' g"
proof -
  assume t: "touches db_of content {} w w'" and k: "kept db_of content w g"
  have "named db_of w' g" by (rule named_fixed [OF _ refl touches_db_of [OF t]]) (use k in \<open>simp add: kept_def\<close>)
  then show ?thesis using books_quiet [OF t] k by (simp add: kept_def)
qed

lemma run_cycles_kept:
  "run_cycles api fuel n g w = Some (True, say, g', w') \<Longrightarrow> kept db_of content w g \<Longrightarrow> kept db_of content w' g'"
proof (induction n arbitrary: g w)
  case (Suc n)
  obtain g1 w1 w2 where s: "cycle api fuel g w = Some (0, g1, w1)" "honest api g1 w1 = (0, w2)"
    "run_cycles api fuel n g1 w2 = Some (True, say, g', w')"
    using Suc.prems(1) by (auto split: Option.bind_splits if_splits prod.splits)
  have k: "kept db_of content w1 g1" using cycle_named [OF s(1)] Suc.prems(2) by (simp add: kept_def)
  then have "touches db_of content {} w1 w2" using honest_quiet [OF s(2), of 0] by (simp add: kept_def)
  then show ?case using Suc.IH [OF s(3)] kept_quiet k by blast
qed simp

lemma pay_alone_kept:
  assumes "pay_alone api g k amount None w = (0, g', w')" "k < length (g_sparks g)" "kept db_of content w g"
  shows "kept db_of content w' g'"
proof -
  note p = pay_alone_books [OF assms(1) _ assms(2), of 0]
  then have t: "touches db_of content {g_ward g, s_db (g_sparks g ! k)} w w'" using assms(3) by (simp add: kept_def)
  have "named db_of w' g'" by (rule named_fixed [OF _ _ touches_db_of [OF t]]) (use p assms(3) in \<open>auto simp: kept_def\<close>)
  then show ?thesis using p assms(3) by (simp add: kept_def)
qed

lemma obey_kept:
  assumes o: "obey api fuel g verb arg1 arg2 w = Some (True, say, g', w')" and k: "kept db_of content w g"
  shows "kept db_of content w' g'"
proof -
  consider (idle) "verb \<notin> {''cycle'', ''commission'', ''pay'', ''restart''}" | (cycle) "verb = ''cycle''"
    | (buy) "verb = ''commission''" | (pay) "verb = ''pay''" | (again) "verb = ''restart''" by blast
  then show ?thesis
  proof cases
    case idle
    then show ?thesis using idle_obey [OF o] k by simp
  next
    case cycle
    then show ?thesis using o run_cycles_kept [OF _ k] by (simp add: obey_def)
  next
    case buy
    then obtain i where "build_venue api g i w = (0, g', w')"
      using o by (auto simp: obey_def obey_commission_def Let_def split: prod.splits if_splits)
    then show ?thesis using k build_venue_books build_venue_named unfolding kept_def by blast
  next
    case pay
    then obtain i j amount where i: "find_spark i (g_sparks g) = Some j" "pay_alone api g j amount None w = (0, g', w')"
      using o unfolding obey_def obey_pay_def Let_def by (auto split: prod.splits if_splits option.split_asm)
    then show ?thesis using pay_alone_kept [OF i(2) _ k] find_spark_index [OF i(1)] by simp
  next
    case again
    then obtain w1 where "found_ward api zero_gyre ''gyre-live'' (nsparks g) (g_seed g) 0 w1 = Some (0, g', w')"
      using o by (auto simp: obey_def obey_restart_def split: Option.bind_splits if_splits)
    from found_ward_named [OF this, of 0] show ?thesis by (simp add: kept_def zero_gyre_def)
  qed
qed

lemma rows_quiet: "sqlite3_rows api h q w = (r, w') \<Longrightarrow> db_of w h \<noteq> None \<Longrightarrow> touches db_of content {} w w'"
  using rows_frame by (fastforce simp: touches_def)

lemma scalar_quiet: "scalar api h q w = (r, w') \<Longrightarrow> db_of w h \<noteq> None \<Longrightarrow> touches db_of content {} w w'"
  by (auto simp: scalar_def split: prod.splits intro: rows_quiet)

lemma spark_items_quiet:
  "spark_items api ss w = (xs, w') \<Longrightarrow> (\<And>s. s \<in> set ss \<Longrightarrow> db_of w (s_db s) \<noteq> None) \<Longrightarrow> touches db_of content {} w w'"
proof (induction ss arbitrary: w xs)
  case (Cons s ss)
  obtain a w1 b w2 ys where s: "scalar api (s_db s) Q_Spark_Wire w = (a, w1)" "scalar api (s_db s) Q_Spark_Owner w1 = (b, w2)"
    "spark_items api ss w2 = (ys, w')" using Cons.prems(1) by (auto split: prod.splits)
  have t1: "touches db_of content {} w w1" using scalar_quiet [OF s(1)] Cons.prems(2) by simp
  have t2: "touches db_of content {} w1 w2" using scalar_quiet [OF s(2)] Cons.prems(2) touches_db_of [OF t1] by simp
  have "touches db_of content {} w2 w'"
    using Cons.IH [OF s(3)] Cons.prems(2) touches_db_of [OF t1] touches_db_of [OF t2] by simp
  then show ?case using touches_join [OF t1 touches_join [OF t2]] by blast
qed simp

lemma told_quiet:
  assumes "sqlite3_rows api (g_ward g) Q_Venue_Rows w = (venues, w1)" "sqlite3_rows api (g_ward g) Q_Board_Rows w1 = (board, w2)"
    "spark_items api (g_sparks g) w2 = (xs, w')" and b: "books db_of content n w g"
  shows "touches db_of content {} w w'"
proof -
  have o: "db_of w h \<noteq> None" if "h \<in> set (handles g)" for h using books_handles [OF b that] .
  have t1: "touches db_of content {} w w1" using rows_quiet [OF assms(1)] o by (simp add: handles_def)
  have t2: "touches db_of content {} w1 w2" using rows_quiet [OF assms(2)] o touches_db_of [OF t1] by (simp add: handles_def)
  have "touches db_of content {} w2 w'"
    using spark_items_quiet [OF assms(3)] o touches_db_of [OF t1] touches_db_of [OF t2] by (simp add: handles_def)
  then show ?thesis using touches_join [OF t1 touches_join [OF t2]] by blast
qed

lemma ward_open: "books db_of content n w g \<Longrightarrow> g_ward g \<noteq> 0"
  using books_handles [of db_of content n w g "g_ward g"] null_closed [of w] by (metis handles_ward)

lemma reply_item_quiet:
  assumes "reply_item api ok say g w = (x, w')" and b: "books db_of content 0 w g"
  shows "touches db_of content {} w w'"
proof -
  have "g_ward g \<noteq> 0" by (rule ward_open [OF b])
  then obtain h w1 venues w2 board w3 xs where s: "honest api g w = (h, w1)"
    "sqlite3_rows api (g_ward g) Q_Venue_Rows w1 = (venues, w2)" "sqlite3_rows api (g_ward g) Q_Board_Rows w2 = (board, w3)"
    "spark_items api (g_sparks g) w3 = (xs, w')"
    using assms(1) by (auto simp: reply_item_def Let_def split: prod.splits)
  have t: "touches db_of content {} w w1" by (rule honest_quiet [OF s(1) b])
  show ?thesis using touches_join [OF t told_quiet [OF s(2-4) books_quiet [OF t b]]] .
qed

end

context sql_reader
begin

lemma reply_item_honest:
  assumes r: "reply_item api ok say g w = (I_Map (x1 # x2 # x3 # x4 # x5 # x6 # xs), w')" and b: "books db_of content 0 w g"
    and small: "\<And>s. s \<in> set (g_sparks g) \<Longrightarrow> c_int (s_purse s)" "g_found g < 2 ^ 31"
  shows "x6 = I_Bool True"
proof -
  have "g_ward g \<noteq> 0" by (rule ward_open [OF b])
  moreover obtain w1 where "honest api g w = (0, w1)" using honest_books [OF b small] by blast
  ultimately show ?thesis using r by (auto simp: reply_item_def Let_def split: prod.splits)
qed

end

end
