(* ===== verification/Ward_Bounds.thy ===== *)
theory Ward_Bounds
  imports Ward_Game
begin

text \<open>
  What a cycle does to the numbers of the ward, on any engine and whatever its statements answer: the cycle is
  counted, wear stays between 0 and 90, the Debt Clock takes no more than its share, a Spark takes the first
  contract of the best score, and a group has no more than sixteen participants.
\<close>

section \<open>Counting cycles\<close>

lemma build_venue_cycle: "build_venue api g i w = (e, g', w') \<Longrightarrow> g_cycle g' = g_cycle g"
  unfolding build_venue_def by (elim do_elims) (clarsimp | simp)+

lemma commission_cycle: "commission api g w = (e, g', w') \<Longrightarrow> g_cycle g' = g_cycle g"
  unfolding commission_def by (elim do_elims) (auto dest: build_venue_cycle)

lemma post_rows_cycle: "post_rows api fuel g is w = Some (e, g', w') \<Longrightarrow> g_cycle g' = g_cycle g"
proof (induction "is" arbitrary: g w)
  case (Cons i "is")
  from Cons.prems show ?case unfolding post_rows.simps by (elim do_elims) (auto dest: Cons.IH)
qed simp

lemma post_board_cycle: "post_board api fuel g w = Some (e, g', w') \<Longrightarrow> g_cycle g' = g_cycle g"
  unfolding post_board_def by (elim do_elims) (auto dest: post_rows_cycle)

lemma pay_cycle: "pay api g grp k amount item w = (e, g', grp', w') \<Longrightarrow> g_cycle g' = g_cycle g"
  unfolding pay_def by (elim do_elims) (clarsimp | simp)+

lemma pay_wage_cycle: "pay_wage api g grp k won payout item w = (e, g', grp', w') \<Longrightarrow> g_cycle g' = g_cycle g"
  by (erule pay_wage_cases) (auto dest: pay_cycle)

lemma take_salvage_cycle: "take_salvage api g k won payout w = (e, item, g', w') \<Longrightarrow> g_cycle g' = g_cycle g"
  unfolding take_salvage_def by (elim do_elims) (auto simp: earn_def)

lemma wear_frame_cycle: "wear_frame api g k i won w = (e, g', w') \<Longrightarrow> g_cycle g' = g_cycle g"
  unfolding wear_frame_def by (elim do_elims) auto

lemma stand_at_cycle: "stand_at api g grp k i w = (e, g', grp', w') \<Longrightarrow> g_cycle g' = g_cycle g"
  unfolding stand_at_def by (elim do_elims) auto

lemma work_cycle: "work api fuel g grp k w = Some (e, g', grp', w') \<Longrightarrow> g_cycle g' = g_cycle g"
  unfolding work_def
  by (elim do_elims) (auto dest!: take_salvage_cycle wear_frame_cycle pay_wage_cycle stand_at_cycle)

lemma work_all_cycle: "work_all api fuel g grp ks w = Some (e, g', grp', w') \<Longrightarrow> g_cycle g' = g_cycle g"
proof (induction ks arbitrary: g grp w)
  case (Cons k ks)
  from Cons.prems show ?case unfolding work_all.simps by (elim do_elims) (auto dest!: work_cycle dest: Cons.IH)
qed simp

lemma debt_clock_cycle: "debt_clock g = (g', paid) \<Longrightarrow> g_cycle g' = g_cycle g"
  by (auto simp: debt_clock_def Let_def split: if_splits)

lemma cycle_body_cycle: "cycle_body api fuel g grp w = Some (e, a, g', grp', w') \<Longrightarrow> g_cycle g' = g_cycle g"
  unfolding cycle_body_def
  by (elim do_elims) (auto dest!: commission_cycle post_board_cycle work_all_cycle debt_clock_cycle)

lemma join_ward_cycle: "join_ward api g i w = Some (e, g', w') \<Longrightarrow> g_cycle g' = g_cycle g"
  unfolding join_ward_def by (elim do_elims) (clarsimp | simp)+

lemma cycle_counts: "cycle api fuel g w = Some (e, g', w') \<Longrightarrow> g_cycle g' = g_cycle g + 1"
  unfolding cycle_def by (elim do_elims) (auto dest!: cycle_body_cycle join_ward_cycle)

section \<open>Wear\<close>

text \<open>A Frame's wear stays between 0 and 90.\<close>

definition sound_frames :: "gyre \<Rightarrow> bool" where
  "sound_frames g \<longleftrightarrow> (\<forall>s \<in> set (g_sparks g). 0 \<le> s_wear s \<and> s_wear s \<le> 90)"

lemma worn_range: "0 \<le> worn won den wear \<and> worn won den wear \<le> 90"
  by (simp add: worn_def Let_def)

lemma sound_frames_update:
  "sound_frames g \<Longrightarrow> 0 \<le> s_wear s \<Longrightarrow> s_wear s \<le> 90 \<Longrightarrow> sound_frames (g\<lparr>g_sparks := (g_sparks g)[k := s]\<rparr>)"
  using set_update_subset_insert [of "g_sparks g" k s] by (auto simp: sound_frames_def)

lemma sound_frames_memory [simp]:
  "sound_frames (g\<lparr>g_rng := r\<rparr>) = sound_frames g" "sound_frames (g\<lparr>g_cycle := c\<rparr>) = sound_frames g"
  by (simp_all add: sound_frames_def)

lemma sound_frames_keep:
  assumes "sound_frames g" "g_sparks g' = (g_sparks g)[k := s]" "s_wear s = s_wear (g_sparks g ! k)"
  shows "sound_frames g'"
proof (cases "k < length (g_sparks g)")
  case True
  then have "g_sparks g ! k \<in> set (g_sparks g)" by simp
  then show ?thesis using assms set_update_subset_insert [of "g_sparks g" k s] by (auto simp: sound_frames_def)
qed (use assms in \<open>simp add: sound_frames_def list_update_beyond\<close>)

lemma pay_frames: "pay api g grp k amount item w = (e, g', grp', w') \<Longrightarrow> sound_frames g \<Longrightarrow> sound_frames g'"
  unfolding pay_def by (elim do_elims) (auto elim!: sound_frames_keep [where k = k])

lemma pay_wage_frames:
  "pay_wage api g grp k won payout item w = (e, g', grp', w') \<Longrightarrow> sound_frames g \<Longrightarrow> sound_frames g'"
  by (erule pay_wage_cases) (auto dest: pay_frames)

lemma take_salvage_frames:
  "take_salvage api g k won payout w = (e, item, g', w') \<Longrightarrow> sound_frames g \<Longrightarrow> sound_frames g'"
  unfolding take_salvage_def by (elim do_elims) (auto simp: earn_def sound_frames_def)

lemma wear_frame_frames: "wear_frame api g k i won w = (e, g', w') \<Longrightarrow> sound_frames g \<Longrightarrow> sound_frames g'"
  unfolding wear_frame_def by (elim do_elims) (auto intro!: sound_frames_update simp: worn_range)

lemma stand_at_frames: "stand_at api g grp k i w = (e, g', grp', w') \<Longrightarrow> sound_frames g \<Longrightarrow> sound_frames g'"
  unfolding stand_at_def by (elim do_elims) (auto elim!: sound_frames_keep [where k = k])

lemma work_frames: "work api fuel g grp k w = Some (e, g', grp', w') \<Longrightarrow> sound_frames g \<Longrightarrow> sound_frames g'"
  unfolding work_def
  by (elim do_elims) (auto dest!: take_salvage_frames wear_frame_frames pay_wage_frames stand_at_frames)

lemma work_all_frames: "work_all api fuel g grp ks w = Some (e, g', grp', w') \<Longrightarrow> sound_frames g \<Longrightarrow> sound_frames g'"
proof (induction ks arbitrary: g grp w)
  case (Cons k ks)
  from Cons.prems show ?case unfolding work_all.simps by (elim do_elims) (auto dest!: work_frames dest: Cons.IH)
qed simp

lemma build_venue_sparks: "build_venue api g i w = (e, g', w') \<Longrightarrow> g_sparks g' = g_sparks g"
  unfolding build_venue_def by (elim do_elims) (clarsimp | simp)+

lemma commission_sparks: "commission api g w = (e, g', w') \<Longrightarrow> g_sparks g' = g_sparks g"
  unfolding commission_def by (elim do_elims) (auto dest: build_venue_sparks)

lemma post_rows_sparks: "post_rows api fuel g is w = Some (e, g', w') \<Longrightarrow> g_sparks g' = g_sparks g"
proof (induction "is" arbitrary: g w)
  case (Cons i "is")
  from Cons.prems show ?case unfolding post_rows.simps by (elim do_elims) (auto dest: Cons.IH)
qed simp

lemma post_board_sparks: "post_board api fuel g w = Some (e, g', w') \<Longrightarrow> g_sparks g' = g_sparks g"
  unfolding post_board_def by (elim do_elims) (auto dest: post_rows_sparks)

lemma debt_clock_sparks: "debt_clock g = (g', paid) \<Longrightarrow> g_sparks g' = g_sparks g"
  by (auto simp: debt_clock_def Let_def split: if_splits)

lemma cycle_body_frames:
  "cycle_body api fuel g grp w = Some (e, a, g', grp', w') \<Longrightarrow> sound_frames g \<Longrightarrow> sound_frames g'"
  unfolding cycle_body_def
  by (elim do_elims) (auto dest!: commission_sparks post_board_sparks work_all_frames debt_clock_sparks simp: sound_frames_def)

lemma join_ward_frames: "join_ward api g i w = Some (e, g', w') \<Longrightarrow> sound_frames g \<Longrightarrow> sound_frames g'"
  unfolding join_ward_def by (elim do_elims) (auto simp: sound_frames_def)

lemma cycle_frames: "cycle api fuel g w = Some (e, g', w') \<Longrightarrow> sound_frames g \<Longrightarrow> sound_frames g'"
  unfolding cycle_def by (elim do_elims) (auto dest!: cycle_body_frames join_ward_frames)

section \<open>The Debt Clock\<close>

lemma debt_clock_share:
  assumes "debt_clock g = (g', paid)" "0 \<le> g_treasury g" "0 \<le> g_debt g"
  shows "0 \<le> paid \<and> 6 * paid \<le> g_treasury g \<and> g_treasury g' = g_treasury g - paid \<and> g_retired g' = g_retired g + paid
    \<and> g_debt g' = g_debt g + g_debt g div 100 - paid \<and> 0 \<le> g_debt g'"
proof -
  have "6 * (g_treasury g div 6) \<le> g_treasury g" by simp
  then show ?thesis
    using assms by (auto simp: debt_clock_def Let_def c_arith pos_imp_zdiv_nonneg_iff split: if_splits)
qed

section \<open>Choosing a contract\<close>

text \<open>What a contract is worth to a Spark of this nerve, and the first row of the best score.\<close>

definition worth :: "int \<Rightarrow> sqlval list \<Rightarrow> int" where
  "worth nerve row = column_int (row ! 1) * nerve sdiv 100 - column_int (row ! 2)"

lemma best_contract_first:
  "(\<forall>row \<in> set rows. worth nerve row \<le> score) \<and> best_contract nerve best score rows = best \<or>
   (\<exists>pre row post. rows = pre @ row # post \<and> best_contract nerve best score rows = column_int (row ! 0)
      \<and> score < worth nerve row \<and> (\<forall>r \<in> set pre. worth nerve r < worth nerve row)
      \<and> (\<forall>r \<in> set post. worth nerve r \<le> worth nerve row))"
proof (induction rows arbitrary: best score)
  case (Cons row rows)
  show ?case
  proof (cases "score < worth nerve row")
    case True
    then have b: "best_contract nerve best score (row # rows) = best_contract nerve (column_int (row ! 0)) (worth nerve row) rows"
      by (simp add: worth_def Let_def)
    from Cons.IH [of "worth nerve row" "column_int (row ! 0)"] show ?thesis
    proof (elim disjE exE conjE)
      assume "\<forall>r \<in> set rows. worth nerve r \<le> worth nerve row"
        "best_contract nerve (column_int (row ! 0)) (worth nerve row) rows = column_int (row ! 0)"
      then show ?thesis using True b by (intro disjI2 exI [of _ "[]"] exI [of _ row] exI [of _ rows]) simp
    next
      fix pre r post
      assume "rows = pre @ r # post" "best_contract nerve (column_int (row ! 0)) (worth nerve row) rows = column_int (r ! 0)"
        "worth nerve row < worth nerve r" "\<forall>q \<in> set pre. worth nerve q < worth nerve r" "\<forall>q \<in> set post. worth nerve q \<le> worth nerve r"
      then show ?thesis using True b by (intro disjI2 exI [of _ "row # pre"] exI [of _ r] exI [of _ post]) simp
    qed
  next
    case False
    then have b: "best_contract nerve best score (row # rows) = best_contract nerve best score rows"
      by (simp add: worth_def Let_def)
    from Cons.IH [of score best] show ?thesis
    proof (elim disjE exE conjE)
      fix pre r post
      assume "rows = pre @ r # post" "best_contract nerve best score rows = column_int (r ! 0)"
        "score < worth nerve r" "\<forall>q \<in> set pre. worth nerve q < worth nerve r" "\<forall>q \<in> set post. worth nerve q \<le> worth nerve r"
      then show ?thesis using False b by (intro disjI2 exI [of _ "row # pre"] exI [of _ r] exI [of _ post]) auto
    qed (use False b in auto)
  qed
qed simp

section \<open>The group\<close>

definition small_group :: "group \<Rightarrow> bool" where
  "small_group grp \<longleftrightarrow> distinct (grp_dbs grp) \<and> int (length (grp_dbs grp)) \<le> TXN_MAX_PARTS"

lemma group_join_small: "group_join api grp db w = (e, grp', w') \<Longrightarrow> small_group grp \<Longrightarrow> small_group grp'"
  unfolding group_join_def by (elim do_elims) (auto simp: small_group_def)

lemma group_begin_small: "group_begin api db w = (e, grp, w') \<Longrightarrow> small_group grp"
  unfolding group_begin_def
  by (elim do_elims) (auto simp: small_group_def TXN_MAX_PARTS_def dest!: group_join_small split: option.splits)

lemma pay_small: "pay api g grp k amount item w = (e, g', grp', w') \<Longrightarrow> small_group grp \<Longrightarrow> small_group grp'"
  unfolding pay_def by (elim do_elims) (auto dest!: group_join_small)

lemma pay_wage_small: "pay_wage api g grp k won payout item w = (e, g', grp', w') \<Longrightarrow> small_group grp \<Longrightarrow> small_group grp'"
  by (erule pay_wage_cases) (auto dest: pay_small)

lemma stand_at_small: "stand_at api g grp k i w = (e, g', grp', w') \<Longrightarrow> small_group grp \<Longrightarrow> small_group grp'"
  unfolding stand_at_def by (elim do_elims) (auto dest!: group_join_small)

lemma work_small: "work api fuel g grp k w = Some (e, g', grp', w') \<Longrightarrow> small_group grp \<Longrightarrow> small_group grp'"
  unfolding work_def by (elim do_elims) (auto dest!: pay_wage_small stand_at_small)

lemma work_all_small: "work_all api fuel g grp ks w = Some (e, g', grp', w') \<Longrightarrow> small_group grp \<Longrightarrow> small_group grp'"
proof (induction ks arbitrary: g grp w)
  case (Cons k ks)
  from Cons.prems show ?case unfolding work_all.simps by (elim do_elims) (auto dest!: work_small dest: Cons.IH)
qed simp

lemma cycle_body_small:
  "cycle_body api fuel g grp w = Some (e, a, g', grp', w') \<Longrightarrow> small_group grp \<Longrightarrow> small_group grp'"
  unfolding cycle_body_def by (elim do_elims) (auto dest!: work_all_small)

section \<open>The board\<close>

text \<open>A contract as \<open>post_board\<close> leaves it. The Plaza adds a quarter to the payout.\<close>

definition posted :: "int \<Rightarrow> int \<Rightarrow> board_row \<Rightarrow> bool" where
  "posted no cyc r \<longleftrightarrow> br_cycle r = cyc \<and> 10 \<le> br_risk r \<and> br_risk r \<le> 64
     \<and> 23 \<le> br_payout r \<and> br_payout r \<le> 86 \<and> br_taken r = - 1 \<and> br_outcome r = None
     \<and> (\<exists>wire. wire_id no (WIRE_CONTRACT_BASE + word_of_int (br_id r)) = Some wire \<and> br_wire r = Some (uint wire))"

definition posted_board :: "int \<Rightarrow> int \<Rightarrow> nat \<Rightarrow> database \<Rightarrow> bool" where
  "posted_board no cyc n d \<longleftrightarrow>
     (\<exists>rows. tb_board d = Some rows \<and> map br_id rows = map int [1..<Suc n] \<and> (\<forall>r \<in> set rows. posted no cyc r))"

lemma next_rowid_upto: "next_rowid (map int [1..<Suc n]) = int n + 1"
proof -
  have "fold max (map int [1..<Suc n]) 1 = max 1 (int n)"
    by (induction n) simp_all
  then show ?thesis by (cases n) (simp_all add: next_rowid_def upt_rec)
qed

lemma post_one:
  assumes d: "posted_board no cyc n d"
    and i: "apply_stmts [Insert_Board cyc kind payout risk p] d = Some d1"
    and u: "apply_stmts [Update_Board_Wire wire owner (int n + 1)] d1 = Some d2"
    and w: "wire_id no (WIRE_CONTRACT_BASE + word_of_int (int n + 1)) = Some wire"
    and range: "10 \<le> risk" "risk \<le> 64" "23 \<le> payout" "payout \<le> 86"
  shows "posted_board no cyc (Suc n) d2"
proof -
  obtain rows where rows: "tb_board d = Some rows" "map br_id rows = map int [1..<Suc n]" "\<forall>r \<in> set rows. posted no cyc r"
    using d by (auto simp: posted_board_def)
  obtain k where d1: "tb_board d1 = Some (rows @ [\<lparr>br_id = int n + 1, br_cycle = cyc, br_kind = k, br_payout = payout, br_risk = risk,
      br_taken = - 1, br_outcome = None, br_at = p, br_wire = None, br_owner = None\<rparr>])"
    using i rows next_rowid_upto [of n] by (auto simp del: upt_Suc split: Option.bind_splits)
  have old: "br_id r \<noteq> int n + 1" if "r \<in> set rows" for r
  proof -
    have "br_id r \<in> set (map int [1..<Suc n])" using that rows(2) by (metis image_eqI set_map)
    then show ?thesis by auto
  qed
  then have "map (\<lambda>r. if br_id r = int n + 1 then r\<lparr>br_wire := Some (uint wire), br_owner := Some (uint owner)\<rparr> else r) rows = rows"
    by (simp add: map_idI)
  then have "tb_board d2 = Some (rows @ [\<lparr>br_id = int n + 1, br_cycle = cyc, br_kind = k, br_payout = payout, br_risk = risk,
      br_taken = - 1, br_outcome = None, br_at = p, br_wire = Some (uint wire), br_owner = Some (uint owner)\<rparr>])"
    using u d1 by (auto simp: update_where_def Let_def split: if_splits)
  then show ?thesis using rows w range by (simp add: posted_board_def posted_def)
qed

lemma payout_range:
  assumes "rng_below fuel r 55 = Some (v, r1)" "rng_below fuel r1 20 = Some (x, r2)"
  defines "risk \<equiv> 10 + uint v" and "base \<equiv> 18 + (10 + uint v) sdiv 2 + uint x"
  shows "10 \<le> risk \<and> risk \<le> 64 \<and> 23 \<le> (if plaza then base + base sdiv 4 else base)
    \<and> (if plaza then base + base sdiv 4 else base) \<le> 86"
proof -
  have "unat v < 55" "unat x < 20"
    using rng_below_less [OF assms(1)] rng_below_less [OF assms(2)] by simp_all
  then have r: "0 \<le> uint v" "uint v \<le> 54" "0 \<le> uint x" "uint x \<le> 19"
    using of_nat_unat [of v, where 'a = int] of_nat_unat [of x, where 'a = int] by linarith+
  have "5 \<le> (10 + uint v) div 2" "(10 + uint v) div 2 \<le> 32" using r(1,2) by linarith+
  moreover have "base = 18 + (10 + uint v) div 2 + uint x" using r by (simp add: base_def c_arith)
  ultimately have b: "23 \<le> base" "base \<le> 69" using r by linarith+
  then have "5 \<le> base div 4" "base div 4 \<le> 17" by linarith+
  then show ?thesis using b r unfolding risk_def by (simp add: c_arith)
qed

context sql_engine
begin

lemma built_keeps: "built api g i w = (b, w') \<Longrightarrow> db_of w (g_ward g) = Some f \<Longrightarrow> db_of w' = db_of w \<and> content w' = content w"
  by (auto simp: built_def scalar_def split: prod.splits dest: rows_frame)

lemma post_rows_posted:
  "post_rows api fuel g is w = Some (0, g', w') \<Longrightarrow> db_of w (g_ward g) = Some f \<Longrightarrow>
     posted_board (g_ward_no g) (g_cycle g) n (content w f) \<Longrightarrow>
     posted_board (g_ward_no g) (g_cycle g) (n + length is) (content w' f)"
proof (induction "is" arbitrary: g w n)
  case (Cons i "is")
  from Cons.prems(1) obtain k r0 v r1 x r2 plaza w1 lit w2 wire w3 where
    draws: "rng_below fuel r0 55 = Some (v, r1)" "rng_below fuel r1 20 = Some (x, r2)"
    and b: "built api (g\<lparr>g_rng := r2\<rparr>) 3 w = (plaza, w1)"
    and ins: "run api (g_ward g) [Insert_Board (g_cycle g) lit
          (if plaza then 18 + (10 + uint v) sdiv 2 + uint x + (18 + (10 + uint v) sdiv 2 + uint x) sdiv 4
           else 18 + (10 + uint v) sdiv 2 + uint x) (10 + uint v) (contract_place (g_cycle g * BOARD_SIZE + int i))] w1 = (0, w2)"
    and wire: "wire_id (g_ward_no g) (WIRE_CONTRACT_BASE + word_of_int (sqlite3_last_insert_rowid api (g_ward g) w2)) = Some wire"
    and upd: "run api (g_ward g) [Update_Board_Wire wire (class_owner CLASS_CONTRACT (g_ward_no g))
          (sqlite3_last_insert_rowid api (g_ward g) w2)] w2 = (0, w3)"
    and rest: "post_rows api fuel (g\<lparr>g_rng := r2\<rparr>) is w3 = Some (0, g', w')"
    unfolding post_rows.simps by (elim do_elims) (auto simp: Let_def)
  have k1: "db_of w1 = db_of w" "content w1 = content w" using built_keeps [OF b] Cons.prems(2) by simp_all
  have o1: "db_of w1 (g_ward g) = Some f" using k1 Cons.prems(2) by simp
  obtain rows where rows: "tb_board (content w1 f) = Some rows" "map br_id rows = map int [1..<Suc n]"
    using Cons.prems(3) k1 by (auto simp: posted_board_def)
  have e: "sqlite3_exec api (g_ward g) ss w' = (True, w'')" if "run api (g_ward g) ss w' = (0, w'')" for ss w' w''
    using that by (auto simp: run_def split: prod.splits if_splits)
  have row: "sqlite3_last_insert_rowid api (g_ward g) w2 = int n + 1"
    using exec_rowid [OF e [OF ins] o1 rows(1)] rows(2) next_rowid_upto by simp
  have o2: "db_of w2 (g_ward g) = Some f" using exec_frame [OF e [OF ins] o1] o1 by simp
  have o3: "db_of w3 (g_ward g) = Some f" using exec_frame [OF e [OF upd] o2] o2 by simp
  have "posted_board (g_ward_no g) (g_cycle g) (Suc n) (content w3 f)"
    by (rule post_one [OF Cons.prems(3) [folded k1(2)] exec_ok [OF e [OF ins] o1] exec_ok [OF e [OF upd] o2, unfolded row] wire [unfolded row]])
      (use payout_range [OF draws, of plaza] in simp_all)
  then show ?case using Cons.IH [OF rest, of "Suc n"] o3 by simp
qed simp

lemma post_board_posted:
  assumes p: "post_board api fuel g w = Some (0, g', w')" and o: "db_of w (g_ward g) = Some f"
  shows "\<exists>n \<in> {6, 9}. posted_board (g_ward_no g) (g_cycle g) n (content w' f)"
proof -
  obtain rails w1 w2 where b: "built api g 2 w = (rails, w1)" and d: "run api (g_ward g) [Delete_Board] w1 = (0, w2)"
    and r: "post_rows api fuel g [0..<nat (BOARD_SIZE + (if rails then 3 else 0))] w2 = Some (0, g', w')"
    using p unfolding post_board_def by (elim do_elims) auto
  have o1: "db_of w1 (g_ward g) = Some f" using built_keeps [OF b o] o by simp
  have e: "sqlite3_exec api (g_ward g) [Delete_Board] w1 = (True, w2)"
    using d by (auto simp: run_def split: prod.splits if_splits)
  have "apply_stmts [Delete_Board] (content w1 f) = Some (content w2 f)" using exec_ok [OF e o1] by simp
  then have "posted_board (g_ward_no g) (g_cycle g) 0 (content w2 f)"
    by (auto simp: posted_board_def dest!: sym [of _ "content w2 f"] split: Option.bind_splits)
  from post_rows_posted [OF r _ this] exec_frame [OF e o1] o1 show ?thesis
    by (cases rails) (simp_all add: BOARD_SIZE_def)
qed

end

end
