(* ===== verification/Interactor_Theorems.thy ===== *)
theory Interactor_Theorems
  imports Interactor Ward_Bounds Ward_Theorems
begin

text \<open>
  What the interactor promises: that its reply is the one it means and can be read back, that a command that was
  obeyed leaves honest books, that the others change nothing, and what the typed numbers do.
\<close>

section \<open>Reading what was typed\<close>

lemma dec_of_digits: "list_all is_digit (dec_of n)"
  using dec_of_value [of n] by (simp add: list_all_iff)

lemma dec_of_nonempty: "dec_of n \<noteq> []"
  by (subst dec_of.simps) simp

lemma digits_value_dec: "digits_value (dec_of n) = int n"
  using dec_of_value [of n] by simp

lemma digit_not_space: "is_digit c \<Longrightarrow> \<not> is_space c \<and> c \<noteq> CHR ''-'' \<and> c \<noteq> CHR ''+'' \<and> c \<noteq> CHR '' '' \<and> c \<noteq> CHR ''/''"
  by (auto simp: is_digit_def is_space_def)

lemma atoi_digit: "c \<noteq> CHR ''-'' \<Longrightarrow> c \<noteq> CHR ''+'' \<Longrightarrow> \<not> is_space c \<Longrightarrow> c_atoi (c # cs) = digits_value (c # cs)"
  by (cases c) (auto simp: c_atoi_def split: bool.split)

lemma atoi_dec: "c_atoi (dec i) = i"
proof -
  obtain c cs where d: "dec_of (nat \<bar>i\<bar>) = c # cs" using dec_of_nonempty by (meson list.exhaust)
  then have c: "is_digit c" using dec_of_digits [of "nat \<bar>i\<bar>"] by simp
  have v: "digits_value (c # cs) = \<bar>i\<bar>" using digits_value_dec [of "nat \<bar>i\<bar>"] d by simp
  show ?thesis
  proof (cases "i < 0")
    case True
    then have "dec i = CHR ''-'' # c # cs" using d by (simp add: dec_def)
    then show ?thesis using v True by (simp add: c_atoi_def is_space_def)
  next
    case False
    then have "dec i = c # cs" using d by (simp add: dec_def)
    then show ?thesis using v False atoi_digit [of c cs] digit_not_space [OF c] by simp
  qed
qed

lemma split_space_append: "CHR '' '' \<notin> set xs \<Longrightarrow> split_space (xs @ CHR '' '' # ys) = (xs, Some ys)"
  by (induction xs) auto

lemma split_space_none: "CHR '' '' \<notin> set xs \<Longrightarrow> split_space xs = (xs, None)"
  by (induction xs) auto

lemma dec_no_space: "CHR '' '' \<notin> set (dec i)"
proof -
  have "CHR '' '' \<notin> set (dec_of n)" for n
    using dec_of_digits [of n] digit_not_space [of "CHR '' ''"] by (auto simp: list_all_iff)
  then show ?thesis by (simp add: dec_def)
qed

lemma split_typed:
  assumes "CHR '' '' \<notin> set verb" "verb \<noteq> []" "hd verb \<noteq> CHR ''/''"
  shows "split_command (CHR ''/'' # verb @ CHR '' '' # dec a @ CHR '' '' # dec b) = (verb, Some (dec a), Some (dec b))"
proof -
  obtain c cs where v: "verb = c # cs" using assms(2) by (cases verb) auto
  have "dropWhile (\<lambda>x. x = CHR ''/'' \<or> x = CHR '' '') (CHR ''/'' # verb @ zs) = verb @ zs" for zs
    using assms v by auto
  then show ?thesis
    using split_space_append [OF assms(1)] split_space_append [OF dec_no_space] split_space_none [OF dec_no_space]
    unfolding split_command_def by simp
qed

lemma run_cycles_counts: "run_cycles api fuel n g w = Some (True, say, g', w') \<Longrightarrow> g_cycle g' = g_cycle g + int n"
proof (induction n arbitrary: g w)
  case (Suc n)
  obtain g1 w1 w2 where s: "cycle api fuel g w = Some (0, g1, w1)" "run_cycles api fuel n g1 w2 = Some (True, say, g', w')"
    using Suc.prems(1) by (auto split: Option.bind_splits if_splits prod.splits)
  show ?case using Suc.IH [OF s(2)] cycle_counts [OF s(1)] by simp
qed simp

lemma cycles_asked_range: "1 \<le> cycles_asked arg1 \<and> cycles_asked arg1 \<le> 64"
  by (simp add: cycles_asked_def Let_def)
section \<open>The interactor\<close>

text \<open>C17. The interactor is its specification: for every engine, command and capacity, the bytes of a reply are the
  encoding of the one data item \<open>reply_item\<close> when it fits the buffer and none when it does not, the ward and the
  world after it are those of the command and of the reads of the reply, and \<open>stop\<close> is raised by a restart that
  failed and by nothing else.\<close>

theorem ward_ask_refines:
  "ward_ask api fuel g command cap stop w =
     do { let (verb, arg1, arg2) = split_command (take 511 command);
          (ok, say, g, w) \<leftarrow> obey api fuel g verb arg1 arg2 w;
          let (x, w) = reply_item api ok say g w;
          Some (if length (encode x) \<le> cap then encode x else [], stop \<or> verb = ''restart'' \<and> \<not> ok, g, w) }"
  by (rule ward_ask_reply)

text \<open>C18. A reply is read back exactly: a reader of RFC 8949 that gets a reply whose integers fit 64 bits gets
  the one map of seven pairs that was meant, with nothing left over, or no bytes at all when the ward did not
  fit.\<close>

theorem reply_reads_back:
  assumes "split_command (take 511 command) = (verb, arg1, arg2)"
    and "obey api fuel g verb arg1 arg2 w = Some (ok, say, g', w1)"
    and "reply_item api ok say g' w1 = (x, w')" and "writable x"
  shows "ward_ask api fuel g command cap stop w =
      Some (if length (encode x) \<le> cap then encode x else [], stop \<or> verb = ''restart'' \<and> \<not> ok, g', w')
    \<and> decode (encode x) = Some (x, []) \<and> (\<exists>ys. x = I_Map ys \<and> length ys = 14)"
proof -
  have "decode (encode x) = Some (x, [])"
    using read_item_encode [OF assms(4), of _ "[]"] by (simp add: decode_def)
  moreover have "\<exists>ys. x = I_Map ys \<and> length ys = 14"
    using assms(3) by (auto simp: reply_item_def Let_def split: prod.splits if_splits)
  ultimately show ?thesis using assms(1-3) by (simp add: ward_ask_reply)
qed

lemma ex_reply: "\<exists>x w'. reply_item mem_engine True ''the ward as it stands'' ex_gyre ex_world = (x, w') \<and> writable x"
  by (simp add: reply_item_def honest_def purses_def Let_def engine_eval text_item_def ward_item_def ward_room_def
      rows_item_def row_item_def cell_item_def venue_cells_def spark_item_def VCOLS_def BCOLS_def spark_home_def upt_rec)

lemma split_look: "split_command (take 511 ''/look'') = (''look'', None, None)"
  by (simp add: split_command_def eval_nat_numeral)

theorem reply_reads_back_witness:
  "\<exists>x reply w'. ward_ask mem_engine 1 ex_gyre ''/look'' (length (encode x)) False ex_world = Some (reply, False, ex_gyre, w')
     \<and> decode reply = Some (x, [])"
proof -
  obtain x w' where x: "reply_item mem_engine True ''the ward as it stands'' ex_gyre ex_world = (x, w')" "writable x"
    using ex_reply by blast
  have o: "obey mem_engine 1 ex_gyre ''look'' None None ex_world = Some (True, ''the ward as it stands'', ex_gyre, ex_world)"
    by (simp add: obey_def)
  from reply_reads_back [OF split_look o x, of "length (encode x)" False]
  have "ward_ask mem_engine 1 ex_gyre ''/look'' (length (encode x)) False ex_world = Some (encode x, False, ex_gyre, w')"
    "decode (encode x) = Some (x, [])" by simp_all
  then show ?thesis by blast
qed

text \<open>C5. A command that was obeyed leaves an honest ward, and the reply says so: on an engine whose queries run to
  their end, a ward that keeps its books and the names of its databases keeps both through \<open>cycle\<close>,
  \<open>commission\<close>, \<open>pay\<close>, \<open>restart\<close> and every other command that answered \<open>ok\<close>, and the pair \<open>honest\<close> of the
  reply is true as long as the purses and the count of salvage fit an int.\<close>

theorem obeyed_command_honest:
  assumes "sql_reader api db_of content" and "books db_of content 0 w g" and "named db_of w g"
    and "obey api fuel g verb arg1 arg2 w = Some (True, say, g', w1)"
    and "reply_item api True say g' w1 = (I_Map (x1 # x2 # x3 # x4 # x5 # x6 # xs), w')"
    and "\<forall>s \<in> set (g_sparks g'). c_int (s_purse s)" and "g_found g' < 2 ^ 31"
  shows "books db_of content 0 w' g' \<and> named db_of w' g' \<and> x6 = I_Bool True"
proof -
  have e: "sql_engine api db_of content" using assms(1) by (simp add: sql_reader_def)
  have k: "kept db_of content w1 g'"
    using sql_engine.obey_kept [OF e assms(4)] assms(2,3) by (simp add: kept_def)
  then have b: "books db_of content 0 w1 g'" by (simp add: kept_def)
  have "kept db_of content w' g'"
    using sql_engine.kept_quiet [OF e sql_engine.reply_item_quiet [OF e assms(5) b] k] .
  then show ?thesis
    using sql_reader.reply_item_honest [OF assms(1,5) b _ assms(7)] assms(6) by (simp add: kept_def)
qed

lemma ex_pay_spark: "find_spark 0 (g_sparks ex_gyre) = Some 0"
  by (simp add: find_spark_def ex_gyre_def)

lemma ex_obey_pay:
  "map_option (\<lambda>(ok, say, g, w). (ok, say, map s_purse (g_sparks g), g_found g))
     (obey mem_engine 1 ex_gyre ''pay'' (Some ''0'') (Some ''50'') ex_world) = Some (True, ''paid'', [50], 0)"
  by (simp add: obey_def obey_pay_def find_spark_def c_atoi_def digits_value_def is_digit_def is_space_def less_eq_char_def
      pay_alone_def pay_def engine_eval Let_def)

theorem obeyed_command_honest_witness:
  "\<exists>g w1. obey mem_engine 1 ex_gyre ''pay'' (Some ''0'') (Some ''50'') ex_world = Some (True, ''paid'', g, w1)
     \<and> map s_purse (g_sparks g) = [50]
     \<and> (\<forall>xs x1 x2 x3 x4 x5 x6 w'. reply_item mem_engine True ''paid'' g w1 = (I_Map (x1 # x2 # x3 # x4 # x5 # x6 # xs), w')
          \<longrightarrow> books mem_file m_files 0 w' g \<and> x6 = I_Bool True)"
proof -
  obtain g w1 where o: "obey mem_engine 1 ex_gyre ''pay'' (Some ''0'') (Some ''50'') ex_world = Some (True, ''paid'', g, w1)"
    and g: "map s_purse (g_sparks g) = [50]" "g_found g = 0"
    using ex_obey_pay by auto
  have "\<forall>s \<in> set (g_sparks g). c_int (s_purse s)" using g(1) by (auto simp: c_int_def)
  then show ?thesis using obeyed_command_honest [OF mem.sql_reader_axioms ex_books ex_named o] o g by auto
qed



text \<open>The command \<open>cycle\<close> runs at least one and at most 64 cycles, and exactly the number that was typed when it
  is within those bounds: this many cycles were counted when it answers \<open>ok\<close>.\<close>

theorem cycle_command_bounded:
  assumes "obey api fuel g ''cycle'' arg1 arg2 w = Some (True, say, g', w')"
  shows "1 \<le> g_cycle g' - g_cycle g \<and> g_cycle g' - g_cycle g \<le> 64
    \<and> (\<forall>n. arg1 = Some (dec n) \<longrightarrow> 1 \<le> n \<longrightarrow> n \<le> 64 \<longrightarrow> g_cycle g' = g_cycle g + n)"
proof -
  have "run_cycles api fuel (nat (cycles_asked arg1)) g w = Some (True, say, g', w')"
    using assms by (simp add: obey_def)
  from run_cycles_counts [OF this] cycles_asked_range [of arg1]
  show ?thesis by (auto simp: cycles_asked_def atoi_dec)
qed

theorem cycle_command_bounded_witness:
  "\<exists>g w. obey mem_engine 1 ex_gyre ''cycle'' (Some (dec 1)) None ex_world = Some (True, ''the ward moved'', g, w) \<and> g_cycle g = 1"
proof -
  have "map_option (\<lambda>(ok, say, g, w). (ok, say)) (run_cycles mem_engine 1 (Suc 0) ex_gyre ex_world) = Some (True, ''the ward moved'')"
    by (simp add: honest_def purses_def cycle_eval upt_rec Let_def)
  then obtain g w where r: "obey mem_engine 1 ex_gyre ''cycle'' (Some (dec 1)) None ex_world = Some (True, ''the ward moved'', g, w)"
    by (auto simp: obey_def cycles_asked_def atoi_dec)
  from cycle_command_bounded [OF r] have "g_cycle g = g_cycle ex_gyre + 1" by auto
  then show ?thesis using r by (auto simp: ex_gyre_def zero_gyre_def)
qed

text \<open>A payment that was typed is the payment that is made: \<open>/pay\<close> with the decimal digits of a Spark's id and of
  an amount the treasury holds pays that Spark that amount in a group of its own, and says whether it landed.\<close>

theorem typed_payment_is_made:
  assumes "find_spark who (g_sparks g) = Some k" and "0 < amount" and "amount \<le> g_treasury g"
    and "pay_alone api g k amount None w = (e, g', w')"
  shows "(case split_command (''/pay '' @ dec who @ '' '' @ dec amount) of (verb, arg1, arg2) \<Rightarrow> obey api fuel g verb arg1 arg2 w)
    = Some (e = 0, if e = 0 then ''paid'' else ''the payment landed on neither side'', g', w')"
  using split_typed [of "''pay''" who amount] assms by (simp add: obey_def obey_pay_def atoi_dec Let_def)

theorem typed_payment_is_made_witness:
  "\<exists>g w. (case split_command (''/pay '' @ dec 0 @ '' '' @ dec 50) of (verb, arg1, arg2) \<Rightarrow> obey mem_engine 1 ex_gyre verb arg1 arg2 ex_world)
    = Some (True, ''paid'', g, w)"
proof -
  obtain e g w where p: "pay_alone mem_engine ex_gyre 0 50 None ex_world = (e, g, w)" by (metis prod_cases3)
  moreover have "fst (pay_alone mem_engine ex_gyre 0 50 None ex_world) = 0"
    by (simp add: pay_alone_def pay_def engine_eval Let_def)
  ultimately have e: "e = 0" by simp
  have t: "(0 :: int) < 50" "50 \<le> g_treasury ex_gyre" by (simp_all add: ex_gyre_def)
  from typed_payment_is_made [OF ex_pay_spark t p, of 1] e show ?thesis by simp
qed

text \<open>A command longer than 511 bytes is cut, not dropped: the ward obeys its first 511 bytes. The comment on
  \<open>WARD_COMMAND_MAX\<close> says that a longer one is dropped.\<close>

theorem overlong_command_is_cut:
  "ward_ask api fuel g command cap stop w = ward_ask api fuel g (take 511 command) cap stop w"
  by (simp add: ward_ask_reply)

end
