(* ===== verification/Ward_Bounds_Theorems.thy ===== *)
theory Ward_Bounds_Theorems
  imports Ward_Bounds Ward_Theorems
begin

text \<open>
  What a cycle promises of its numbers: wear, the Debt Clock, the board, the contract a Spark takes and the size of
  the group it commits as.
\<close>

section \<open>Bounds of a cycle\<close>

text \<open>A cycle keeps every Frame's wear between 0 and 90 and counts itself once, on any engine and whether it
  succeeds or gives up.\<close>

theorem cycle_keeps_frames:
  assumes "cycle api fuel g w = Some (e, g', w')" and "\<forall>s \<in> set (g_sparks g). 0 \<le> s_wear s \<and> s_wear s \<le> 90"
  shows "(\<forall>s \<in> set (g_sparks g'). 0 \<le> s_wear s \<and> s_wear s \<le> 90) \<and> g_cycle g' = g_cycle g + 1"
  using cycle_frames [OF assms(1)] assms(2) cycle_counts [OF assms(1)] by (simp add: sound_frames_def)

theorem cycle_keeps_frames_witness:
  "\<exists>g w. cycle mem_engine 1 ex_gyre ex_world = Some (0, g, w) \<and> (\<forall>s \<in> set (g_sparks g). 0 \<le> s_wear s \<and> s_wear s \<le> 90) \<and> g_cycle g = 1"
proof -
  obtain g w where c: "cycle mem_engine 1 ex_gyre ex_world = Some (0, g, w)" by (rule ex_cycled)
  have "\<forall>s \<in> set (g_sparks ex_gyre). 0 \<le> s_wear s \<and> s_wear s \<le> 90" by (simp add: ex_gyre_def)
  from cycle_keeps_frames [OF c this] c show ?thesis by (simp add: ex_gyre_def zero_gyre_def)
qed

text \<open>The Debt Clock compounds the debt by a hundredth, rounded down, and takes at most a sixth of the treasury and
  at most the debt: the treasury and the debt stay at or above zero, and what leaves the treasury is what was
  retired.\<close>

theorem debt_clock_takes_its_share:
  assumes "debt_clock g = (g', paid)" and "0 \<le> g_treasury g" and "0 \<le> g_debt g"
  shows "0 \<le> paid \<and> 6 * paid \<le> g_treasury g \<and> g_treasury g' = g_treasury g - paid \<and> 0 \<le> g_treasury g'
    \<and> g_retired g' = g_retired g + paid \<and> g_debt g' = g_debt g + g_debt g div 100 - paid \<and> 0 \<le> g_debt g'"
  using debt_clock_share [OF assms] by auto

theorem debt_clock_takes_its_share_witness:
  "snd (debt_clock ex_gyre) = 50 \<and> 6 * snd (debt_clock ex_gyre) \<le> g_treasury ex_gyre"
proof -
  obtain g paid where d: "debt_clock ex_gyre = (g, paid)" by fastforce
  moreover have "snd (debt_clock ex_gyre) = 50" by (simp add: debt_clock_def ex_gyre_def zero_gyre_def)
  ultimately show ?thesis
    using debt_clock_takes_its_share [OF d] by (simp add: ex_gyre_def zero_gyre_def)
qed

text \<open>C32. The board after a posting that succeeded, on any engine: six contracts, or nine with the Rails, numbered from
  one, each open, of risk 10 to 64 and payout 23 to 86, and each with the wire name of its row in this ward.\<close>

theorem post_board_contracts:
  assumes "sql_engine api db_of content" and "post_board api fuel g w = Some (0, g', w')"
    and "db_of w (g_ward g) = Some f"
  shows "\<exists>rows. tb_board (content w' f) = Some rows \<and> length rows \<in> {6, 9}
    \<and> map br_id rows = map int [1..<Suc (length rows)]
    \<and> (\<forall>r \<in> set rows. br_taken r = - 1 \<and> 10 \<le> br_risk r \<and> br_risk r \<le> 64 \<and> 23 \<le> br_payout r \<and> br_payout r \<le> 86
        \<and> (\<exists>wire. wire_id (g_ward_no g) (WIRE_CONTRACT_BASE + word_of_int (br_id r)) = Some wire \<and> br_wire r = Some (uint wire)))"
proof -
  obtain n rows where n: "n \<in> {6, 9}" "tb_board (content w' f) = Some rows" "map br_id rows = map int [1..<Suc n]"
    "\<forall>r \<in> set rows. posted (g_ward_no g) (g_cycle g) r"
    using sql_engine.post_board_posted [OF assms] unfolding posted_board_def by blast
  have "length (map br_id rows) = length (map int [1..<Suc n])" by (simp only: n(3))
  then have "length rows = n" by (simp del: upt_Suc)
  then show ?thesis using n by (auto simp: posted_def)
qed

theorem post_board_contracts_witness:
  "\<exists>g w rows. post_board mem_engine 1 ex_gyre ex_world = Some (0, g, w) \<and> tb_board (m_files w ''a-ward.db'') = Some rows
     \<and> length rows = 6 \<and> (\<forall>r \<in> set rows. br_risk r \<le> 64)"
proof -
  have "map_option (\<lambda>(e, g, w). (e, map_option length (tb_board (m_files w ''a-ward.db'')))) (post_board mem_engine 1 ex_gyre ex_world)
      = Some (0, Some 6)"
    by (simp add: cycle_eval upt_rec Let_def)
  then obtain g w where p: "post_board mem_engine 1 ex_gyre ex_world = Some (0, g, w)"
    and l: "map_option length (tb_board (m_files w ''a-ward.db'')) = Some 6" by auto
  have "mem_file ex_world (g_ward ex_gyre) = Some ''a-ward.db''" by (simp add: mem_file_def ex_world_def ex_gyre_def)
  from post_board_contracts [OF mem.sql_engine_axioms p this] p l show ?thesis by auto
qed

text \<open>A Spark takes the best contract and the first of those: the scan over the board answers the given number
  when no row is worth more than the given score, and otherwise the id of a row that is worth more than it and
  more than every row before it, and at least as much as every row after it.\<close>

theorem best_contract_is_first_best:
  "(list_all (\<lambda>row. worth nerve row \<le> score) rows \<and> best_contract nerve best score rows = best) \<or>
   (\<exists>before row after. rows = before @ row # after \<and> best_contract nerve best score rows = column_int (row ! 0)
      \<and> score < worth nerve row \<and> list_all (\<lambda>r. worth nerve r < worth nerve row) before
      \<and> list_all (\<lambda>r. worth nerve r \<le> worth nerve row) after)"
  using best_contract_first [of rows nerve score best] by (simp add: list_all_iff)

text \<open>The group of a cycle has no database twice and never more than the sixteen the store plane takes, whatever
  the Sparks do.\<close>

theorem cycle_group_bounded:
  assumes "group_begin api (g_ward g) w = (e0, grp, w0)" and "cycle_body api fuel g grp w0 = Some (e, arriving, g', grp', w')"
  shows "distinct (grp_dbs grp') \<and> int (length (grp_dbs grp')) \<le> TXN_MAX_PARTS"
  using cycle_body_small [OF assms(2) group_begin_small [OF assms(1)]] by (simp add: small_group_def)

theorem cycle_group_bounded_witness:
  "\<exists>grp w0 a g' grp' w'. group_begin mem_engine 1 ex_world = (0, grp, w0) \<and> cycle_body mem_engine 1 ex_gyre grp w0 = Some (0, a, g', grp', w')
     \<and> grp_dbs grp' = [1, 2] \<and> int (length (grp_dbs grp')) \<le> 16"
proof -
  obtain e0 grp w0 where b: "group_begin mem_engine (g_ward ex_gyre) ex_world = (e0, grp, w0)" by (metis prod_cases3)
  have "map_option (\<lambda>(e, a, g, grp, w). (e, grp_dbs grp)) (let (e0, grp, w0) = group_begin mem_engine 1 ex_world in
      cycle_body mem_engine 1 ex_gyre grp w0) = Some (0, [1, 2])"
    by (simp add: cycle_eval upt_rec Let_def)
  moreover have "g_ward ex_gyre = 1" by (simp add: ex_gyre_def)
  moreover have "fst (group_begin mem_engine 1 ex_world) = 0" by (simp add: engine_eval Let_def)
  ultimately obtain a g' grp' w' where c: "cycle_body mem_engine 1 ex_gyre grp w0 = Some (0, a, g', grp', w')" "grp_dbs grp' = [1, 2]"
    and "group_begin mem_engine 1 ex_world = (0, grp, w0)"
    using b by auto
  then show ?thesis using cycle_group_bounded [OF b c(1)] by (auto simp: TXN_MAX_PARTS_def)
qed

end
