(* ===== verification/Wt.thy ===== *)
theory Wt
  imports Contract
begin

text \<open>
  The WebTransport session of \<open>src/src/wt.c\<close>: sixteen seats, one for each stream with a command in flight.
  A stream's bytes are heard into the line of its seat, its FIN asks the interactor, and the reply goes out in
  the pieces the transport has room for. The calls back into picoquic are values of \<open>wt_call\<close>; what picoquic
  calls the session with is a value of \<open>wt_event\<close>, with the outcome of \<open>malloc\<close> and of the request for a
  send buffer. The interactor is a parameter with the contract of \<open>weft/interactor.h\<close>.
\<close>

section \<open>The seats\<close>

definition WT_LINE_MAX :: nat where "WT_LINE_MAX = 512"
definition WT_REPLY_MAX :: nat where "WT_REPLY_MAX = 262144"
definition WT_MAX_STREAMS :: nat where "WT_MAX_STREAMS = 16"

text \<open>\<open>n\<close> is the length of the line, \<open>reply_n\<close> that of the reply.\<close>

record wt_stream =
  st_id :: u64
  st_in_use :: bool
  st_line :: string
  st_reply :: "bytes option"
  st_sent :: nat

definition free_seat :: wt_stream where
  "free_seat = \<lparr>st_id = 0, st_in_use = False, st_line = [], st_reply = None, st_sent = 0\<rparr>"

text \<open>\<open>wt_bufs\<close> is not a field of the struct but what the session has of the heap: the reply buffers it has taken from \<open>malloc\<close>
  less those it has given to \<open>free\<close>. A pointer that is overwritten takes nothing off it.\<close>

record wt_session =
  wt_s :: "wt_stream list"
  wt_stop :: bool
  wt_bufs :: int

text \<open>The loop of \<open>stream_find\<close>: the seat of the stream, and the first free seat before it.\<close>

fun seat_scan :: "u64 \<Rightarrow> nat \<Rightarrow> nat option \<Rightarrow> wt_stream list \<Rightarrow> nat option \<times> nat option" where
  "seat_scan sid i vacant [] = (None, vacant)"
| "seat_scan sid i vacant (s # ss) =
     (if st_in_use s \<and> st_id s = sid then (Some i, vacant)
      else seat_scan sid (Suc i) (if \<not> st_in_use s \<and> vacant = None then Some i else vacant) ss)"

definition stream_find :: "wt_stream list \<Rightarrow> u64 \<Rightarrow> bool \<Rightarrow> nat option \<times> wt_stream list" where
  "stream_find ss sid mk =
     (case seat_scan sid 0 None ss of
        (Some i, _) \<Rightarrow> (Some i, ss)
      | (None, vacant) \<Rightarrow>
          if \<not> mk then (None, ss) else
          (case vacant of None \<Rightarrow> (None, ss)
           | Some i \<Rightarrow> (Some i, ss[i := free_seat\<lparr>st_in_use := True, st_id := sid\<rparr>])))"

text \<open>\<open>free\<close> of a null pointer does nothing.\<close>

definition stream_release :: "nat \<Rightarrow> wt_session \<Rightarrow> wt_session" where
  "stream_release i w =
     w\<lparr>wt_s := (wt_s w)[i := free_seat], wt_bufs := wt_bufs w - (if st_reply (wt_s w ! i) = None then 0 else 1)\<rparr>"

section \<open>The session\<close>

datatype wt_event =
    Post_Data bytes
  | Post_Fin bytes bool
  | Provide_Data nat bool
  | Reset_Stream
  | Stop_Sending
  | Other_Event

datatype wt_call =
    Mark_Active nat u64
  | Provide bytes bool bool

definition hear_byte :: "u8 \<Rightarrow> wt_stream \<Rightarrow> wt_stream" where
  "hear_byte b s =
     (let c = char_of (unat b) in
      if c = CHR 0x0D \<or> c = CHR 0x0A then s
      else if length (st_line s) < WT_LINE_MAX then s\<lparr>st_line := st_line s @ [c]\<rparr> else s)"

definition hear :: "bytes \<Rightarrow> wt_stream \<Rightarrow> wt_stream" where
  "hear bs s = fold hear_byte bs s"

text \<open>The bytes of a command, then its answer when this was the FIN: \<open>room\<close> says whether \<open>malloc\<close> had memory for it. A seat whose
  answer is still going out has its pointer overwritten.\<close>

definition on_post :: "'x ask option \<Rightarrow> nat \<Rightarrow> u64 \<Rightarrow> bytes \<Rightarrow> bool \<Rightarrow> bool \<Rightarrow> wt_session \<Rightarrow> 'x \<Rightarrow>
    (int \<times> wt_call list \<times> wt_session \<times> 'x) option" where
  "on_post actor cnx sid bs is_fin room w x =
     (case stream_find (wt_s w) sid True of
        (None, ss) \<Rightarrow> Some (0, [], w, x)
      | (Some i, ss) \<Rightarrow>
          let s = hear bs (ss ! i); w = w\<lparr>wt_s := ss[i := s]\<rparr> in
          if \<not> is_fin then Some (0, [], w, x)
          else if \<not> room then Some (0, [], stream_release i w, x)
          else let w = w\<lparr>wt_bufs := wt_bufs w + 1\<rparr> in
          do {
            (reply, stop, x) \<leftarrow> weft_ask actor (c_string (st_line s)) WT_REPLY_MAX (wt_stop w) x;
            let w = w\<lparr>wt_stop := stop\<rparr>;
            Some (if reply = [] then (0, [], stream_release i (w\<lparr>wt_bufs := wt_bufs w - 1\<rparr>), x)
                  else (0, [Mark_Active cnx sid],
                    w\<lparr>wt_s := (wt_s w)[i := s\<lparr>st_reply := Some reply, st_sent := 0\<rparr>]\<rparr>, x)) })"

definition on_provide :: "u64 \<Rightarrow> nat \<Rightarrow> bool \<Rightarrow> wt_session \<Rightarrow> int \<times> wt_call list \<times> wt_session" where
  "on_provide sid len granted w =
     (case stream_find (wt_s w) sid False of
        (None, ss) \<Rightarrow> (0, [Provide [] False False], w)
      | (Some i, ss) \<Rightarrow>
          (case st_reply (ss ! i) of None \<Rightarrow> (0, [Provide [] False False], w)
           | Some reply \<Rightarrow>
               let left = length reply - st_sent (ss ! i);
                   n = (if left < len then left else len);
                   still = (n < left) in
               if \<not> granted then (- 1, [], w)
               else (0, [Provide (take n (drop (st_sent (ss ! i)) reply)) (\<not> still) still],
                 if still then w\<lparr>wt_s := ss[i := (ss ! i)\<lparr>st_sent := st_sent (ss ! i) + n\<rparr>]\<rparr>
                 else stream_release i w)))"

definition on_reset :: "u64 \<Rightarrow> wt_session \<Rightarrow> wt_session" where
  "on_reset sid w =
     (case stream_find (wt_s w) sid False of
        (None, ss) \<Rightarrow> w | (Some i, ss) \<Rightarrow> stream_release i w)"

text \<open>The stream is \<open>None\<close> when picoquic has no context for it.\<close>

definition wt_session_callback :: "'x ask option \<Rightarrow> nat \<Rightarrow> wt_event \<Rightarrow> u64 option \<Rightarrow> wt_session \<Rightarrow> 'x \<Rightarrow>
    (int \<times> wt_call list \<times> wt_session \<times> 'x) option" where
  "wt_session_callback actor cnx ev stream_ctx w x =
     (case stream_ctx of None \<Rightarrow> Some (0, [], w, x)
      | Some sid \<Rightarrow>
          (case ev of
             Post_Data bs \<Rightarrow> on_post actor cnx sid bs False True w x
           | Post_Fin bs room \<Rightarrow> on_post actor cnx sid bs True room w x
           | Provide_Data len granted \<Rightarrow> (let (e, calls, w) = on_provide sid len granted w in Some (e, calls, w, x))
           | Reset_Stream \<Rightarrow> Some (0, [], on_reset sid w, x)
           | Stop_Sending \<Rightarrow> Some (0, [], on_reset sid w, x)
           | Other_Event \<Rightarrow> Some (0, [], w, x)))"

text \<open>A history of calls: the connection, the stream, the event. What the session called back is kept with
  the stream it was about.\<close>

fun wt_run :: "'x ask option \<Rightarrow> (nat \<times> u64 \<times> wt_event) list \<Rightarrow> wt_session \<Rightarrow> 'x \<Rightarrow>
    ((u64 \<times> wt_call) list \<times> wt_session \<times> 'x) option" where
  "wt_run actor [] w x = Some ([], w, x)"
| "wt_run actor ((cnx, sid, ev) # evs) w x =
     do { (_, calls, w, x) \<leftarrow> wt_session_callback actor cnx ev (Some sid) w x;
          (out, w, x) \<leftarrow> wt_run actor evs w x;
          Some (map (Pair sid) calls @ out, w, x) }"

definition wt_session_start :: wt_session where
  "wt_session_start = \<lparr>wt_s = replicate WT_MAX_STREAMS free_seat, wt_stop = False, wt_bufs = 0\<rparr>"

section \<open>A session as a finite map\<close>

text \<open>What a stream is owed: the command heard so far, and what is left of its answer.\<close>

type_synonym exchange = "string \<times> bytes option"

definition exchange_of :: "wt_stream \<Rightarrow> exchange" where
  "exchange_of s = (st_line s, map_option (drop (st_sent s)) (st_reply s))"

definition seats :: "wt_stream list \<Rightarrow> u64 \<Rightarrow> exchange option" where
  "seats ss sid = map_option exchange_of (List.find (\<lambda>s. st_in_use s \<and> st_id s = sid) ss)"

definition printable :: "bytes \<Rightarrow> string" where
  "printable bs = filter (\<lambda>c. c \<noteq> CHR 0x0D \<and> c \<noteq> CHR 0x0A) (map (\<lambda>b. char_of (unat b)) bs)"

definition seated :: "(u64 \<Rightarrow> exchange option) \<Rightarrow> u64 \<Rightarrow> exchange option" where
  "seated m sid = (case m sid of None \<Rightarrow> if card (dom m) < WT_MAX_STREAMS then Some ([], None) else None | p \<Rightarrow> p)"

text \<open>The session by its contract: a table of at most sixteen exchanges.\<close>

definition spec_step :: "'x ask option \<Rightarrow> nat \<Rightarrow> wt_event \<Rightarrow> u64 \<Rightarrow> (u64 \<Rightarrow> exchange option) \<Rightarrow> bool \<Rightarrow> 'x \<Rightarrow>
    (int \<times> wt_call list \<times> (u64 \<Rightarrow> exchange option) \<times> bool \<times> 'x) option" where
  "spec_step actor cnx ev sid m stop x =
     (case ev of
        Post_Data bs \<Rightarrow> Some (0, [], (case seated m sid of None \<Rightarrow> m
          | Some (line, owed) \<Rightarrow> m(sid \<mapsto> (take WT_LINE_MAX (line @ printable bs), owed))), stop, x)
      | Post_Fin bs room \<Rightarrow>
          (case seated m sid of None \<Rightarrow> Some (0, [], m, stop, x)
           | Some (line, owed) \<Rightarrow>
               let line = take WT_LINE_MAX (line @ printable bs) in
               if \<not> room then Some (0, [], m(sid := None), stop, x)
               else do { (reply, stop, x) \<leftarrow> weft_ask actor (c_string line) WT_REPLY_MAX stop x;
                         Some (if reply = [] then (0, [], m(sid := None), stop, x)
                               else (0, [Mark_Active cnx sid], m(sid \<mapsto> (line, Some reply)), stop, x)) })
      | Provide_Data len granted \<Rightarrow>
          Some (case m sid of
              Some (line, Some owed) \<Rightarrow>
                if \<not> granted then (- 1, [], m, stop, x)
                else if len < length owed
                then (0, [Provide (take len owed) False True], m(sid \<mapsto> (line, Some (drop len owed))), stop, x)
                else (0, [Provide owed True False], m(sid := None), stop, x)
            | _ \<Rightarrow> (0, [Provide [] False False], m, stop, x))
      | Other_Event \<Rightarrow> Some (0, [], m, stop, x)
      | _ \<Rightarrow> Some (0, [], m(sid := None), stop, x))"

section \<open>The invariant\<close>

definition seat_ok :: "wt_stream \<Rightarrow> bool" where
  "seat_ok s \<longleftrightarrow>
     (if st_in_use s
      then length (st_line s) \<le> WT_LINE_MAX \<and> CHR 0x0D \<notin> set (st_line s) \<and> CHR 0x0A \<notin> set (st_line s)
        \<and> (\<forall>r. st_reply s = Some r \<longrightarrow> st_sent s < length r \<and> length r \<le> WT_REPLY_MAX)
      else s = free_seat)"

definition session_ok :: "wt_session \<Rightarrow> bool" where
  "session_ok w \<longleftrightarrow> length (wt_s w) = WT_MAX_STREAMS \<and> (\<forall>s \<in> set (wt_s w). seat_ok s)
     \<and> distinct (map st_id (filter st_in_use (wt_s w)))"

section \<open>Finding a seat\<close>

definition busy :: "wt_stream list \<Rightarrow> (u64 \<times> exchange) list" where
  "busy ss = map (\<lambda>s. (st_id s, exchange_of s)) (filter st_in_use ss)"

lemma busy_simps [simp]:
  "busy [] = []" "busy (s # ss) = (if st_in_use s then (st_id s, exchange_of s) # busy ss else busy ss)"
  "busy (as @ bs) = busy as @ busy bs"
  by (simp_all add: busy_def)

lemma seats_map_of: "seats ss = map_of (busy ss)"
proof
  fix sid show "seats ss sid = map_of (busy ss) sid"
    by (induction ss) (auto simp: seats_def)
qed

lemma busy_ids: "map fst (busy ss) = map st_id (filter st_in_use ss)"
  by (simp add: busy_def)

lemma seat_scan_hit:
  "\<lbrakk>s \<in> set ss; st_in_use s; st_id s = sid\<rbrakk> \<Longrightarrow> \<exists>as b bs. ss = as @ b # bs \<and> st_in_use b \<and> st_id b = sid
     \<and> fst (seat_scan sid i v ss) = Some (i + length as)"
proof (induction ss arbitrary: i v)
  case (Cons t ss)
  show ?case
  proof (cases "st_in_use t \<and> st_id t = sid")
    case True
    then show ?thesis by (intro exI [of _ "[]"]) simp
  next
    case False
    then have "s \<in> set ss" using Cons.prems by auto
    from Cons.IH [OF this Cons.prems(2,3), of "Suc i" "if \<not> st_in_use t \<and> v = None then Some i else v"]
    obtain as b bs where *: "ss = as @ b # bs" "st_in_use b" "st_id b = sid"
      "fst (seat_scan sid (Suc i) (if \<not> st_in_use t \<and> v = None then Some i else v) ss) = Some (Suc i + length as)" by blast
    have "seat_scan sid i v (t # ss) = seat_scan sid (Suc i) (if \<not> st_in_use t \<and> v = None then Some i else v) ss"
      using False by (simp only: seat_scan.simps if_False)
    then show ?thesis using * by (intro exI [of _ "t # as"] exI [of _ b] exI [of _ bs]) simp
  qed
qed simp

lemma seat_scan_taken:
  "\<lbrakk>\<And>s. s \<in> set ss \<Longrightarrow> st_in_use s \<Longrightarrow> st_id s \<noteq> sid\<rbrakk> \<Longrightarrow> seat_scan sid i (Some j) ss = (None, Some j)"
  by (induction ss arbitrary: i) auto

lemma seat_scan_miss:
  "\<lbrakk>\<And>s. s \<in> set ss \<Longrightarrow> st_in_use s \<Longrightarrow> st_id s \<noteq> sid\<rbrakk> \<Longrightarrow>
     seat_scan sid i None ss = (None, None) \<and> (\<forall>s \<in> set ss. st_in_use s)
     \<or> (\<exists>as b bs. ss = as @ b # bs \<and> \<not> st_in_use b \<and> seat_scan sid i None ss = (None, Some (i + length as)))"
proof (induction ss arbitrary: i)
  case (Cons t ss)
  show ?case
  proof (cases "st_in_use t")
    case True
    then have t: "seat_scan sid i None (t # ss) = seat_scan sid (Suc i) None ss" using Cons.prems by simp
    have "\<And>s. s \<in> set ss \<Longrightarrow> st_in_use s \<Longrightarrow> st_id s \<noteq> sid" using Cons.prems by simp
    then consider "seat_scan sid (Suc i) None ss = (None, None)" "\<forall>s \<in> set ss. st_in_use s"
      | as b bs where "ss = as @ b # bs" "\<not> st_in_use b" "seat_scan sid (Suc i) None ss = (None, Some (Suc i + length as))"
      using Cons.IH [of "Suc i"] by blast
    then show ?thesis
    proof cases
      case 1
      then show ?thesis using t True by simp
    next
      case 2
      then show ?thesis using t by (intro disjI2 exI [of _ "t # as"] exI [of _ b] exI [of _ bs]) simp
    qed
  next
    case False
    have "seat_scan sid (Suc i) (Some i) ss = (None, Some i)" using Cons.prems by (intro seat_scan_taken) simp
    then show ?thesis using False by (intro disjI2 exI [of _ "[]"]) simp
  qed
qed simp

lemma seats_None: "seats ss sid = None \<longleftrightarrow> (\<forall>s \<in> set ss. st_in_use s \<longrightarrow> st_id s \<noteq> sid)"
  by (auto simp: seats_def find_None_iff)

lemma seats_card: "distinct (map st_id (filter st_in_use ss)) \<Longrightarrow> card (dom (seats ss)) = length (filter st_in_use ss)"
  unfolding seats_map_of dom_map_of_conv_image_fst
  by (metis busy_ids distinct_card length_map list.set_map)

text \<open>Seats that are not the stream's.\<close>

definition stranger :: "u64 \<Rightarrow> wt_stream list \<Rightarrow> bool" where
  "stranger sid ss \<longleftrightarrow> (\<forall>t \<in> set ss. st_in_use t \<longrightarrow> st_id t \<noteq> sid)"

lemma stranger_busy: "stranger sid ss \<Longrightarrow> map_of (busy ss) sid = None"
  by (simp add: stranger_def seats_map_of [symmetric] seats_None)

lemma stranger_ids: "stranger sid ss \<longleftrightarrow> sid \<notin> set (map st_id (filter st_in_use ss))"
  by (auto simp: stranger_def)

lemma stranger_split:
  assumes "distinct (map st_id (filter st_in_use (as @ s # bs)))" "st_in_use s"
  shows "stranger (st_id s) as" "stranger (st_id s) bs"
  using assms by (simp_all add: stranger_ids)

lemma seat_scan_stranger: "stranger sid ss \<Longrightarrow> fst (seat_scan sid i v ss) = None"
  by (induction ss arbitrary: i v) (auto simp: stranger_def)

lemma stream_find_stranger: "stranger sid ss \<Longrightarrow> stream_find ss sid False = (None, ss)"
  using seat_scan_stranger [of sid ss 0 None] by (auto simp: stream_find_def split: prod.split option.split)

text \<open>A list of seats is what the loop sees: the stream's own seat, the first free one, or none.\<close>

lemma stream_find_cases:
  assumes "distinct (map st_id (filter st_in_use ss))"
  obtains
    (hit) as s bs where "ss = as @ s # bs" "st_in_use s" "st_id s = sid" "seats ss sid = Some (exchange_of s)"
      "\<And>mk. stream_find ss sid mk = (Some (length as), ss)"
  | (vacant) as s bs where "ss = as @ s # bs" "\<not> st_in_use s" "seats ss sid = None" "card (dom (seats ss)) < length ss"
      "stream_find ss sid False = (None, ss)"
      "stream_find ss sid True = (Some (length as), as @ free_seat\<lparr>st_in_use := True, st_id := sid\<rparr> # bs)"
  | (full) "seats ss sid = None" "card (dom (seats ss)) = length ss" "\<And>mk. stream_find ss sid mk = (None, ss)"
proof (cases "seats ss sid")
  case None
  then have miss: "\<And>s. s \<in> set ss \<Longrightarrow> st_in_use s \<Longrightarrow> st_id s \<noteq> sid" by (simp add: seats_None)
  from seat_scan_miss [of ss sid 0, OF miss, simplified]
  consider "seat_scan sid 0 None ss = (None, None)" "\<forall>s \<in> set ss. st_in_use s"
    | as b bs where "ss = as @ b # bs" "\<not> st_in_use b" "seat_scan sid 0 None ss = (None, Some (length as))"
    by blast
  then show ?thesis
  proof cases
    case 1
    have "stream_find ss sid mk = (None, ss)" for mk using 1 by (simp add: stream_find_def)
    moreover have "card (dom (seats ss)) = length ss" using seats_card [OF assms] 1 by simp
    ultimately show ?thesis using full None by blast
  next
    case 2
    have "length (filter st_in_use ss) < length ss" using 2 by (simp add: less_Suc_eq_le add_mono)
    then show ?thesis using vacant [OF 2(1,2) None] seats_card [OF assms] 2 by (simp add: stream_find_def)
  qed
next
  case (Some p)
  then obtain s where "s \<in> set ss" "st_in_use s" "st_id s = sid" by (metis seats_None option.distinct(1))
  from seat_scan_hit [OF this, of 0 None] obtain as b bs where *: "ss = as @ b # bs" "st_in_use b" "st_id b = sid"
    "fst (seat_scan sid 0 None ss) = Some (length as)" by auto
  then obtain v where "seat_scan sid 0 None ss = (Some (length as), v)" by (metis prod.collapse)
  then have "stream_find ss sid mk = (Some (length as), ss)" for mk by (simp add: stream_find_def)
  moreover have "seats ss sid = Some (exchange_of b)"
    using stranger_busy [OF stranger_split(1) [OF assms [unfolded *(1)] *(2)]] * by (simp add: seats_map_of map_add_def)
  ultimately show ?thesis using hit * by blast
qed

section \<open>The session keeps its invariant and its contract\<close>

lemma hear_byte_line:
  "length (st_line s) \<le> WT_LINE_MAX \<Longrightarrow> hear_byte b s = s\<lparr>st_line := take WT_LINE_MAX (st_line s @ printable [b])\<rparr>"
  by (auto simp: hear_byte_def printable_def Let_def)

lemma printable_Cons: "printable (b # bs) = printable [b] @ printable bs"
  by (simp add: printable_def)

lemma printable_append: "printable (as @ bs) = printable as @ printable bs"
  by (simp add: printable_def)

lemma hear_line:
  "length (st_line s) \<le> WT_LINE_MAX \<Longrightarrow> hear bs s = s\<lparr>st_line := take WT_LINE_MAX (st_line s @ printable bs)\<rparr>"
proof (induction bs arbitrary: s)
  case Nil
  then show ?case by (simp add: hear_def printable_def)
next
  case (Cons b bs)
  let ?s = "s\<lparr>st_line := take WT_LINE_MAX (st_line s @ printable [b])\<rparr>"
  have "hear (b # bs) s = hear bs ?s" using Cons.prems by (simp add: hear_def hear_byte_line)
  also have "\<dots> = ?s\<lparr>st_line := take WT_LINE_MAX (st_line ?s @ printable bs)\<rparr>" by (rule Cons.IH) simp
  also have "take WT_LINE_MAX (st_line ?s @ printable bs) = take WT_LINE_MAX (st_line s @ printable (b # bs))"
    by (simp add: printable_Cons [of b bs] take_append min_def)
  finally show ?case by simp
qed

lemma heard_ok:
  "seat_ok s \<Longrightarrow> st_in_use s \<Longrightarrow> seat_ok (s\<lparr>st_line := take WT_LINE_MAX (st_line s @ printable bs)\<rparr>)"
  by (auto simp: seat_ok_def printable_def dest!: in_set_takeD)

text \<open>Changing one seat changes one stream.\<close>

lemma seats_update:
  assumes "stranger sid as" "stranger sid bs" "st_in_use s \<longrightarrow> st_id s = sid"
  shows "st_in_use s' \<Longrightarrow> st_id s' = sid \<Longrightarrow> seats (as @ s' # bs) = (seats (as @ s # bs))(sid \<mapsto> exchange_of s')"
    and "\<not> st_in_use s' \<Longrightarrow> seats (as @ s' # bs) = (seats (as @ s # bs))(sid := None)"
  using assms stranger_busy [of sid as] stranger_busy [of sid bs]
  by (auto simp: seats_map_of fun_eq_iff map_add_def split: option.splits)

lemma ids_update:
  assumes "stranger sid as" "stranger sid bs" "st_in_use s \<longrightarrow> st_id s = sid"
    "distinct (map st_id (filter st_in_use (as @ s # bs)))" "st_in_use s' \<longrightarrow> st_id s' = sid"
  shows "distinct (map st_id (filter st_in_use (as @ s' # bs)))"
  using assms by (auto simp: stranger_def split: if_splits)

lemma session_update:
  assumes "session_ok w" "wt_s w = as @ s # bs" "stranger sid as" "stranger sid bs" "st_in_use s \<longrightarrow> st_id s = sid"
    "st_in_use s' \<longrightarrow> st_id s' = sid" "seat_ok s'" "wt_s w' = as @ s' # bs"
  shows "session_ok w'"
  using assms ids_update [OF assms(3-5) _ assms(6)] by (auto simp: session_ok_def)

lemma free_seat_ok: "seat_ok free_seat"
  by (simp add: seat_ok_def free_seat_def)

lemma new_seat_ok: "seat_ok (free_seat\<lparr>st_in_use := True, st_id := sid\<rparr>)"
  by (simp add: seat_ok_def free_seat_def)

lemma session_stop: "session_ok (w\<lparr>wt_stop := stop\<rparr>) = session_ok w"
  by (simp add: session_ok_def)

text \<open>The seat a stream is given for its bytes.\<close>

lemma stream_seat:
  assumes "session_ok w"
  obtains
    (seat) as s old bs where "stream_find (wt_s w) sid True = (Some (length as), as @ s # bs)" "wt_s w = as @ old # bs"
      "stranger sid as" "stranger sid bs" "st_in_use old \<longrightarrow> st_id old = sid" "st_in_use s" "st_id s = sid" "seat_ok s"
      "seated (seats (wt_s w)) sid = Some (exchange_of s)" "st_reply s = st_reply old"
  | (full) ss where "stream_find (wt_s w) sid True = (None, ss)" "seated (seats (wt_s w)) sid = None"
      "seats (wt_s w) sid = None"
proof -
  have d: "distinct (map st_id (filter st_in_use (wt_s w)))" using assms by (simp add: session_ok_def)
  have len: "length (wt_s w) = WT_MAX_STREAMS" using assms by (simp add: session_ok_def)
  from d show ?thesis
  proof (cases rule: stream_find_cases [of "wt_s w" sid, case_names hit vacant full])
    case (hit as s bs)
    have str: "stranger sid as" "stranger sid bs" using stranger_split [OF d [unfolded hit(1)] hit(2)] hit(3) by simp_all
    have "seat_ok s" using assms hit(1) by (simp add: session_ok_def)
    moreover have "seated (seats (wt_s w)) sid = Some (exchange_of s)" using hit(4) by (simp add: seated_def)
    ultimately show ?thesis using seat [of as s bs s] str hit(1,2,3) hit(5) [of True] by simp
  next
    case (vacant as s bs)
    have "stranger sid as" "stranger sid bs" using vacant(1,3) by (auto simp: stranger_def seats_None)
    moreover have "seated (seats (wt_s w)) sid = Some (exchange_of (free_seat\<lparr>st_in_use := True, st_id := sid\<rparr>))"
      using vacant(3,4) len by (simp add: seated_def) (simp add: exchange_of_def free_seat_def)
    moreover have "seat_ok s" using assms vacant(1) by (simp add: session_ok_def)
    then have "st_reply s = None" using vacant(2) by (simp add: seat_ok_def free_seat_def)
    then have "st_reply (free_seat\<lparr>st_in_use := True, st_id := sid\<rparr>) = st_reply s" by (simp add: free_seat_def)
    ultimately show ?thesis using seat [OF vacant(6,1)] vacant(2) new_seat_ok by simp
  next
    case full
    then show ?thesis using that(2) len by (simp add: seated_def)
  qed
qed

text \<open>The seat a stream has.\<close>

lemma stream_own_seat:
  assumes "session_ok w"
  obtains
    (own) as s bs where "stream_find (wt_s w) sid False = (Some (length as), as @ s # bs)" "wt_s w = as @ s # bs"
      "stranger sid as" "stranger sid bs" "st_in_use s" "st_id s = sid" "seat_ok s" "seats (wt_s w) sid = Some (exchange_of s)"
  | (none) ss where "stream_find (wt_s w) sid False = (None, ss)" "seats (wt_s w) sid = None"
proof -
  have d: "distinct (map st_id (filter st_in_use (wt_s w)))" using assms by (simp add: session_ok_def)
  then show ?thesis
  proof (cases rule: stream_find_cases [of "wt_s w" sid, case_names hit vacant full])
    case (hit as s bs)
    have str: "stranger sid as" "stranger sid bs" using stranger_split [OF d [unfolded hit(1)] hit(2)] hit(3) by simp_all
    have "seat_ok s" using assms hit(1) by (simp add: session_ok_def)
    then show ?thesis using own [of as s bs] str hit(1,2,3,4) hit(5) [of False] by simp
  qed (use none in blast)+
qed

text \<open>Every call refines the table.\<close>

lemma post_refines:
  assumes w: "session_ok w"
  shows "map_option (\<lambda>(e, calls, w, x). (e, calls, seats (wt_s w), wt_stop w, x)) (on_post actor cnx sid bs is_fin room w x) =
    spec_step actor cnx (if is_fin then Post_Fin bs room else Post_Data bs) sid (seats (wt_s w)) (wt_stop w) x"
  using w
proof (cases rule: stream_seat [of w sid, case_names seat full])
  case (seat as s old bs')
  let ?s = "s\<lparr>st_line := take WT_LINE_MAX (st_line s @ printable bs)\<rparr>"
  have h: "hear bs s = ?s" using seat(6,8) by (intro hear_line) (simp add: seat_ok_def)
  have sd: "seated (seats (as @ old # bs')) sid = Some (st_line s, map_option (drop (st_sent s)) (st_reply s))"
    using seat(2,9) by (simp add: exchange_of_def)
  note up = seats_update [OF seat(3,4,5)]
  have keep: "seats (as @ ?s # bs') = (seats (as @ old # bs'))(sid \<mapsto> exchange_of ?s)" by (rule up(1)) (simp_all add: seat(6,7))
  have gone: "seats (as @ free_seat # bs') = (seats (as @ old # bs'))(sid := None)" by (rule up(2)) (simp add: free_seat_def)
  have ans: "seats (as @ s\<lparr>st_line := l, st_reply := Some r, st_sent := 0\<rparr> # bs') = (seats (as @ old # bs'))(sid \<mapsto> (l, Some r))" for l r
    by (subst up(1)) (simp_all add: seat(6,7) exchange_of_def)
  show ?thesis
    using seat(1,2) by (cases "weft_ask actor (c_string (st_line ?s)) WT_REPLY_MAX (wt_stop w) x")
      (auto simp: on_post_def spec_step_def h sd keep gone ans stream_release_def exchange_of_def Let_def simp del: take_append)
next
  case (full ss)
  then show ?thesis by (simp add: on_post_def spec_step_def)
qed

lemma provide_refines:
  assumes w: "session_ok w"
  shows "(case on_provide sid len granted w of (e, calls, w) \<Rightarrow> Some (e, calls, seats (wt_s w), wt_stop w, x)) =
    spec_step actor cnx (Provide_Data len granted) sid (seats (wt_s w)) (wt_stop w) x"
  using w
proof (cases rule: stream_own_seat [of w sid, case_names own none])
  case (own as s bs)
  note up = seats_update [OF own(3,4), of s]
  have gone: "seats (as @ free_seat # bs) = (seats (as @ s # bs))(sid := None)" by (rule up(2)) (simp_all add: free_seat_def own(6))
  have sent: "seats (as @ s\<lparr>st_sent := k\<rparr> # bs) = (seats (as @ s # bs))(sid \<mapsto> exchange_of (s\<lparr>st_sent := k\<rparr>))" for k
    by (rule up(1)) (simp_all add: own(5,6))
  have st: "seats (as @ s # bs) sid = Some (exchange_of s)" using own(2,8) by simp
  show ?thesis
  proof (cases "st_reply s")
    case None
    then show ?thesis using own(1,2) st by (simp add: on_provide_def spec_step_def exchange_of_def)
  next
    case (Some r)
    then have "st_sent s < length r" using own(5,7) by (simp add: seat_ok_def)
    then show ?thesis using own(1,2) st Some gone sent
      by (simp add: on_provide_def spec_step_def exchange_of_def stream_release_def add.commute Let_def)
  qed
next
  case (none ss)
  then show ?thesis by (simp add: on_provide_def spec_step_def)
qed

lemma reset_refines:
  assumes w: "session_ok w"
  shows "seats (wt_s (on_reset sid w)) = (seats (wt_s w))(sid := None) \<and> wt_stop (on_reset sid w) = wt_stop w"
  using w
proof (cases rule: stream_own_seat [of w sid, case_names own none])
  case (own as s bs)
  have "seats (as @ free_seat # bs) = (seats (as @ s # bs))(sid := None)"
    by (rule seats_update(2) [OF own(3,4)]) (simp_all add: free_seat_def own(6))
  then show ?thesis using own(1,2) by (simp add: on_reset_def stream_release_def)
next
  case (none ss)
  then show ?thesis by (simp add: on_reset_def fun_upd_idem)
qed

lemma callback_refines:
  assumes "session_ok w"
  shows "map_option (\<lambda>(e, calls, w, x). (e, calls, seats (wt_s w), wt_stop w, x)) (wt_session_callback actor cnx ev (Some sid) w x) =
    spec_step actor cnx ev sid (seats (wt_s w)) (wt_stop w) x"
proof (cases ev)
  case (Post_Data bs)
  then show ?thesis using post_refines [OF assms, of actor cnx sid bs False True x] by (simp add: wt_session_callback_def)
next
  case (Post_Fin bs room)
  then show ?thesis using post_refines [OF assms, of actor cnx sid bs True room x] by (simp add: wt_session_callback_def)
next
  case (Provide_Data len granted)
  then show ?thesis using provide_refines [OF assms, where sid = sid and len = len and granted = granted and x = x and actor = actor and cnx = cnx]
    by (simp add: wt_session_callback_def split: prod.splits)
qed (use reset_refines [OF assms, of sid] in \<open>simp_all add: wt_session_callback_def spec_step_def\<close>)

text \<open>And keeps the seats in order.\<close>

context interactor
begin

lemma asked_within: "weft_ask (Some ask) command cap stop x = Some (reply, stop', x') \<Longrightarrow> length reply \<le> cap"
  by (simp add: weft_ask_def within_cap)

lemma post_ok:
  assumes w: "session_ok w" and r: "on_post (Some ask) cnx sid bs is_fin room w x = Some (e, calls, w', x')"
  shows "session_ok w'"
  using w
proof (cases rule: stream_seat [of w sid, case_names seat full])
  case (seat as s old bs')
  let ?s = "s\<lparr>st_line := take WT_LINE_MAX (st_line s @ printable bs)\<rparr>"
  have h: "hear bs s = ?s" using seat(6,8) by (intro hear_line) (simp add: seat_ok_def)
  have ok: "seat_ok ?s" using heard_ok [OF seat(8,6)] .
  have ans: "seat_ok (?s\<lparr>st_reply := Some reply, st_sent := 0\<rparr>)" if "length reply \<le> WT_REPLY_MAX" "reply \<noteq> []" for reply
    using ok seat(6) that by (simp add: seat_ok_def)
  note up = session_update [OF w seat(2,3,4,5)]
  have keep: "session_ok v" if "wt_s v = as @ t # bs'" "t = free_seat \<or> st_id t = sid \<and> seat_ok t" for t v
    using that free_seat_ok by (intro up) (auto simp: free_seat_def)
  have line: "st_id ?s = sid \<and> seat_ok ?s" using ok seat(7) by simp
  show ?thesis
  proof (cases "is_fin \<and> room")
    case False
    then show ?thesis using r seat(1) line
      by (auto simp: on_post_def h stream_release_def Let_def simp del: take_append split: if_splits intro: keep)
  next
    case True
    then obtain reply stop x2 where a: "weft_ask (Some ask) (c_string (st_line ?s)) WT_REPLY_MAX (wt_stop w) x = Some (reply, stop, x2)"
      using r seat(1) by (auto simp: on_post_def h Let_def simp del: take_append split: bind_splits)
    show ?thesis using r seat(1) True a line ans [OF asked_within [OF a]]
      by (auto simp: on_post_def h stream_release_def Let_def simp del: take_append split: if_splits intro: keep)
  qed
next
  case (full ss)
  then show ?thesis using w r by (simp add: on_post_def)
qed

end

context interactor
begin

lemma provide_ok:
  assumes w: "session_ok w" and r: "on_provide sid len granted w = (e, calls, w')"
  shows "session_ok w'"
  using w
proof (cases rule: stream_own_seat [of w sid, case_names own none])
  case (own as s bs)
  have keep: "session_ok v" if "wt_s v = as @ t # bs" "t = free_seat \<or> st_id t = sid \<and> seat_ok t" for t v
    using that free_seat_ok own(6) by (intro session_update [OF w own(2,3,4)]) (auto simp: free_seat_def)
  have part: "seat_ok (s\<lparr>st_sent := st_sent s + n\<rparr>)" if "n < length reply - st_sent s" "st_reply s = Some reply" for n reply
    using own(5,7) that by (simp add: seat_ok_def)
  have s: "s\<lparr>st_sent := st_sent s + n\<rparr> = free_seat \<or> st_id (s\<lparr>st_sent := st_sent s + n\<rparr>) = sid \<and> seat_ok (s\<lparr>st_sent := st_sent s + n\<rparr>)"
    if "n < length reply - st_sent s" "st_reply s = Some reply" for n reply
    using part [OF that] own(6) by simp
  show ?thesis using r own(1,2) w
    by (auto simp: on_provide_def stream_release_def Let_def split: if_splits option.splits intro: keep [of _ free_seat] keep [OF _ s])
next
  case (none ss)
  then show ?thesis using w r by (simp add: on_provide_def)
qed

lemma reset_ok:
  assumes w: "session_ok w"
  shows "session_ok (on_reset sid w)"
  using w
proof (cases rule: stream_own_seat [of w sid, case_names own none])
  case (own as s bs)
  have "wt_s (on_reset sid w) = as @ free_seat # bs" using own(1,2) by (simp add: on_reset_def stream_release_def)
  then show ?thesis
    using free_seat_ok own(6) by (intro session_update [OF w own(2,3,4)]) (auto simp: free_seat_def)
next
  case (none ss)
  then show ?thesis using w by (simp add: on_reset_def)
qed

lemma callback_ok:
  assumes "session_ok w" "wt_session_callback (Some ask) cnx ev ctx w x = Some (e, calls, w', x')"
  shows "session_ok w'"
  using assms post_ok [OF assms(1)] provide_ok [OF assms(1)] reset_ok [OF assms(1)]
  by (auto simp: wt_session_callback_def split: option.splits wt_event.splits prod.splits)

lemma run_ok: "wt_run (Some ask) evs w x = Some (out, w', x') \<Longrightarrow> session_ok w \<Longrightarrow> session_ok w'"
proof (induction evs arbitrary: w x out)
  case (Cons ev evs)
  obtain cnx sid e where ev: "ev = (cnx, sid, e)" by (metis prod_cases3)
  obtain r calls w1 x1 out1 where c: "wt_session_callback (Some ask) cnx e (Some sid) w x = Some (r, calls, w1, x1)"
    "wt_run (Some ask) evs w1 x1 = Some (out1, w', x')"
    using Cons.prems(1) by (auto simp: ev split: bind_splits)
  show ?case using Cons.IH [OF c(2) callback_ok [OF Cons.prems(2) c(1)]] .
qed simp

end

lemma start_ok: "session_ok wt_session_start"
proof -
  have "filter st_in_use (replicate n free_seat) = []" for n by (induction n) (simp_all add: free_seat_def)
  then show ?thesis by (simp add: session_ok_def wt_session_start_def free_seat_ok)
qed

lemma seats_bound: "session_ok w \<Longrightarrow> card (dom (seats (wt_s w))) \<le> WT_MAX_STREAMS"
  using seats_card [of "wt_s w"] length_filter_le [of st_in_use "wt_s w"] by (simp add: session_ok_def)

section \<open>The reply buffers\<close>

text \<open>The answers that are still going out, and the ones that are lost: a FIN on a stream that is still owed an answer, when it is
  answered itself, overwrites the pointer to the first one.\<close>

definition pending :: "wt_stream list \<Rightarrow> int" where
  "pending ss = (\<Sum>s\<leftarrow>ss. if st_reply s = None then 0 else 1)"

definition orphaned :: "wt_event \<Rightarrow> u64 \<Rightarrow> wt_call list \<Rightarrow> wt_session \<Rightarrow> int" where
  "orphaned ev sid calls w =
     (case ev of Post_Fin bs room \<Rightarrow>
         (case seats (wt_s w) sid of Some (line, Some owed) \<Rightarrow> if calls = [] then 0 else 1 | _ \<Rightarrow> 0)
      | _ \<Rightarrow> 0)"

fun orphans :: "'x ask option \<Rightarrow> (nat \<times> u64 \<times> wt_event) list \<Rightarrow> wt_session \<Rightarrow> 'x \<Rightarrow> int" where
  "orphans actor [] w x = 0"
| "orphans actor ((cnx, sid, ev) # evs) w x =
     (case wt_session_callback actor cnx ev (Some sid) w x of None \<Rightarrow> 0
      | Some (_, calls, w', x') \<Rightarrow> orphaned ev sid calls w + orphans actor evs w' x')"

lemma pending_simps [simp]:
  "pending [] = 0" "pending (s # ss) = (if st_reply s = None then 0 else 1) + pending ss" "pending (as @ bs) = pending as + pending bs"
  by (simp_all add: pending_def)

lemma post_bufs:
  assumes w: "session_ok w" and r: "on_post actor cnx sid bs is_fin room w x = Some (e, calls, w', x')"
  shows "wt_bufs w' - pending (wt_s w') =
    wt_bufs w - pending (wt_s w) + orphaned (if is_fin then Post_Fin bs room else Post_Data bs) sid calls w"
  using w
proof (cases rule: stream_seat [of w sid, case_names seat full])
  case (seat as s old bs')
  let ?s = "s\<lparr>st_line := take WT_LINE_MAX (st_line s @ printable bs)\<rparr>"
  have h: "hear bs s = ?s" using seat(6,8) by (intro hear_line) (simp add: seat_ok_def)
  have owed: "(case seats (wt_s w) sid of Some (line, Some owed) \<Rightarrow> True | _ \<Rightarrow> False) \<longleftrightarrow> st_reply s \<noteq> None"
    using seat(9,10) by (auto simp: seated_def exchange_of_def split: option.splits if_splits)
  then have "orphaned (Post_Fin bs room) sid calls w = (if st_reply s \<noteq> None \<and> calls \<noteq> [] then 1 else 0)"
    by (auto simp: orphaned_def split: option.splits)
  then show ?thesis
    using r seat(1,2,10) by (cases "weft_ask actor (c_string (st_line ?s)) WT_REPLY_MAX (wt_stop w) x")
      (auto simp: on_post_def h stream_release_def orphaned_def free_seat_def Let_def simp del: take_append split: if_splits)
next
  case (full ss)
  then show ?thesis using r by (auto simp: on_post_def orphaned_def split: option.splits)
qed

lemma provide_bufs:
  assumes w: "session_ok w" and r: "on_provide sid len granted w = (e, calls, w')"
  shows "wt_bufs w' - pending (wt_s w') = wt_bufs w - pending (wt_s w)"
  using w
proof (cases rule: stream_own_seat [of w sid, case_names own none])
  case (own as s bs)
  then show ?thesis using r
    by (auto simp: on_provide_def stream_release_def free_seat_def Let_def split: if_splits option.splits)
next
  case (none ss)
  then show ?thesis using r by (simp add: on_provide_def)
qed

lemma reset_bufs:
  assumes w: "session_ok w"
  shows "wt_bufs (on_reset sid w) - pending (wt_s (on_reset sid w)) = wt_bufs w - pending (wt_s w)"
  using w
proof (cases rule: stream_own_seat [of w sid, case_names own none])
  case (own as s bs)
  then show ?thesis by (simp add: on_reset_def stream_release_def free_seat_def)
next
  case (none ss)
  then show ?thesis by (simp add: on_reset_def)
qed

lemma callback_bufs:
  assumes "session_ok w" "wt_session_callback actor cnx ev (Some sid) w x = Some (e, calls, w', x')"
  shows "wt_bufs w' - pending (wt_s w') = wt_bufs w - pending (wt_s w) + orphaned ev sid calls w"
proof (cases ev)
  case (Post_Data bs)
  then show ?thesis using assms(2) post_bufs [OF assms(1), of actor cnx sid bs False True x] by (simp add: wt_session_callback_def)
next
  case (Post_Fin bs room)
  then show ?thesis using assms(2) post_bufs [OF assms(1), of actor cnx sid bs True room x] by (simp add: wt_session_callback_def)
next
  case (Provide_Data len granted)
  then show ?thesis using assms(2) provide_bufs [OF assms(1), of sid len granted]
    by (auto simp: wt_session_callback_def orphaned_def split: prod.splits)
qed (use assms(2) reset_bufs [OF assms(1), of sid] in \<open>auto simp: wt_session_callback_def orphaned_def\<close>)

text \<open>The session's share of the heap is what is still going out, and what was lost.\<close>

context interactor
begin

lemma run_bufs:
  "wt_run (Some ask) evs w x = Some (out, w', x') \<Longrightarrow> session_ok w \<Longrightarrow>
    wt_bufs w' - pending (wt_s w') = wt_bufs w - pending (wt_s w) + orphans (Some ask) evs w x"
proof (induction evs arbitrary: w x out)
  case (Cons ev evs)
  obtain cnx sid e where ev: "ev = (cnx, sid, e)" by (metis prod_cases3)
  obtain r calls w1 x1 out1 where c: "wt_session_callback (Some ask) cnx e (Some sid) w x = Some (r, calls, w1, x1)"
    "wt_run (Some ask) evs w1 x1 = Some (out1, w', x')"
    using Cons.prems(1) by (auto simp: ev split: bind_splits)
  show ?case using Cons.IH [OF c(2) callback_ok [OF Cons.prems(2) c(1)]] callback_bufs [OF Cons.prems(2) c(1)] c(1)
    by (simp add: ev)
qed simp

end

lemma pending_start: "pending (wt_s wt_session_start) = 0"
proof -
  have "pending (replicate n free_seat) = 0" for n by (induction n) (simp_all add: free_seat_def)
  then show ?thesis by (simp add: wt_session_start_def)
qed

section \<open>One stream among many\<close>

definition events_of :: "u64 \<Rightarrow> (nat \<times> u64 \<times> wt_event) list \<Rightarrow> wt_event list" where
  "events_of sid evs = map (\<lambda>(_, _, ev). ev) (filter (\<lambda>(_, s, _). s = sid) evs)"

definition calls_of :: "u64 \<Rightarrow> (u64 \<times> wt_call) list \<Rightarrow> wt_call list" where
  "calls_of sid out = map snd (filter (\<lambda>(s, _). s = sid) out)"

text \<open>The bytes of a command that has not ended, and the room offered to an answer.\<close>

fun data_of :: "wt_event list \<Rightarrow> bytes option" where
  "data_of [] = Some []"
| "data_of (Post_Data bs # evs) = map_option ((@) bs) (data_of evs)"
| "data_of _ = None"

fun offers_of :: "wt_event list \<Rightarrow> nat list option" where
  "offers_of [] = Some []"
| "offers_of (Provide_Data len True # evs) = map_option ((#) len) (offers_of evs)"
| "offers_of _ = None"

fun provided :: "wt_call list \<Rightarrow> bytes" where
  "provided [] = []"
| "provided (Provide bs _ _ # calls) = bs @ provided calls"
| "provided (_ # calls) = provided calls"

fun fins :: "wt_call list \<Rightarrow> nat" where
  "fins [] = 0"
| "fins (Provide _ f _ # calls) = (if f then 1 else 0) + fins calls"
| "fins (_ # calls) = fins calls"

lemma provided_append: "provided (as @ bs) = provided as @ provided bs"
  by (induction as rule: provided.induct) simp_all

lemma fins_append: "fins (as @ bs) = fins as + fins bs"
  by (induction as rule: fins.induct) simp_all

lemma calls_of_append: "calls_of sid (as @ bs) = calls_of sid as @ calls_of sid bs"
  by (simp add: calls_of_def)

lemma calls_of_own: "calls_of sid (map (Pair s) calls) = (if s = sid then calls else [])"
  by (simp add: calls_of_def filter_map comp_def)

lemma calls_of_Cons: "calls_of sid ((s, c) # out) = (if s = sid then [c] else []) @ calls_of sid out"
  by (simp add: calls_of_def)

lemma events_of_Cons: "events_of sid ((cnx, s, ev) # evs) = (if s = sid then [ev] else []) @ events_of sid evs"
  by (simp add: events_of_def)

lemma step_spec:
  assumes "session_ok w" "wt_session_callback actor cnx ev (Some sid) w x = Some (e, calls, w', x')"
  shows "Some (e, calls, seats (wt_s w'), wt_stop w', x') = spec_step actor cnx ev sid (seats (wt_s w)) (wt_stop w) x"
  using callback_refines [OF assms(1), of actor cnx ev sid x] assms(2) by simp

lemma spec_step_other:
  "spec_step actor cnx ev s m stop x = Some (e, calls, m', stop', x') \<Longrightarrow> s \<noteq> sid \<Longrightarrow> m' sid = m sid"
  by (cases ev) (auto simp: spec_step_def Let_def split: option.splits prod.splits if_splits bind_splits)

lemma wt_run_ConsE:
  assumes "wt_run actor ((cnx, s, ev) # evs) w x = Some (out, w', x')"
  obtains e calls w1 x1 out1 where "wt_session_callback actor cnx ev (Some s) w x = Some (e, calls, w1, x1)"
    "wt_run actor evs w1 x1 = Some (out1, w', x')" "out = map (Pair s) calls @ out1"
  using assms by (auto split: bind_splits)

context interactor
begin

text \<open>The bytes of a command are heard whatever the other streams do, and nothing else happens to the stream.\<close>

lemma heard_among_others:
  "\<lbrakk>wt_run (Some ask) evs w x = Some (out, w', x'); session_ok w; seats (wt_s w) sid = Some (line, owed);
    data_of (events_of sid evs) = Some bs; length line \<le> WT_LINE_MAX\<rbrakk>
   \<Longrightarrow> seats (wt_s w') sid = Some (take WT_LINE_MAX (line @ printable bs), owed) \<and> calls_of sid out = []"
proof (induction evs arbitrary: w x out line bs)
  case Nil
  then show ?case by (auto simp: events_of_def calls_of_def printable_def)
next
  case (Cons ev evs)
  obtain cnx s e where ev: "ev = (cnx, s, e)" by (metis prod_cases3)
  obtain r calls w1 x1 out1 where c: "wt_session_callback (Some ask) cnx e (Some s) w x = Some (r, calls, w1, x1)"
    "wt_run (Some ask) evs w1 x1 = Some (out1, w', x')" "out = map (Pair s) calls @ out1"
    using Cons.prems(1) unfolding ev by (rule wt_run_ConsE)
  note ok = callback_ok [OF Cons.prems(2) c(1)]
  note sp = step_spec [OF Cons.prems(2) c(1)]
  show ?case
  proof (cases "s = sid")
    case False
    then have "seats (wt_s w1) sid = Some (line, owed)" using spec_step_other [OF sp [symmetric] False] Cons.prems(3) by simp
    then show ?thesis using Cons.IH [OF c(2) ok _ _ Cons.prems(5)] Cons.prems(4) False
      by (simp add: ev events_of_Cons c(3) calls_of_append calls_of_own calls_of_Cons)
  next
    case True
    then obtain b bs1 where b: "e = Post_Data b" "data_of (events_of sid evs) = Some bs1" "bs = b @ bs1"
      using Cons.prems(4) by (cases e) (auto simp: ev events_of_Cons)
    have "seats (wt_s w1) sid = Some (take WT_LINE_MAX (line @ printable b), owed)" "calls = []"
      using sp b(1) True Cons.prems(3) by (auto simp: spec_step_def seated_def)
    then show ?thesis using Cons.IH [OF c(2) ok _ b(2), of "take WT_LINE_MAX (line @ printable b)"] b(3) True
      by (simp add: c(3) calls_of_append calls_of_own calls_of_Cons printable_append take_append) (simp add: calls_of_def min_def)
  qed
qed

text \<open>A stream without a seat is given nothing, and stays without one while it only asks for its answer.\<close>

lemma nothing_owed:
  "\<lbrakk>wt_run (Some ask) evs w x = Some (out, w', x'); session_ok w; seats (wt_s w) sid = None;
    offers_of (events_of sid evs) = Some ns\<rbrakk>
   \<Longrightarrow> seats (wt_s w') sid = None \<and> provided (calls_of sid out) = [] \<and> fins (calls_of sid out) = 0"
proof (induction evs arbitrary: w x out ns)
  case Nil
  then show ?case by (simp add: calls_of_def)
next
  case (Cons ev evs)
  obtain cnx s e where ev: "ev = (cnx, s, e)" by (metis prod_cases3)
  obtain r calls w1 x1 out1 where c: "wt_session_callback (Some ask) cnx e (Some s) w x = Some (r, calls, w1, x1)"
    "wt_run (Some ask) evs w1 x1 = Some (out1, w', x')" "out = map (Pair s) calls @ out1"
    using Cons.prems(1) unfolding ev by (rule wt_run_ConsE)
  note IH = Cons.IH [OF c(2) callback_ok [OF Cons.prems(2) c(1)]]
  note sp = step_spec [OF Cons.prems(2) c(1)]
  show ?case
  proof (cases "s = sid")
    case False
    then show ?thesis using IH spec_step_other [OF sp [symmetric] False] Cons.prems(3,4)
      by (simp add: ev events_of_Cons c(3) calls_of_append calls_of_own calls_of_Cons)
  next
    case True
    then obtain n ns1 where n: "e = Provide_Data n True" "offers_of (events_of sid evs) = Some ns1"
      using Cons.prems(4) by (cases "events_of sid (ev # evs)" rule: offers_of.cases) (auto simp: ev events_of_Cons)
    have "seats (wt_s w1) sid = None" "calls = [Provide [] False False]"
      using sp n(1) True Cons.prems(3) by (auto simp: spec_step_def)
    then show ?thesis using IH n(2) True by (simp add: c(3) calls_of_append calls_of_own calls_of_Cons)
  qed
qed

text \<open>An answer goes out once: in order, with the FIN on its last piece, after which the seat is free.\<close>

lemma delivered_among_others:
  "\<lbrakk>wt_run (Some ask) evs w x = Some (out, w', x'); session_ok w; seats (wt_s w) sid = Some (line, Some owed);
    offers_of (events_of sid evs) = Some ns; owed \<noteq> []\<rbrakk>
   \<Longrightarrow> provided (calls_of sid out) = take (sum_list ns) owed
     \<and> fins (calls_of sid out) = (if length owed \<le> sum_list ns then 1 else 0)
     \<and> seats (wt_s w') sid = (if length owed \<le> sum_list ns then None else Some (line, Some (drop (sum_list ns) owed)))"
proof (induction evs arbitrary: w x out owed ns)
  case Nil
  then show ?case by (auto simp: calls_of_def events_of_def)
next
  case (Cons ev evs)
  obtain cnx s e where ev: "ev = (cnx, s, e)" by (metis prod_cases3)
  obtain r calls w1 x1 out1 where c: "wt_session_callback (Some ask) cnx e (Some s) w x = Some (r, calls, w1, x1)"
    "wt_run (Some ask) evs w1 x1 = Some (out1, w', x')" "out = map (Pair s) calls @ out1"
    using Cons.prems(1) unfolding ev by (rule wt_run_ConsE)
  note ok = callback_ok [OF Cons.prems(2) c(1)]
  note IH = Cons.IH [OF c(2) ok]
  note sp = step_spec [OF Cons.prems(2) c(1)]
  show ?case
  proof (cases "s = sid")
    case False
    then show ?thesis using IH spec_step_other [OF sp [symmetric] False] Cons.prems(3,4,5)
      by (simp add: ev events_of_Cons c(3) calls_of_append calls_of_own calls_of_Cons)
  next
    case True
    then obtain n ns1 where n: "e = Provide_Data n True" "offers_of (events_of sid evs) = Some ns1" "ns = n # ns1"
      using Cons.prems(4) by (cases "events_of sid (ev # evs)" rule: offers_of.cases) (auto simp: ev events_of_Cons)
    show ?thesis
    proof (cases "n < length owed")
      case part: True
      then have "seats (wt_s w1) sid = Some (line, Some (drop n owed))" "calls = [Provide (take n owed) False True]"
        using sp n(1) True Cons.prems(3) by (auto simp: spec_step_def)
      then show ?thesis using IH [OF _ n(2)] n(3) True part
        by (auto simp: c(3) calls_of_append calls_of_own calls_of_Cons take_add add.commute)
    next
      case whole: False
      then have "seats (wt_s w1) sid = None" "calls = [Provide owed True False]"
        using sp n(1) True Cons.prems(3) by (auto simp: spec_step_def)
      then show ?thesis using nothing_owed [OF c(2) ok _ n(2)] n(3) True whole
        by (simp add: c(3) calls_of_append calls_of_own calls_of_Cons)
    qed
  qed
qed

text \<open>The FIN asks the interactor, with the command the stream's bytes were.\<close>

lemma fin_asks:
  assumes "session_ok w" "seats (wt_s w) sid = Some (line, owed)"
  shows "map_option (\<lambda>(e, calls, w, x). (e, calls, seats (wt_s w) sid, wt_stop w, x))
      (wt_session_callback (Some ask) cnx (Post_Fin bs True) (Some sid) w x) =
    (let line = take WT_LINE_MAX (line @ printable bs) in
     map_option (\<lambda>(reply, stop, x). if reply = [] then (0, [], None, stop, x)
         else (0, [Mark_Active cnx sid], Some (line, Some reply), stop, x))
       (ask (c_string line) WT_REPLY_MAX (wt_stop w) x))"
proof -
  let ?r = "wt_session_callback (Some ask) cnx (Post_Fin bs True) (Some sid) w x"
  have "map_option (\<lambda>(e, calls, w, x). (e, calls, seats (wt_s w) sid, wt_stop w, x)) ?r =
      map_option (\<lambda>(e, calls, m, stop, x). (e, calls, m sid, stop, x))
        (spec_step (Some ask) cnx (Post_Fin bs True) sid (seats (wt_s w)) (wt_stop w) x)"
    unfolding callback_refines [OF assms(1), symmetric] by (cases ?r) auto
  then show ?thesis
    using assms(2) by (cases "ask (c_string (take WT_LINE_MAX (line @ printable bs))) WT_REPLY_MAX (wt_stop w) x")
      (auto simp: spec_step_def seated_def weft_ask_def Let_def simp del: take_append)
qed

end

end
