(* ===== verification/Wt_Theorems.thy ===== *)
theory Wt_Theorems
  imports Wt Interactor_Theorems
begin

text \<open>
  What the WebTransport session promises: that it is a table of at most sixteen exchanges, that a command reaches
  the ward as its bytes were sent whatever other streams do, and that an answer is delivered once.
\<close>

section \<open>A session to run the examples on\<close>

definition wire_bytes :: "string \<Rightarrow> bytes" where "wire_bytes s = map (\<lambda>c. word_of_nat (of_char c)) s"

definition ex_session :: wt_session where
  "ex_session = \<lparr>wt_s = \<lparr>st_id = 4, st_in_use = True, st_line = ''look'', st_reply = Some [1, 2, 3], st_sent = 0\<rparr>
      # replicate 15 free_seat, wt_stop = False, wt_bufs = 1\<rparr>"

definition ex_hearing :: wt_session where
  "ex_hearing = \<lparr>wt_s = \<lparr>st_id = 4, st_in_use = True, st_line = ''lo'', st_reply = None, st_sent = 0\<rparr>
      # replicate 15 free_seat, wt_stop = False, wt_bufs = 0\<rparr>"

lemma no_busy_seat: "filter st_in_use (replicate n free_seat) = []"
  by (induction n) (simp_all add: free_seat_def)

lemma ex_session_ok: "session_ok ex_session" "session_ok ex_hearing"
  by (simp_all add: session_ok_def ex_session_def ex_hearing_def no_busy_seat free_seat_ok)
    (simp_all add: seat_ok_def WT_LINE_MAX_def WT_REPLY_MAX_def WT_MAX_STREAMS_def)

lemma seats_start: "seats (wt_s wt_session_start) = Map.empty"
  by (simp add: seats_map_of busy_def wt_session_start_def no_busy_seat)

lemma stop_start: "\<not> wt_stop wt_session_start"
  by (simp add: wt_session_start_def)

lemma post_data_returns: "\<exists>e calls w'. wt_session_callback actor cnx (Post_Data bs) (Some sid) w x = Some (e, calls, w', x)"
  by (auto simp: wt_session_callback_def on_post_def Let_def split: prod.split option.split)

lemma provide_returns: "\<exists>e calls w'. wt_session_callback actor cnx (Provide_Data n granted) (Some sid) w x = Some (e, calls, w', x)"
  by (auto simp: wt_session_callback_def split: prod.split)

lemma reset_returns: "wt_session_callback actor cnx Reset_Stream (Some sid) w x = Some (0, [], on_reset sid w, x)"
  by (simp add: wt_session_callback_def)

lemma printable_examples: "printable [108] = ''l''" "printable [111] = ''o''" "printable [111, 107] = ''ok''"
  by code_simp+

section \<open>The session\<close>

text \<open>C9. The session refines its contract: for every event the seats, the calls back, the stop flag and the
  interactor's state are those of a table of at most sixteen exchanges, in which a stream's bytes extend its
  command up to 512 characters, its FIN asks, and its answer is what is left to send.\<close>

theorem session_refines_table:
  assumes "session_ok w"
  shows "map_option (\<lambda>(e, calls, w, x). (e, calls, seats (wt_s w), wt_stop w, x)) (wt_session_callback actor cnx ev (Some sid) w x) =
    spec_step actor cnx ev sid (seats (wt_s w)) (wt_stop w) x"
  by (rule callback_refines [OF assms])

theorem session_refines_table_witness:
  "map_option (\<lambda>(e, calls, w, x). (e, calls, seats (wt_s w), wt_stop w, x))
     (wt_session_callback (None :: unit ask option) 0 (Post_Data [108]) (Some 4) wt_session_start ()) =
   Some (0, [], [4 \<mapsto> (''l'', None)], False, ())"
  unfolding session_refines_table [OF start_ok] seats_start
  by (simp add: spec_step_def seated_def printable_examples WT_MAX_STREAMS_def WT_LINE_MAX_def wt_session_start_def)

text \<open>C20. Whatever arrives, in whatever order and on whatever streams, the session that serves the ward stays in
  order: sixteen seats, no two for one stream, every line within 512 characters and without line ends, every
  answer within its buffer with something left to send, and the free seats cleared.\<close>

theorem session_stays_in_order:
  assumes "wt_run (Some (ward_interactor api fuel)) evs wt_session_start x = Some (out, w, x')"
  shows "session_ok w \<and> card (dom (seats (wt_s w))) \<le> 16"
  using interactor.run_ok [OF ward.interactor_axioms  assms start_ok] seats_bound by (force simp: WT_MAX_STREAMS_def)

theorem session_stays_in_order_witness:
  "\<exists>out w x. wt_run (Some (ward_interactor mem_engine 1)) [(0, 4, Post_Data [108]), (1, 8, Reset_Stream)]
     wt_session_start (ex_gyre, ex_world) = Some (out, w, x) \<and> session_ok w \<and> card (dom (seats (wt_s w))) \<le> 16"
proof -
  have "wt_run (Some (ward_interactor mem_engine 1)) [(0, 4, Post_Data [108]), (1, 8, Reset_Stream)]
     wt_session_start (ex_gyre, ex_world) \<noteq> None"
    using post_data_returns [of "Some (ward_interactor mem_engine 1)" 0 "[108]" 4 wt_session_start "(ex_gyre, ex_world)"]
    by (auto simp: reset_returns)
  then obtain out w x where r: "wt_run (Some (ward_interactor mem_engine 1)) [(0, 4, Post_Data [108]), (1, 8, Reset_Stream)]
     wt_session_start (ex_gyre, ex_world) = Some (out, w, x)" by (metis not_None_eq prod_cases3)
  from session_stays_in_order [OF r] r show ?thesis by blast
qed

text \<open>C19. A command reaches the ward as it was sent: when the bytes of one stream arrive in any pieces between
  the events of other streams and its FIN comes, the ward is asked once, with the first 512 of those characters
  that are not line ends, up to a NUL, and the stream is then owed exactly the reply, or has no seat when there is
  none.\<close>

theorem command_is_heard:
  assumes "session_ok w" and "seats (wt_s w) sid = Some (line, None)" and "length line \<le> WT_LINE_MAX"
    and "wt_run (Some (ward_interactor api fuel)) evs w x = Some (out, w1, x1)"
    and "data_of (events_of sid evs) = Some bs"
  shows "map_option (\<lambda>(e, calls, w, x). (e, calls, seats (wt_s w) sid, wt_stop w, x))
      (wt_session_callback (Some (ward_interactor api fuel)) cnx (Post_Fin bs' True) (Some sid) w1 x1) =
    (let line = take WT_LINE_MAX (line @ printable (bs @ bs')) in
     map_option (\<lambda>(reply, stop, x). if reply = [] then (0, [], None, stop, x)
         else (0, [Mark_Active cnx sid], Some (line, Some reply), stop, x))
       (ward_interactor api fuel (c_string line) WT_REPLY_MAX (wt_stop w1) x1))"
proof -
  have h: "seats (wt_s w1) sid = Some (take WT_LINE_MAX (line @ printable bs), None)"
    using interactor.heard_among_others [OF ward.interactor_axioms  assms(4,1,2,5,3)] by simp
  have "take WT_LINE_MAX (take WT_LINE_MAX (line @ printable bs) @ printable bs') = take WT_LINE_MAX (line @ printable (bs @ bs'))"
    using assms(3) by (simp add: printable_append min_def)
  then show ?thesis using interactor.fin_asks [OF ward.interactor_axioms  interactor.run_ok [OF ward.interactor_axioms  assms(4,1)] h, where cnx = cnx and bs = bs'] by (simp add: Let_def)
qed

theorem command_is_heard_witness:
  "map_option (\<lambda>(e, calls, w, x). (e, calls, seats (wt_s w) 4, wt_stop w, x))
      (wt_session_callback (Some (ward_interactor mem_engine 1)) 0 (Post_Fin [107] True) (Some 4)
        (ex_hearing\<lparr>wt_s := (wt_s ex_hearing)[0 := (wt_s ex_hearing ! 0)\<lparr>st_line := ''loo''\<rparr>]\<rparr>) (ex_gyre, ex_world)) =
    map_option (\<lambda>(reply, stop, x). if reply = [] then (0, [], None, stop, x)
         else (0, [Mark_Active 0 4], Some (''look'', Some reply), stop, x))
       (ward_interactor mem_engine 1 ''look'' WT_REPLY_MAX False (ex_gyre, ex_world))"
proof -
  have s: "seats (wt_s ex_hearing) 4 = Some (''lo'', None)" by (simp add: seats_def ex_hearing_def exchange_of_def)
  have free: "stranger 8 (replicate 15 free_seat)" by (simp add: stranger_def free_seat_def)
  have "stranger 8 (t # replicate 15 free_seat)" if "st_id t = 4" for t using free that by (auto simp: stranger_def)
  then have far: "on_reset 8 \<lparr>wt_s = t # replicate 15 free_seat, wt_stop = False, wt_bufs = 0\<rparr> = \<lparr>wt_s = t # replicate 15 free_seat, wt_stop = False, wt_bufs = 0\<rparr>"
    if "st_id t = 4" for t
    using that by (simp add: on_reset_def stream_find_stranger)
  have r: "wt_run (Some (ward_interactor mem_engine 1)) [(0, 4, Post_Data [111]), (1, 8, Reset_Stream)] ex_hearing (ex_gyre, ex_world)
      = Some ([], ex_hearing\<lparr>wt_s := (wt_s ex_hearing)[0 := (wt_s ex_hearing ! 0)\<lparr>st_line := ''loo''\<rparr>]\<rparr>, (ex_gyre, ex_world))"
    by (simp add: reset_returns far)
      (simp add: wt_session_callback_def on_post_def stream_find_def ex_hearing_def hear_line WT_LINE_MAX_def printable_examples far)
  have d: "data_of (events_of 4 [(0, 4, Post_Data [111]), (1, 8, Reset_Stream)]) = Some [111]" by (simp add: events_of_def)
  have l: "length ''lo'' \<le> WT_LINE_MAX" by (simp add: WT_LINE_MAX_def)
  have "take WT_LINE_MAX (''lo'' @ printable ([111] @ [107])) = ''look''" by (simp add: printable_examples WT_LINE_MAX_def)
  moreover have "c_string ''look'' = ''look''" by (simp add: c_string_def)
  ultimately show ?thesis using command_is_heard [OF ex_session_ok(2) s l r d, of 0 "[107]"]
    by (simp add: ex_hearing_def Let_def)
qed

text \<open>C8. An answer is delivered once and whole: over any history in which the stream only asks for its answer,
  between the events of other streams, the bytes handed over are the answer's in order, as many as room was
  offered for; the FIN is on the last piece and on no other, and with it the seat is free.\<close>

theorem answer_is_delivered_once:
  assumes "session_ok w" and "seats (wt_s w) sid = Some (line, Some owed)" and "owed \<noteq> []"
    and "wt_run (Some (ward_interactor api fuel)) evs w x = Some (out, w', x')"
    and "offers_of (events_of sid evs) = Some ns"
  shows "provided (calls_of sid out) = take (sum_list ns) owed
     \<and> fins (calls_of sid out) = (if length owed \<le> sum_list ns then 1 else 0)
     \<and> seats (wt_s w') sid = (if length owed \<le> sum_list ns then None else Some (line, Some (drop (sum_list ns) owed)))"
  by (rule interactor.delivered_among_others [OF ward.interactor_axioms  assms(4,1,2,5,3)])

theorem answer_is_delivered_once_witness:
  "\<exists>out w x. wt_run (Some (ward_interactor mem_engine 1)) [(0, 4, Provide_Data 2 True), (1, 8, Reset_Stream), (0, 4, Provide_Data 2 True)]
     ex_session (ex_gyre, ex_world) = Some (out, w, x) \<and> provided (calls_of 4 out) = [1, 2, 3] \<and> seats (wt_s w) 4 = None"
proof -
  let ?evs = "[(0, 4, Provide_Data 2 True), (1, 8, Reset_Stream), (0, 4, Provide_Data 2 True)]"
  let ?x = "(ex_gyre, ex_world)" and ?a = "Some (ward_interactor mem_engine 1)"
  obtain e1 c1 w1 where 1: "wt_session_callback ?a 0 (Provide_Data 2 True) (Some 4) ex_session ?x = Some (e1, c1, w1, ?x)"
    using provide_returns by meson
  obtain e2 c2 w2 where 2: "wt_session_callback ?a 0 (Provide_Data 2 True) (Some 4) (on_reset 8 w1) ?x = Some (e2, c2, w2, ?x)"
    using provide_returns by meson
  have "wt_run (Some (ward_interactor mem_engine 1)) ?evs ex_session (ex_gyre, ex_world) \<noteq> None"
    using 1 2 by (simp add: reset_returns)
  then obtain out w x where r: "wt_run (Some (ward_interactor mem_engine 1)) ?evs ex_session (ex_gyre, ex_world) = Some (out, w, x)"
    by (metis not_None_eq prod_cases3)
  have s: "seats (wt_s ex_session) 4 = Some (''look'', Some [1, 2, 3])" by (simp add: seats_def ex_session_def exchange_of_def)
  have o: "offers_of (events_of 4 ?evs) = Some [2, 2]" by (simp add: events_of_def)
  from answer_is_delivered_once [OF ex_session_ok(1) s _ r o] r show ?thesis by auto
qed

text \<open>C34. A seat is found by the stream's number alone, and one session serves every connection: what one
  client sends on a stream and another ends on the stream of the same number runs as one command.\<close>

theorem clients_share_a_stream:
  "map_option (\<lambda>(out, w, x). (out, wt_stop w, x))
     (wt_run (Some (ward_interactor api fuel)) [(cnx, sid, Post_Data bs), (cnx', sid, Post_Fin bs' True)] wt_session_start x) =
   map_option (\<lambda>(reply, stop, x). (if reply = [] then [] else [(sid, Mark_Active cnx' sid)], stop, x))
     (ward_interactor api fuel (c_string (take WT_LINE_MAX (printable (bs @ bs')))) WT_REPLY_MAX False x)"
proof -
  let ?ask = "ward_interactor api fuel"
  obtain e calls w1 where 1: "wt_session_callback (Some ?ask) cnx (Post_Data bs) (Some sid) wt_session_start x = Some (e, calls, w1, x)"
    using post_data_returns by meson
  have sp: "calls = []" "\<not> wt_stop w1" "seats (wt_s w1) sid = Some (take WT_LINE_MAX (printable bs), None)"
    using step_spec [OF start_ok 1, unfolded seats_start] stop_start
    by (auto simp: spec_step_def seated_def WT_MAX_STREAMS_def)
  let ?r = "wt_session_callback (Some ?ask) cnx' (Post_Fin bs' True) (Some sid) w1 x"
  have join: "take WT_LINE_MAX (take WT_LINE_MAX (printable bs) @ printable bs') = take WT_LINE_MAX (printable (bs @ bs'))"
    by (simp add: printable_append min_def)
  have "map_option (\<lambda>(out, w, x). (out, wt_stop w, x))
      (wt_run (Some ?ask) [(cnx, sid, Post_Data bs), (cnx', sid, Post_Fin bs' True)] wt_session_start x) =
    map_option (\<lambda>(e, calls, p, stop, x). (map (Pair sid) calls, stop, x))
      (map_option (\<lambda>(e, calls, w, x). (e, calls, seats (wt_s w) sid, wt_stop w, x)) ?r)"
    using 1 sp(1) by (cases ?r) auto
  also have "\<dots> = map_option (\<lambda>(reply, stop, x). (if reply = [] then [] else [(sid, Mark_Active cnx' sid)], stop, x))
      (?ask (c_string (take WT_LINE_MAX (printable (bs @ bs')))) WT_REPLY_MAX False x)"
    unfolding interactor.fin_asks [OF ward.interactor_axioms  interactor.callback_ok [OF ward.interactor_axioms  start_ok 1] sp(3)] join
    using sp(2) by (cases "?ask (c_string (take WT_LINE_MAX (printable (bs @ bs')))) WT_REPLY_MAX False x") auto
  finally show ?thesis .
qed

end
