(* ===== verification/Client_Theorems.thy ===== *)
theory Client_Theorems
  imports Wt_Theorems
begin

text \<open>
  The parts together, as a client sees them: a command goes in over a stream in pieces, the ward obeys it, and the stream
  carries back a reply that can be read and that tells the truth about the ward's books.
\<close>

section \<open>How long a reply is\<close>

text \<open>A bound on the bytes of an item.\<close>

fun bulk :: "item \<Rightarrow> nat" where
  "bulk (I_Int v) = 9"
| "bulk (I_Text s) = 9 + length s"
| "bulk (I_Array xs) = 9 + sum_list (map bulk xs)"
| "bulk (I_Stream xs) = 2 + sum_list (map bulk xs)"
| "bulk (I_Map xs) = 9 + sum_list (map bulk xs)"
| "bulk (I_Bool b) = 1"
| "bulk I_Null = 1"

lemma head_bulk: "length (head_bytes m v) \<le> 9"
  by (simp add: head_bytes_def Let_def)

lemma encode_bulk: "length (encode x) \<le> bulk x"
proof (induction x rule: encode.induct)
  case (3 xs)
  then have "(\<Sum>x\<leftarrow>xs. length (encode x)) \<le> (\<Sum>x\<leftarrow>xs. bulk x)" by (rule sum_list_mono)
  then show ?case using head_bulk [of 4 "word_of_nat (length xs)"] by (simp add: length_concat o_def)
next
  case (4 xs)
  then have "(\<Sum>x\<leftarrow>xs. length (encode x)) \<le> (\<Sum>x\<leftarrow>xs. bulk x)" by (rule sum_list_mono)
  then show ?case by (simp add: length_concat o_def)
next
  case (5 xs)
  then have "(\<Sum>x\<leftarrow>xs. length (encode x)) \<le> (\<Sum>x\<leftarrow>xs. bulk x)" by (rule sum_list_mono)
  then show ?case using head_bulk [of 5 "word_of_nat (length xs div 2)"] by (simp add: length_concat o_def)
qed (use head_bulk in \<open>auto simp: add_mono\<close>)

lemma ex_reply_fits:
  "\<exists>x w'. reply_item mem_engine True ''the ward as it stands'' ex_gyre ex_world = (x, w') \<and> writable x \<and> length (encode x) \<le> WT_REPLY_MAX"
proof -
  obtain x w' where x: "reply_item mem_engine True ''the ward as it stands'' ex_gyre ex_world = (x, w')" "writable x"
    using ex_reply by blast
  then have "bulk x \<le> WT_REPLY_MAX"
    by (auto simp: reply_item_def honest_def purses_def Let_def engine_eval text_item_def ward_item_def ward_room_def
      rows_item_def row_item_def cell_item_def venue_cells_def spark_item_def VCOLS_def BCOLS_def spark_home_def upt_rec WT_REPLY_MAX_def)
  then show ?thesis using x encode_bulk [of x] le_trans by blast
qed

text \<open>The command \<open>look\<close> has an answer on the example ward.\<close>

lemma look_reply_splits: "split_command (take 511 ''look'') = (''look'', None, None)"
  by (simp add: split_command_def eval_nat_numeral)

lemma obey_look: "obey mem_engine 1 ex_gyre ''look'' None None ex_world = Some (True, ''the ward as it stands'', ex_gyre, ex_world)"
  by (simp add: obey_def)

lemma look_answered:
  obtains reply stop' v where "ward_interactor mem_engine 1 ''look'' WT_REPLY_MAX stop (ex_gyre, ex_world) = Some (reply, stop', (ex_gyre, v))"
proof -
  obtain item v where "reply_item mem_engine True ''the ward as it stands'' ex_gyre ex_world = (item, v)" "writable item"
    "length (encode item) \<le> WT_REPLY_MAX" using ex_reply_fits by blast
  then show ?thesis using that look_reply_splits obey_look by (auto simp: ward_interactor_def ward_ask_reply)
qed

section \<open>A command and its answer\<close>

lemma reply_item_shape:
  assumes "reply_item api ok say g w = (item, w')"
  obtains hon ys where "item = I_Map (text_item ''ok'' # I_Bool ok # text_item ''say'' # text_item say # text_item ''honest'' # I_Bool hon # ys)"
  using assms by (auto simp: reply_item_def Let_def split: prod.splits if_splits)

text \<open>C6. A client is served: when the bytes of its command arrive on a stream in any pieces between the events of other
  streams, and the ward, which keeps its books at that moment, obeys the command, then the stream carries the whole reply
  back in order, with one FIN at its end, whatever other streams do meanwhile; the reply is one data item that a reader
  decodes, it says \<open>ok\<close> and what was done, and it says \<open>honest\<close>, which is so: the ward's books are kept.\<close>

theorem client_is_served:
  assumes "sql_reader api db_of content"
    and "session_ok w" and "seats (wt_s w) sid = Some (line, None)" and "length line \<le> WT_LINE_MAX"
    and "wt_run (Some (ward_interactor api fuel)) before w x = Some (out1, w1, (g, v))"
    and "data_of (events_of sid before) = Some bs"
    and "books db_of content 0 v g" and "named db_of v g"
    and "wt_session_callback (Some (ward_interactor api fuel)) cnx (Post_Fin bs' True) (Some sid) w1 (g, v) = Some (e, calls, w2, x2)"
    and "split_command (take 511 (c_string (take WT_LINE_MAX (line @ printable (bs @ bs'))))) = (verb, arg1, arg2)"
    and "obey api fuel g verb arg1 arg2 v = Some (True, say, g', v1)"
    and "reply_item api True say g' v1 = (item, v2)" and "writable item" and "length (encode item) \<le> WT_REPLY_MAX"
    and "\<forall>s \<in> set (g_sparks g'). c_int (s_purse s)" and "g_found g' < 2 ^ 31"
    and "wt_run (Some (ward_interactor api fuel)) later w2 x2 = Some (out2, w3, x3)"
    and "offers_of (events_of sid later) = Some ns" and "WT_REPLY_MAX \<le> sum_list ns"
  shows "x2 = (g', v2) \<and> books db_of content 0 v2 g' \<and> named db_of v2 g'
    \<and> (\<exists>ys. decode (provided (calls_of sid out2)) = Some (I_Map ys, [])
        \<and> take 6 ys = [text_item ''ok'', I_Bool True, text_item ''say'', text_item say, text_item ''honest'', I_Bool True])
    \<and> fins (calls_of sid out2) = 1 \<and> seats (wt_s w3) sid = None"
proof -
  let ?ask = "ward_interactor api fuel" and ?line = "take WT_LINE_MAX (line @ printable (bs @ bs'))"
  have engine: "sql_engine api db_of content" using assms(1) by (simp add: sql_reader_def)
  have ok1: "session_ok w1" by (rule interactor.run_ok [OF ward.interactor_axioms assms(5,2)])
  have ok2: "session_ok w2" by (rule interactor.callback_ok [OF ward.interactor_axioms ok1 assms(9)])
  have heard: "seats (wt_s w1) sid = Some (take WT_LINE_MAX (line @ printable bs), None)"
    using interactor.heard_among_others [OF ward.interactor_axioms assms(5,2,3,6,4)] by simp
  have join: "take WT_LINE_MAX (take WT_LINE_MAX (line @ printable bs) @ printable bs') = ?line"
    using assms(4) by (simp add: printable_append min_def)
  obtain stop where asked: "?ask (c_string ?line) WT_REPLY_MAX (wt_stop w1) (g, v) = Some (encode item, stop, (g', v2))"
    using assms(10-12,14) by (simp add: ward_interactor_def ward_ask_reply)
  obtain hon ys where item: "item = I_Map (text_item ''ok'' # I_Bool True # text_item ''say'' # text_item say # text_item ''honest''
      # I_Bool hon # ys)" using assms(12) by (rule reply_item_shape)
  have whole: "decode (encode item) = Some (item, [])"
    using read_item_encode [OF assms(13), of _ "[]"] by (simp add: decode_def)
  have some: "encode item \<noteq> []" by (simp add: item head_bytes_def Let_def)
  have sent: "seats (wt_s w2) sid = Some (?line, Some (encode item))" "x2 = (g', v2)"
    using interactor.fin_asks [OF ward.interactor_axioms [of api fuel] ok1 heard, where cnx = cnx and bs = bs' and x = "(g, v)"]
    by (simp_all only: join Let_def assms(9) asked) (simp_all add: some)
  have out: "provided (calls_of sid out2) = encode item \<and> fins (calls_of sid out2) = 1 \<and> seats (wt_s w3) sid = None"
    using interactor.delivered_among_others [OF ward.interactor_axioms assms(17) ok2 sent(1) assms(18) some] assms(14,19) by simp
  have "kept db_of content v1 g'"
    using sql_engine.obey_kept [OF engine assms(11)] assms(7,8) by (simp add: kept_def)
  moreover from this have b: "books db_of content 0 v1 g'" by (simp add: kept_def)
  ultimately have "kept db_of content v2 g'"
    using sql_engine.kept_quiet [OF engine sql_engine.reply_item_quiet [OF engine assms(12) b]] by blast
  moreover have "hon"
    using sql_reader.reply_item_honest [OF assms(1) assms(12) [unfolded item] b _ assms(16)] assms(15) by simp
  ultimately show ?thesis using sent(2) out whole item by (simp add: kept_def)
qed

theorem client_is_served_witness:
  "\<exists>e calls w2 v out w3 x. wt_session_callback (Some (ward_interactor mem_engine 1)) 0 (Post_Fin [111, 107] True) (Some 4) ex_hearing (ex_gyre, ex_world)
       = Some (e, calls, w2, (ex_gyre, v))
     \<and> wt_run (Some (ward_interactor mem_engine 1)) [(0, 4, Provide_Data WT_REPLY_MAX True)] w2 (ex_gyre, v) = Some (out, w3, x)
     \<and> fins (calls_of 4 out) = 1 \<and> seats (wt_s w3) 4 = None"
proof -
  let ?a = "Some (ward_interactor mem_engine 1)" and ?x = "(ex_gyre, ex_world)"
  obtain item v where i: "reply_item mem_engine True ''the ward as it stands'' ex_gyre ex_world = (item, v)" "writable item"
    "length (encode item) \<le> WT_REPLY_MAX" using ex_reply_fits by blast
  have s: "seats (wt_s ex_hearing) 4 = Some (''lo'', None)" by (simp add: seats_def ex_hearing_def exchange_of_def)
  have l: "length ''lo'' \<le> WT_LINE_MAX" by (simp add: WT_LINE_MAX_def)
  have r: "wt_run ?a [] ex_hearing ?x = Some ([], ex_hearing, ?x)" by simp
  have d: "data_of (events_of 4 []) = Some []" by (simp add: events_of_def)
  have look: "c_string (take WT_LINE_MAX (''lo'' @ printable ([] @ [111, 107]))) = ''look''"
    by (simp add: printable_examples WT_LINE_MAX_def c_string_def)
  have split: "split_command (take 511 (c_string (take WT_LINE_MAX (''lo'' @ printable ([] @ [111, 107]))))) = (''look'', None, None)"
    unfolding look by (simp add: split_command_def eval_nat_numeral)
  have o: "obey mem_engine 1 ex_gyre ''look'' None None ex_world = Some (True, ''the ward as it stands'', ex_gyre, ex_world)"
    by (simp add: obey_def)
  have "wt_session_callback ?a 0 (Post_Fin [111, 107] True) (Some 4) ex_hearing ?x \<noteq> None"
    using interactor.fin_asks [OF ward.interactor_axioms [of mem_engine 1] ex_session_ok(2) s, where cnx = 0 and bs = "[111, 107]" and x = ?x]
      look split o i by (auto simp: Let_def ward_interactor_def ward_ask_reply)
  then obtain e calls w2 x2 where f: "wt_session_callback ?a 0 (Post_Fin [111, 107] True) (Some 4) ex_hearing ?x = Some (e, calls, w2, x2)"
    by (metis not_None_eq prod_cases4)
  obtain out w3 where t: "wt_run ?a [(0, 4, Provide_Data WT_REPLY_MAX True)] w2 x2 = Some (out, w3, x2)"
    using provide_returns [of ?a 0 WT_REPLY_MAX True 4 w2 x2] by auto
  have n: "offers_of (events_of 4 [(0, 4, Provide_Data WT_REPLY_MAX True)]) = Some [WT_REPLY_MAX]" by (simp add: events_of_def)
  have small: "\<forall>p \<in> set (g_sparks ex_gyre). c_int (s_purse p)" "g_found ex_gyre < 2 ^ 31"
    by (auto simp: ex_gyre_def zero_gyre_def c_int_def)
  from client_is_served [OF mem.sql_reader_axioms ex_session_ok(2) s l r d ex_books ex_named f split o i(1,2,3) small t n] f t
  show ?thesis by auto
qed

section \<open>A whole session\<close>

text \<open>A session does with the ward only what it asks: what holds of the ward at the start and is kept by every command holds at the
  end, and an interactor that answers more commands answers the same ones in the same way.\<close>

lemma callback_keeps:
  assumes "\<And>command cap stop x r stop' x'. P x \<Longrightarrow> ask command cap stop x = Some (r, stop', x') \<Longrightarrow> P x'"
    and "wt_session_callback (Some ask) cnx ev ctx w x = Some (e, calls, w', x')" and "P x"
  shows "P x'"
  using assms(2,3) assms(1)
  by (auto simp: wt_session_callback_def on_post_def weft_ask_def Let_def
      split: option.splits wt_event.splits prod.splits bind_splits if_splits)

lemma run_keeps:
  assumes "\<And>command cap stop x r stop' x'. P x \<Longrightarrow> ask command cap stop x = Some (r, stop', x') \<Longrightarrow> P x'"
  shows "wt_run (Some ask) evs w x = Some (out, w', x') \<Longrightarrow> P x \<Longrightarrow> P x'"
proof (induction evs arbitrary: w x out)
  case (Cons ev evs)
  obtain cnx sid e where ev: "ev = (cnx, sid, e)" by (metis prod_cases3)
  obtain r calls w1 x1 out1 where c: "wt_session_callback (Some ask) cnx e (Some sid) w x = Some (r, calls, w1, x1)"
    "wt_run (Some ask) evs w1 x1 = Some (out1, w', x')"
    using Cons.prems(1) unfolding ev by (rule wt_run_ConsE)
  show ?case using Cons.IH [OF c(2) callback_keeps [where P = P and ask = ask, OF assms c(1) Cons.prems(2)]] .
qed simp

lemma callback_more:
  assumes "\<And>command cap stop x r. ask command cap stop x = Some r \<Longrightarrow> ask' command cap stop x = Some r"
    and "wt_session_callback (Some ask) cnx ev ctx w x = Some r"
  shows "wt_session_callback (Some ask') cnx ev ctx w x = Some r"
  using assms(2)
  by (auto simp: wt_session_callback_def on_post_def weft_ask_def Let_def dest!: assms(1)
      split: option.splits wt_event.splits prod.splits bind_splits if_splits)

lemma run_more:
  assumes "\<And>command cap stop x r. ask command cap stop x = Some r \<Longrightarrow> ask' command cap stop x = Some r"
  shows "wt_run (Some ask) evs w x = Some r \<Longrightarrow> wt_run (Some ask') evs w x = Some r"
proof (induction evs arbitrary: w x r)
  case (Cons ev evs)
  obtain cnx sid e where ev: "ev = (cnx, sid, e)" by (metis prod_cases3)
  obtain out w' x' where r: "r = (out, w', x')" by (metis prod_cases3)
  obtain k calls w1 x1 out1 where c: "wt_session_callback (Some ask) cnx e (Some sid) w x = Some (k, calls, w1, x1)"
    "wt_run (Some ask) evs w1 x1 = Some (out1, w', x')" "out = map (Pair sid) calls @ out1"
    using Cons.prems unfolding ev r by (rule wt_run_ConsE)
  show ?case using callback_more [OF assms c(1)] Cons.IH [OF c(2)] c(3) by (simp add: ev r)
qed simp

text \<open>The ward in a session in which every command was obeyed: one that fails ends it.\<close>

definition strict_ward :: "'w api \<Rightarrow> nat \<Rightarrow> (gyre \<times> 'w) ask" where
  "strict_ward api fuel command cap stop x =
     (let (verb, arg1, arg2) = split_command (take 511 command) in
      case obey api fuel (fst x) verb arg1 arg2 (snd x) of Some (True, _) \<Rightarrow> ward_interactor api fuel command cap stop x
      | _ \<Rightarrow> None)"

lemma strict_ward_more: "strict_ward api fuel command cap stop x = Some r \<Longrightarrow> ward_interactor api fuel command cap stop x = Some r"
  by (auto simp: strict_ward_def split: option.splits prod.splits bool.splits)

interpretation strict: interactor "strict_ward api fuel" for api fuel
  by unfold_locales (auto dest!: strict_ward_more simp: ward_interactor_def dest: ward_ask_within)

lemma strict_ward_kept:
  assumes "sql_engine api db_of content" and "kept db_of content (snd x) (fst x)"
    and "strict_ward api fuel command cap stop x = Some (r, stop', x')"
  shows "kept db_of content (snd x') (fst x')"
proof -
  obtain verb arg1 arg2 say g w where c: "split_command (take 511 command) = (verb, arg1, arg2)"
    and o: "obey api fuel (fst x) verb arg1 arg2 (snd x) = Some (True, say, g, w)"
    using assms(3) by (auto simp: strict_ward_def split: option.splits prod.splits bool.splits)
  obtain item w' where i: "reply_item api True say g w = (item, w')" by fastforce
  have k: "kept db_of content w g" using sql_engine.obey_kept [OF assms(1) o assms(2)] .
  then have "kept db_of content w' g"
    using sql_engine.kept_quiet [OF assms(1) sql_engine.reply_item_quiet [OF assms(1) i]] by (simp add: kept_def)
  then show ?thesis
    using strict_ward_more [OF assms(3)] c o i by (auto simp: ward_interactor_def ward_ask_reply)
qed

text \<open>C7. A session in which every command was obeyed keeps the books: whatever arrives on whatever streams of whatever clients,
  if no command failed on the way, then the session went as it does with the ward, every balance the process remembers is
  the one in its database, the scrip is conserved, and every database has its name.\<close>

theorem session_keeps_books:
  assumes "sql_engine api db_of content" and "books db_of content 0 v g" and "named db_of v g"
    and "wt_run (Some (strict_ward api fuel)) evs w (g, v) = Some (out, w', (g', v'))"
  shows "wt_run (Some (ward_interactor api fuel)) evs w (g, v) = Some (out, w', (g', v'))
    \<and> books db_of content 0 v' g' \<and> named db_of v' g'"
proof -
  have "kept db_of content (snd (g', v')) (fst (g', v'))"
    by (rule run_keeps [where P = "\<lambda>x. kept db_of content (snd x) (fst x)", OF strict_ward_kept [OF assms(1)] assms(4)])
      (use assms(2,3) in \<open>simp_all add: kept_def\<close>)
  then show ?thesis using run_more [OF strict_ward_more assms(4)] by (simp add: kept_def)
qed

theorem session_keeps_books_witness:
  "\<exists>out w v. wt_run (Some (ward_interactor mem_engine 1)) [(0, 4, Post_Fin [111, 107] True), (1, 8, Reset_Stream)] ex_hearing (ex_gyre, ex_world)
       = Some (out, w, (ex_gyre, v)) \<and> books mem_file m_files 0 v ex_gyre \<and> named mem_file v ex_gyre"
proof -
  let ?a = "strict_ward mem_engine 1" and ?x = "(ex_gyre, ex_world)"
  have s: "seats (wt_s ex_hearing) 4 = Some (''lo'', None)" by (simp add: seats_def ex_hearing_def exchange_of_def)
  have look: "c_string (take WT_LINE_MAX (''lo'' @ printable [111, 107])) = ''look''"
    by (simp add: printable_examples WT_LINE_MAX_def c_string_def)
  obtain reply stop v where "ward_interactor mem_engine 1 ''look'' WT_REPLY_MAX (wt_stop ex_hearing) ?x = Some (reply, stop, (ex_gyre, v))"
    by (rule look_answered)
  then have a: "?a ''look'' WT_REPLY_MAX (wt_stop ex_hearing) ?x = Some (reply, stop, (ex_gyre, v))"
    using look_reply_splits obey_look by (simp add: strict_ward_def)
  obtain e calls w2 where f: "wt_session_callback (Some ?a) 0 (Post_Fin [111, 107] True) (Some 4) ex_hearing ?x = Some (e, calls, w2, (ex_gyre, v))"
    using strict.fin_asks [OF ex_session_ok(2) s, where cnx = 0 and bs = "[111, 107]" and x = ?x and api = mem_engine and fuel = 1] look a
    by (auto simp: Let_def split: if_splits)
  have "wt_run (Some ?a) [(0, 4, Post_Fin [111, 107] True), (1, 8, Reset_Stream)] ex_hearing ?x
      = Some (map (Pair 4) calls, on_reset 8 w2, (ex_gyre, v))"
    by (simp add: f [simplified] reset_returns)
  from session_keeps_books [OF mem.sql_engine_axioms ex_books ex_named this] show ?thesis by blast
qed

end
