(* ===== verification/Service.thy ===== *)
theory Service
  imports Wt Interactor
begin

text \<open>
  The service: how \<open>src/src/wt.c\<close> opens, drives and closes its socket, and \<open>serve\<close> and \<open>main\<close> of
  \<open>src/src/queen.c\<close>. The operating system answers the calls that can fail (a function \<open>sys\<close> from the call to its
  result, negative for a failure), and picoquic is the record \<open>quic\<close> of the functions the source calls: it is a
  process that, while a packet is read or written, calls the session back until it has no more to say. What the
  process holds is a set of resources and a number of reply buffers, so that a leak is something left in it. What the
  transport asks of its descriptors is a list of values of \<open>fd_call\<close>.
\<close>

section \<open>The timer\<close>

text \<open>\<open>arm_timer\<close>: the seconds and nanoseconds of the timer's first expiry; zero for both would disarm it.\<close>

definition timer_delta :: "u64 \<Rightarrow> u64 \<Rightarrow> int" where
  "timer_delta wake now = (let delta = sint (wake - now) in if delta < 1000 then 1000 else delta)"

definition arm_timer :: "u64 \<Rightarrow> u64 \<Rightarrow> int \<times> int" where
  "arm_timer wake now =
     (let delta = timer_delta wake now in (delta sdiv 1000000, (delta smod 1000000) * 1000))"

section \<open>Opening and closing\<close>

datatype syscall =
    Calloc_Wt | Calloc_Session | Getaddrinfo | Socket | Bind | Calloc_Table | Calloc_Params | Picoquic_Create
  | Timerfd_Create

datatype resource = R_Wt | R_Session | R_Addrinfo | R_Fd int | R_Table | R_Params | R_Quic

record wt =
  w_quic :: bool
  w_table :: bool
  w_params :: bool
  w_session :: bool
  w_udp_fd :: int
  w_timer_fd :: int

text \<open>The resources, and the reply buffers no session accounts for any more.\<close>

type_synonym holdings = "resource set \<times> int"

text \<open>A call that yields a resource when it succeeds.\<close>

definition acquire :: "(syscall \<Rightarrow> int) \<Rightarrow> syscall \<Rightarrow> resource \<Rightarrow> holdings \<Rightarrow> bool \<times> holdings" where
  "acquire sys call r held = (if sys call < 0 then (False, held) else (True, insert r (fst held), snd held))"

definition give_back :: "resource \<Rightarrow> holdings \<Rightarrow> holdings" where
  "give_back r held = (fst held - {r}, snd held)"

definition udp_bind :: "(syscall \<Rightarrow> int) \<Rightarrow> holdings \<Rightarrow> int \<times> holdings" where
  "udp_bind sys held =
     (let (got, held) = acquire sys Getaddrinfo R_Addrinfo held in
      if \<not> got then (- 1, held) else
      let fd = sys Socket; (got, held) = acquire sys Socket (R_Fd fd) held in
      if \<not> got then (- 1, give_back R_Addrinfo held) else
      if sys Bind < 0 then (- 1, give_back R_Addrinfo (give_back (R_Fd fd) held))
      else (fd, give_back R_Addrinfo held))"

text \<open>The loop of \<open>wt_close\<close> over the seats, and what it does after it. What the session has of the heap then is what nothing
  points to any more; \<open>free\<close> of a null pointer does nothing.\<close>

definition release_seats :: "wt_session \<Rightarrow> wt_session" where
  "release_seats s = fold (\<lambda>i s. if st_in_use (wt_s s ! i) then stream_release i s else s) [0..<WT_MAX_STREAMS] s"

definition wt_close :: "wt \<Rightarrow> wt_session \<Rightarrow> holdings \<Rightarrow> holdings" where
  "wt_close w s held =
     (let held = (if w_session w then (fst held, snd held + wt_bufs (release_seats s)) else held);
          held = (if w_quic w then give_back R_Quic held else held);
          held = (if w_udp_fd w \<ge> 0 then give_back (R_Fd (w_udp_fd w)) held else held);
          held = (if w_timer_fd w \<ge> 0 then give_back (R_Fd (w_timer_fd w)) held else held);
          held = (if w_params w then give_back R_Params held else held);
          held = (if w_table w then give_back R_Table held else held);
          held = (if w_session w then give_back R_Session held else held)
      in give_back R_Wt held)"

text \<open>Every \<open>goto fail\<close> closes what has been opened so far, with the session as \<open>calloc\<close> made it. The table and the parameters
  are allocated before either is checked.\<close>

definition wt_open :: "(syscall \<Rightarrow> int) \<Rightarrow> holdings \<Rightarrow> wt option \<times> holdings" where
  "wt_open sys held =
     (let (got, held) = acquire sys Calloc_Wt R_Wt held in
      if \<not> got then (None, held) else
      let w = \<lparr>w_quic = False, w_table = False, w_params = False, w_session = False, w_udp_fd = - 1, w_timer_fd = - 1\<rparr>;
          (got, held) = acquire sys Calloc_Session R_Session held; w = w\<lparr>w_session := got\<rparr>;
          fail = (\<lambda>w held. (None, wt_close w wt_session_start held)) in
      if \<not> got then fail w held else
      let (fd, held) = udp_bind sys held; w = w\<lparr>w_udp_fd := fd\<rparr> in
      if fd < 0 then fail w held else
      let (table, held) = acquire sys Calloc_Table R_Table held; w = w\<lparr>w_table := table\<rparr>;
          (params, held) = acquire sys Calloc_Params R_Params held; w = w\<lparr>w_params := params\<rparr> in
      if \<not> table \<or> \<not> params then fail w held else
      let (got, held) = acquire sys Picoquic_Create R_Quic held; w = w\<lparr>w_quic := got\<rparr> in
      if \<not> got then fail w held else
      let (got, held) = acquire sys Timerfd_Create (R_Fd (sys Timerfd_Create)) held;
          w = w\<lparr>w_timer_fd := sys Timerfd_Create\<rparr> in
      if \<not> got then fail w held else (Some w, held))"

section \<open>The socket\<close>

text \<open>picoquic: a packet is handed in, or one is begun; the session is called back until there is nothing more;
  and a packet that was begun is finished, with its code and its bytes.\<close>

record 'q quic =
  q_incoming :: "bytes \<Rightarrow> u64 \<Rightarrow> 'q \<Rightarrow> 'q"
  q_prepare :: "u64 \<Rightarrow> 'q \<Rightarrow> 'q"
  q_callback :: "'q \<Rightarrow> (nat \<times> u64 option \<times> wt_event) option \<times> 'q"
  q_answered :: "int \<Rightarrow> wt_call list \<Rightarrow> 'q \<Rightarrow> 'q"
  q_packet :: "'q \<Rightarrow> (int \<times> bytes) \<times> 'q"
  q_wake :: "u64 \<Rightarrow> 'q \<Rightarrow> u64"

text \<open>What drives the session: picoquic, the session, and the interactor's context. \<open>fuel\<close> bounds the calls back
  of one packet and the packets of one \<open>flush\<close>.\<close>

type_synonym ('q, 'x) driven = "'q \<times> wt_session \<times> 'x"

text \<open>What is asked of the descriptors: \<open>sendto\<close> on the socket, \<open>timerfd_settime\<close> and \<open>read\<close> on the timer.\<close>

datatype fd_call = Sendto bytes | Settime "int \<times> int" | Read_Timer

fun call_back :: "'q quic \<Rightarrow> 'x ask option \<Rightarrow> nat \<Rightarrow> ('q, 'x) driven \<Rightarrow> ('q, 'x) driven option" where
  "call_back Q actor 0 _ = None"
| "call_back Q actor (Suc n) (q, s, x) =
     (case q_callback Q q of
        (None, q) \<Rightarrow> Some (q, s, x)
      | (Some (cnx, ctx, ev), q) \<Rightarrow>
          do { (e, calls, s, x) \<leftarrow> wt_session_callback actor cnx ev ctx s x;
               call_back Q actor n (q_answered Q e calls q, s, x) })"

fun flush_loop :: "'q quic \<Rightarrow> 'x ask option \<Rightarrow> nat \<Rightarrow> u64 \<Rightarrow> nat \<Rightarrow> ('q, 'x) driven \<Rightarrow> bytes list \<Rightarrow>
    (('q, 'x) driven \<times> bytes list) option" where
  "flush_loop Q actor fuel now 0 st sent = None"
| "flush_loop Q actor fuel now (Suc n) (q, s, x) sent =
     do { (q, s, x) \<leftarrow> call_back Q actor fuel (q_prepare Q now q, s, x);
          let ((e, pkt), q) = q_packet Q q;
          if e \<noteq> 0 \<or> pkt = [] then Some ((q, s, x), sent)
          else flush_loop Q actor fuel now n (q, s, x) (sent @ [pkt]) }"

definition flush :: "'q quic \<Rightarrow> 'x ask option \<Rightarrow> nat \<Rightarrow> u64 \<Rightarrow> ('q, 'x) driven \<Rightarrow> (('q, 'x) driven \<times> fd_call list) option" where
  "flush Q actor fuel now st =
     do { ((q, s, x), sent) \<leftarrow> flush_loop Q actor fuel now fuel st [];
          Some ((q, s, x), map Sendto sent @ [Settime (arm_timer (q_wake Q now q) now)]) }"

text \<open>\<open>recvfrom\<close> gives the datagrams that have arrived, and stops at the first result that is not positive.\<close>

fun receive_all :: "'q quic \<Rightarrow> 'x ask option \<Rightarrow> nat \<Rightarrow> u64 \<Rightarrow> bytes list \<Rightarrow> ('q, 'x) driven \<Rightarrow>
    ('q, 'x) driven option" where
  "receive_all Q actor fuel now [] st = Some st"
| "receive_all Q actor fuel now (p # ps) (q, s, x) =
     (if p = [] then Some (q, s, x)
      else do { st \<leftarrow> call_back Q actor fuel (q_incoming Q p now q, s, x);
                receive_all Q actor fuel now ps st })"

definition wt_readable :: "'q quic \<Rightarrow> 'x ask option \<Rightarrow> nat \<Rightarrow> u64 \<Rightarrow> bytes list \<Rightarrow> ('q, 'x) driven \<Rightarrow>
    (('q, 'x) driven \<times> fd_call list) option" where
  "wt_readable Q actor fuel now ps st =
     do { st \<leftarrow> receive_all Q actor fuel now ps st; flush Q actor fuel now st }"

definition wt_tick :: "'q quic \<Rightarrow> 'x ask option \<Rightarrow> nat \<Rightarrow> u64 \<Rightarrow> ('q, 'x) driven \<Rightarrow> (('q, 'x) driven \<times> fd_call list) option" where
  "wt_tick Q actor fuel now st = do { (st, calls) \<leftarrow> flush Q actor fuel now st; Some (st, Read_Timer # calls) }"

definition fds_of :: "wt \<Rightarrow> int \<Rightarrow> int list" where
  "fds_of w most = (if 0 < most then [w_udp_fd w] else []) @ (if 1 < most then [w_timer_fd w] else [])"

definition ready :: "'q quic \<Rightarrow> 'x ask option \<Rightarrow> nat \<Rightarrow> wt \<Rightarrow> int \<Rightarrow> u64 \<Rightarrow> bytes list \<Rightarrow> ('q, 'x) driven \<Rightarrow>
    (('q, 'x) driven \<times> fd_call list) option" where
  "ready Q actor fuel w fd now ps st =
     (if fd = w_udp_fd w then wt_readable Q actor fuel now ps st
      else if fd = w_timer_fd w then wt_tick Q actor fuel now st
      else Some (st, []))"

text \<open>A client that connects: its control stream is routed to the session, and its number is declared as the prefix of
  every stream it will open. The result is the code, the stream routed and the prefix declared.\<close>

definition wt_connect_callback :: "bool \<Rightarrow> bool \<Rightarrow> (u64 \<Rightarrow> int) \<Rightarrow> u64 \<Rightarrow> int \<times> u64 option \<times> u64 option" where
  "wt_connect_callback is_connect has_context declare_prefix sid =
     (if \<not> is_connect then (0, None, None)
      else if \<not> has_context then (- 1, Some sid, None)
      else (declare_prefix sid, Some sid, Some sid))"

section \<open>The service\<close>

definition MAX_FDS :: int where "MAX_FDS = 4 + 128"

text \<open>One return of \<open>poll\<close>: for each descriptor whether it has an event, the time, and the datagrams that wait.\<close>

type_synonym poll_round = "(int \<Rightarrow> bool) \<times> u64 \<times> bytes list"

fun ready_all :: "'q quic \<Rightarrow> 'x ask option \<Rightarrow> nat \<Rightarrow> wt \<Rightarrow> poll_round \<Rightarrow> int list \<Rightarrow> ('q, 'x) driven \<Rightarrow>
    (('q, 'x) driven \<times> fd_call list) option" where
  "ready_all Q actor fuel w r [] st = Some (st, [])"
| "ready_all Q actor fuel w r (fd # fds) st =
     (case r of (revents, now, ps) \<Rightarrow>
        do { (st, calls) \<leftarrow> (if revents fd then ready Q actor fuel w fd now ps st else Some (st, []));
             (st, more) \<leftarrow> ready_all Q actor fuel w r fds st;
             Some (st, calls @ more) })"

text \<open>The loop, over the polls that return before one fails; what it asked of the descriptors, by the poll.\<close>

fun serve_loop :: "'q quic \<Rightarrow> 'x ask option \<Rightarrow> nat \<Rightarrow> wt \<Rightarrow> poll_round list \<Rightarrow> ('q, 'x) driven \<Rightarrow>
    (('q, 'x) driven \<times> fd_call list list) option" where
  "serve_loop Q actor fuel w [] st = Some (st, [])"
| "serve_loop Q actor fuel w (r # rs) (q, s, x) =
     (if wt_stop s then Some ((q, s, x), [])
      else do { (st, calls) \<leftarrow> ready_all Q actor fuel w r (fds_of w MAX_FDS) (q, s, x);
                (st, more) \<leftarrow> serve_loop Q actor fuel w rs st;
                Some (st, calls # more) })"

record 'q service_env =
  e_cert :: "string option"
  e_key :: "string option"
  e_sys :: "syscall \<Rightarrow> int"
  e_quic :: "'q quic"
  e_start :: 'q
  e_polls :: "poll_round list"
  e_fdb :: bool

definition serve :: "'w api \<Rightarrow> 'q service_env \<Rightarrow> nat \<Rightarrow> int \<Rightarrow> u64 \<Rightarrow> 'w \<times> holdings \<Rightarrow> (int \<times> 'w \<times> holdings) option" where
  "serve api env fuel n seed st =
     (case st of (w, held) \<Rightarrow>
      if e_cert env = None \<or> e_key env = None then Some (2, w, held) else
      do { (e, g, w) \<leftarrow> found_ward api zero_gyre ''gyre-live'' n seed 0 w;
           if e \<noteq> 0 then Some (1, w, held) else
           (case wt_open (e_sys env) held of
              (None, held) \<Rightarrow> Some (1, close_ward api g w, held)
            | (Some t, held) \<Rightarrow>
                do { ((_, s, g, w), _) \<leftarrow> serve_loop (e_quic env) (Some (ward_interactor api fuel)) fuel t (e_polls env)
                       (e_start env, wt_session_start, (g, w));
                     let held = wt_close t s held;
                     let (rc, w) = honest api g w;
                     Some (rc, close_ward api g w, held) }) })"

text \<open>\<open>strtoull\<close> in base ten: a number too large saturates, and a sign negates in 64 bits.\<close>

definition c_strtoull :: "string \<Rightarrow> u64" where
  "c_strtoull s =
     (let sat = (\<lambda>v :: int. if v \<ge> 2 ^ 64 then (- 1, True) else (word_of_int v, False)) in
      case dropWhile is_space s of
        CHR ''-'' # t \<Rightarrow> (let (v, over) = sat (digits_value t) in if over then v else - v)
      | CHR ''+'' # t \<Rightarrow> fst (sat (digits_value t))
      | t \<Rightarrow> fst (sat (digits_value t)))"

text \<open>The arguments are those after the program's name.\<close>

definition main_args :: "string list \<Rightarrow> string \<times> int \<times> u64 \<times> int" where
  "main_args args =
     (args ! 0, c_atoi (args ! 1), if length args > 2 then c_strtoull (args ! 2) else 20260811,
      if length args > 3 then c_atoi (args ! 3) else 8)"

definition play_once :: "'w api \<Rightarrow> nat \<Rightarrow> int \<Rightarrow> int \<Rightarrow> u64 \<Rightarrow> 'w \<Rightarrow> (int \<times> 'w) option" where
  "play_once api fuel cycles n seed w =
     do { (e, a, w) \<leftarrow> play api fuel ''gyre-a'' cycles n seed w;
          if e \<noteq> 0 then Some (1, w)
          else let (fa, w) = fingerprint api a w in Some (0, close_ward api a w) }"

definition queen_main :: "'w api \<Rightarrow> 'q service_env \<Rightarrow> nat \<Rightarrow> string list \<Rightarrow> 'w \<times> holdings \<Rightarrow>
    (int \<times> 'w \<times> holdings) option" where
  "queen_main api env fuel args st =
     (case st of (w, held) \<Rightarrow>
      if length args < 2 then Some (2, w, held) else
      case main_args args of (mode, cycles, seed, n) \<Rightarrow>
      if mode \<noteq> ''shard'' \<and> n > SPARKS_PER_WARD then Some (2, w, held)
      else if \<not> e_fdb env then Some (1, w, held)
      else if mode = ''serve'' then serve api env fuel n seed (w, held)
      else map_option (\<lambda>(rc, w). (rc, w, held))
        (if mode = ''shard'' then shard api fuel cycles n seed w
         else if mode = ''check'' then check_replay api fuel cycles n seed w
         else play_once api fuel cycles n seed w))"

end
