(* ===== verification/Service_Theorems.thy ===== *)
theory Service_Theorems
  imports Service Client_Theorems
begin

text \<open>
  What the service promises: that it refuses before it touches anything, that opening and closing the transport leak
  nothing, that its timer is always armed, that its loop leaves nothing waiting and returns, and that whatever its
  sockets bring, the ward is moved by a run of the session.
\<close>

section \<open>The timer\<close>

lemma timer_delta_ge: "1000 \<le> timer_delta wake now"
  by (simp add: timer_delta_def Let_def)

text \<open>The timer of the protocol is always armed: its expiry is the distance to picoquic's wake time and never less
  than a millisecond, with a count of nanoseconds below a second. And when picoquic has nothing to wake for, which it
  says with the greatest time there is, the distance is taken for a negative one and the timer fires every
  millisecond.\<close>

theorem timer_is_always_armed:
  assumes "arm_timer wake now = (sec, nsec)"
  shows "sec * 1000000000 + nsec = 1000 * max 1000 (sint (wake - now)) \<and> 0 \<le> sec \<and> 0 \<le> nsec \<and> nsec < 1000000000
    \<and> (sec, nsec) \<noteq> (0, 0) \<and> (wake = - 1 \<and> uint now < 2 ^ 63 \<longrightarrow> (sec, nsec) = (0, 1000000))"
proof -
  let ?d = "timer_delta wake now"
  have d: "?d = max 1000 (sint (wake - now))" by (simp add: timer_delta_def Let_def max_def)
  have s: "sec = ?d div 1000000" "nsec = (?d mod 1000000) * 1000"
    using assms timer_delta_ge [of wake now] by (auto simp: arm_timer_def Let_def c_arith)
  have "?d div 1000000 * 1000000 + ?d mod 1000000 = ?d" by simp
  then have t: "sec * 1000000000 + nsec = 1000 * ?d" unfolding s by linarith
  moreover have "sec * 1000000000 + nsec \<noteq> 0" using t timer_delta_ge [of wake now] by linarith
  moreover have "0 \<le> sec" "0 \<le> nsec" "nsec < 1000000000" using s timer_delta_ge [of wake now] by (auto simp: pos_imp_zdiv_nonneg_iff)
  moreover have "(sec, nsec) = (0, 1000000)" if idle: "wake = - 1" "uint now < 2 ^ 63"
  proof -
    have "sint (- 1 - now) < 0"
    proof -
      have "- 1 - now = NOT now" by (simp add: not_eq_complement)
      moreover have "\<not> bit (uint now) 63"
        using idle(2) by (simp add: bit_iff_odd div_pos_pos_trivial del: bit_uint_iff)
      then have "\<not> bit now 63" by (simp add: bit_uint_iff)
      ultimately show ?thesis by (simp add: bit_last_iff [symmetric] bit_not_iff)
    qed
    then have "?d = 1000" using d idle(1) by simp
    then show ?thesis using s by simp
  qed
  ultimately show ?thesis using d by auto
qed

theorem timer_is_always_armed_witness: "arm_timer 2500000 0 = (2, 500000000) \<and> arm_timer (- 1) 5 = (0, 1000000)"
proof -
  obtain sec nsec where a: "arm_timer (- 1) 5 = (sec, nsec)" by fastforce
  obtain sec' nsec' where b: "arm_timer 2500000 0 = (sec', nsec')" by fastforce
  have "arm_timer 2500000 0 = (2, 500000000)" by code_simp
  then show ?thesis using timer_is_always_armed [OF a] timer_is_always_armed [OF b] a by simp
qed

section \<open>Opening and closing\<close>

text \<open>The loop of \<open>wt_close\<close> frees every answer that is still going out.\<close>

lemma release_seats_bufs:
  assumes "session_ok s"
  shows "wt_bufs (release_seats s) = wt_bufs s - pending (wt_s s)"
proof -
  let ?f = "\<lambda>i s. if st_in_use (wt_s s ! i) then stream_release i s else s"
  have len: "length (wt_s s) = WT_MAX_STREAMS" using assms by (simp add: session_ok_def)
  have idle: "st_reply (wt_s s ! i) = None" if "i < WT_MAX_STREAMS" "\<not> st_in_use (wt_s s ! i)" for i
  proof -
    have "seat_ok (wt_s s ! i)" using assms that(1) len by (simp add: session_ok_def)
    then show ?thesis using that(2) by (simp add: seat_ok_def free_seat_def)
  qed
  have "wt_bufs (fold ?f [0..<k] s) = wt_bufs s - pending (take k (wt_s s))
      \<and> (\<forall>i. k \<le> i \<longrightarrow> i < WT_MAX_STREAMS \<longrightarrow> wt_s (fold ?f [0..<k] s) ! i = wt_s s ! i)" if "k \<le> WT_MAX_STREAMS" for k
    using that
  proof (induction k)
    case (Suc k)
    then have "wt_s (fold ?f [0..<k] s) ! k = wt_s s ! k" by simp
    then show ?case using Suc idle [of k] len by (auto simp: take_Suc_conv_app_nth stream_release_def)
  qed simp
  from this [of WT_MAX_STREAMS] show ?thesis using len by (simp add: release_seats_def)
qed

text \<open>What opening took and what closing gives back.\<close>

lemma wt_open_closed:
  assumes "fst held \<inter> {R_Wt, R_Session, R_Addrinfo, R_Table, R_Params, R_Quic} = {}"
    and "R_Fd (sys Socket) \<notin> fst held" and "R_Fd (sys Timerfd_Create) \<notin> fst held" and "sys Socket \<noteq> sys Timerfd_Create"
  shows "case wt_open sys held of (None, held') \<Rightarrow> held' = held
    | (Some t, held') \<Rightarrow> wt_close t s held' = (fst held, snd held + wt_bufs (release_seats s))"
proof -
  have fresh: "R_Wt \<notin> fst held" "R_Session \<notin> fst held" "R_Addrinfo \<notin> fst held" "R_Table \<notin> fst held" "R_Params \<notin> fst held" "R_Quic \<notin> fst held"
    using assms(1) by auto
  have start: "wt_bufs (release_seats wt_session_start) = 0"
    using release_seats_bufs [OF start_ok] pending_start by (simp add: wt_session_start_def)
  show ?thesis
    using assms(2,3,4) fresh
    by (cases held) (simp add: wt_open_def udp_bind_def acquire_def give_back_def wt_close_def start Let_def insert_Diff_if split: prod.split)
qed

lemma session_released:
  assumes "wt_run (Some (ward_interactor api fuel)) evs wt_session_start x = Some (out, s, x')"
  shows "wt_bufs (release_seats s) = orphans (Some (ward_interactor api fuel)) evs wt_session_start x"
  using interactor.run_bufs [OF ward.interactor_axioms assms start_ok] pending_start
    release_seats_bufs [OF interactor.run_ok [OF ward.interactor_axioms assms start_ok]] by (simp add: wt_session_start_def)

text \<open>C21. The transport gives back what it took. On whichever call opening fails, the process holds what it held before. When it
  succeeds, then after any session, whatever came on whatever streams and whatever is still going out, closing gives back
  every resource and every reply buffer, but for those the session lost, one for each FIN that was answered on a stream
  whose first answer was still going out. The descriptors the system hands out are new and different ones.\<close>

theorem open_leaks_nothing:
  assumes "fst held \<inter> {R_Wt, R_Session, R_Addrinfo, R_Table, R_Params, R_Quic} = {}"
    and "R_Fd (sys Socket) \<notin> fst held" and "R_Fd (sys Timerfd_Create) \<notin> fst held" and "sys Socket \<noteq> sys Timerfd_Create"
    and "wt_run (Some (ward_interactor api fuel)) evs wt_session_start x = Some (out, s, x')"
  shows "case wt_open sys held of (None, held') \<Rightarrow> held' = held
    | (Some t, held') \<Rightarrow> wt_close t s held' = (fst held, snd held + orphans (Some (ward_interactor api fuel)) evs wt_session_start x)"
  using wt_open_closed [OF assms(1-4), of s] session_released [OF assms(5)] by (auto split: prod.splits option.splits)

text \<open>A session that is closed while its one answer is still going out.\<close>

theorem open_leaks_nothing_witness:
  "\<exists>t held s x. wt_open (\<lambda>c. if c = Socket then 3 else 4) ({}, 0) = (Some t, held)
     \<and> wt_run (Some (ward_interactor mem_engine 1)) [(0, 4, Post_Fin [108, 111, 111, 107] True)] wt_session_start (ex_gyre, ex_world)
       = Some ([(4, Mark_Active 0 4)], s, x)
     \<and> seats (wt_s s) 4 \<noteq> None \<and> wt_close t s held = ({}, 0)"
proof -
  let ?a = "Some (ward_interactor mem_engine 1)" and ?x = "(ex_gyre, ex_world)" and ?bs = "[108, 111, 111, 107] :: bytes"
  let ?evs = "[(0, 4, Post_Fin ?bs True)]" and ?sys = "\<lambda>c. if c = Socket then 3 else 4"
  have look: "printable ?bs = ''look''"
    using printable_append [of "[108]" "[111] @ [111, 107]"] printable_append [of "[111]" "[111, 107]"] by (simp add: printable_examples)
  obtain item v where i: "reply_item mem_engine True ''the ward as it stands'' ex_gyre ex_world = (item, v)" "writable item"
    "length (encode item) \<le> WT_REPLY_MAX" using ex_reply_fits by blast
  obtain stop where "ward_interactor mem_engine 1 ''look'' WT_REPLY_MAX False ?x = Some (encode item, stop, (ex_gyre, v))"
    using look_reply_splits obey_look i by (auto simp: ward_interactor_def ward_ask_reply)
  moreover have "encode item \<noteq> []"
  proof -
    obtain hon ys where "item = I_Map (text_item ''ok'' # I_Bool True # text_item ''say'' # text_item ''the ward as it stands''
        # text_item ''honest'' # I_Bool hon # ys)" using i(1) by (rule reply_item_shape)
    then show ?thesis by (simp add: head_bytes_def Let_def)
  qed
  ultimately have "map_option (\<lambda>(e, calls, w, x). (e, calls, seats (wt_s w), wt_stop w, x)) (wt_session_callback ?a 0 (Post_Fin ?bs True) (Some 4) wt_session_start ?x)
      = Some (0, [Mark_Active 0 4], [4 \<mapsto> (''look'', Some (encode item))], stop, (ex_gyre, v))"
    unfolding callback_refines [OF start_ok]
    by (simp add: spec_step_def seated_def seats_start look weft_ask_def stop_start c_string_def WT_MAX_STREAMS_def WT_LINE_MAX_def)
  then obtain w where w: "wt_session_callback ?a 0 (Post_Fin ?bs True) (Some 4) wt_session_start ?x = Some (0, [Mark_Active 0 4], w, (ex_gyre, v))"
    "seats (wt_s w) = [4 \<mapsto> (''look'', Some (encode item))]" by (auto split: prod.splits)
  then have r: "wt_run ?a ?evs wt_session_start ?x = Some ([(4, Mark_Active 0 4)], w, (ex_gyre, v))" by (simp add: w(1) [simplified])
  obtain t held where o: "wt_open ?sys ({}, 0) = (Some t, held)"
    by (simp add: wt_open_def udp_bind_def acquire_def give_back_def Let_def)
  have "orphans ?a ?evs wt_session_start ?x = 0" using w by (simp add: orphaned_def seats_start)
  then show ?thesis using open_leaks_nothing [where held = "({}, 0)" and sys = ?sys, OF _ _ _ _ r] r o w(2) by auto
qed

text \<open>Two clients, one stream number, and the answer to the first is never freed.\<close>

lemma second_answer_is_lost:
  assumes "\<And>command stop x. ask command WT_REPLY_MAX stop x = Some ([1], stop, x)" and "interactor ask"
  shows "orphans (Some ask) [(0, 4, Post_Fin [] True), (1, 4, Post_Fin [] True)] wt_session_start x = 1"
proof -
  let ?A = "Some ask"
  have "map_option (\<lambda>(e, calls, w, x). (e, calls, seats (wt_s w), wt_stop w, x)) (wt_session_callback ?A 0 (Post_Fin [] True) (Some 4) wt_session_start x)
      = Some (0, [Mark_Active 0 4], [4 \<mapsto> ([], Some [1])], wt_stop wt_session_start, x)"
    unfolding callback_refines [OF start_ok]
    by (simp add: spec_step_def seated_def seats_start printable_def weft_ask_def assms(1) WT_MAX_STREAMS_def)
  then obtain w where 1: "wt_session_callback ?A 0 (Post_Fin [] True) (Some 4) wt_session_start x = Some (0, [Mark_Active 0 4], w, x)"
    "seats (wt_s w) = [4 \<mapsto> ([], Some [1])]" by (auto split: prod.splits)
  have ok: "session_ok w" using interactor.callback_ok [OF assms(2) start_ok 1(1)] .
  have "map_option (\<lambda>(e, calls, w, x). (e, calls, seats (wt_s w), wt_stop w, x)) (wt_session_callback ?A 1 (Post_Fin [] True) (Some 4) w x)
      = Some (0, [Mark_Active 1 4], [4 \<mapsto> ([], Some [1])], wt_stop w, x)"
    unfolding callback_refines [OF ok]
    by (simp add: spec_step_def seated_def 1(2) printable_def weft_ask_def assms(1) WT_MAX_STREAMS_def)
  then obtain w' where 2: "wt_session_callback ?A 1 (Post_Fin [] True) (Some 4) w x = Some (0, [Mark_Active 1 4], w', x)"
    by (auto split: prod.splits)
  show ?thesis using 1(1) 2 by (simp add: orphaned_def seats_start 1(2))
qed

section \<open>The loop\<close>

text \<open>A picoquic that keeps notes: the datagrams it was handed, and what it answered each time it was asked for a packet.\<close>

definition watched :: "'q quic \<Rightarrow> ('q \<times> bytes list \<times> (int \<times> bytes) list) quic" where
  "watched Q =
     \<lparr>q_incoming = (\<lambda>p now (q, ins, outs). (q_incoming Q p now q, ins @ [p], outs)),
      q_prepare = (\<lambda>now (q, ins, outs). (q_prepare Q now q, ins, outs)),
      q_callback = (\<lambda>(q, ins, outs). let (ev, q) = q_callback Q q in (ev, (q, ins, outs))),
      q_answered = (\<lambda>e calls (q, ins, outs). (q_answered Q e calls q, ins, outs)),
      q_packet = (\<lambda>(q, ins, outs). let (r, q) = q_packet Q q in (r, (q, ins, outs @ [r]))),
      q_wake = (\<lambda>now (q, ins, outs). q_wake Q now q)\<rparr>"

text \<open>An answer with a packet in it; any other says that there is nothing to send.\<close>

definition full :: "int \<times> bytes \<Rightarrow> bool" where
  "full r \<longleftrightarrow> fst r = 0 \<and> snd r \<noteq> []"

definition sent_by :: "fd_call list \<Rightarrow> bytes list" where
  "sent_by calls = concat (map (\<lambda>c. case c of Sendto p \<Rightarrow> [p] | _ \<Rightarrow> []) calls)"

definition is_settime :: "fd_call \<Rightarrow> bool" where
  "is_settime c = (case c of Settime t \<Rightarrow> True | _ \<Rightarrow> False)"



lemma watched_simps [simp]:
  "q_incoming (watched Q) p now (q, ins, outs) = (q_incoming Q p now q, ins @ [p], outs)"
  "q_prepare (watched Q) now (q, ins, outs) = (q_prepare Q now q, ins, outs)"
  "q_callback (watched Q) (q, ins, outs) = (fst (q_callback Q q), (snd (q_callback Q q), ins, outs))"
  "q_answered (watched Q) e calls (q, ins, outs) = (q_answered Q e calls q, ins, outs)"
  "q_packet (watched Q) (q, ins, outs) = (fst (q_packet Q q), (snd (q_packet Q q), ins, outs @ [fst (q_packet Q q)]))"
  "q_wake (watched Q) now (q, ins, outs) = q_wake Q now q"
  by (simp_all add: watched_def split: prod.split)

lemma sent_by_simps [simp]:
  "sent_by [] = []" "sent_by (Sendto p # cs) = p # sent_by cs" "sent_by (Settime t # cs) = sent_by cs"
  "sent_by (Read_Timer # cs) = sent_by cs" "sent_by (as @ bs) = sent_by as @ sent_by bs" "sent_by (map Sendto ps) = ps"
  by (simp_all add: sent_by_def o_def)

lemma is_settime_simps [simp]: "is_settime (Settime t)" "\<not> is_settime (Sendto p)" "\<not> is_settime Read_Timer"
  by (simp_all add: is_settime_def)

lemma filter_sendto [simp]: "filter is_settime (map Sendto ps) = []" "filter ((=) Read_Timer) (map Sendto ps) = []"
  by (simp_all add: filter_map o_def)










lemma serve_loop_ConsE:
  assumes "serve_loop Q actor fuel t (r # rs) (q, s, x) = Some (st', calls)" and "\<not> wt_stop s"
  obtains q1 s1 x1 ca more where "ready_all Q actor fuel t r (fds_of t MAX_FDS) (q, s, x) = Some ((q1, s1, x1), ca)"
    "serve_loop Q actor fuel t rs (q1, s1, x1) = Some (st', more)" "calls = ca # more"
  using assms by (simp split: bind_splits prod.splits) (metis prod_cases3)






text \<open>A picoquic that hands each datagram to stream 4 and answers each with one packet.\<close>

definition ex_quic :: "((nat \<times> u64 option \<times> wt_event) list \<times> bytes list) quic" where
  "ex_quic = \<lparr>q_incoming = (\<lambda>p _ (evs, out). (evs @ [(0, Some 4, Post_Data p)], out @ [[1]])), q_prepare = (\<lambda>_ q. q),
     q_callback = (\<lambda>(evs, out). case evs of [] \<Rightarrow> (None, ([], out)) | e # evs \<Rightarrow> (Some e, (evs, out))), q_answered = (\<lambda>_ _ q. q),
     q_packet = (\<lambda>(evs, out). case out of [] \<Rightarrow> ((0, []), (evs, [])) | p # out \<Rightarrow> ((0, p), (evs, out))), q_wake = (\<lambda>_ _. 2500000)\<rparr>"



text \<open>With enough fuel the loop returns: when the interactor answers every command and picoquic settles, that is, every call
  back and every packet leaves it with less to say, by some measure, and a datagram gives it at most \<open>K\<close> more, then a fuel
  above what there is to say at the start and what the datagrams can add is enough.\<close>

definition settles :: "'q quic \<Rightarrow> ('q \<Rightarrow> nat) \<Rightarrow> nat \<Rightarrow> bool" where
  "settles Q rank K \<longleftrightarrow>
     (\<forall>q c q1 e calls. q_callback Q q = (Some c, q1) \<longrightarrow> rank (q_answered Q e calls q1) < rank q)
     \<and> (\<forall>q q1. q_callback Q q = (None, q1) \<longrightarrow> rank q1 \<le> rank q)
     \<and> (\<forall>q r q1. q_packet Q q = (r, q1) \<longrightarrow> (if full r then rank q1 < rank q else rank q1 \<le> rank q))
     \<and> (\<forall>now q. rank (q_prepare Q now q) \<le> rank q)
     \<and> (\<forall>p now q. rank (q_incoming Q p now q) \<le> rank q + K)"

definition answering :: "'x ask \<Rightarrow> bool" where
  "answering ask \<longleftrightarrow> (\<forall>command cap stop x. ask command cap stop x \<noteq> None)"

lemma callback_returns:
  assumes "answering ask"
  obtains r where "wt_session_callback (Some ask) cnx ev ctx w x = Some r"
proof -
  have some: "(weft_ask (Some ask) command cap stop x = None) = False" for command cap stop x using assms by (simp add: answering_def weft_ask_def)
  have "wt_session_callback (Some ask) cnx ev ctx w x \<noteq> None"
    by (auto simp add: some wt_session_callback_def on_post_def Let_def split: option.splits wt_event.splits prod.splits bind_splits)
  then show ?thesis using that by blast
qed

lemma call_back_returns:
  assumes "answering ask" and "settles Q rank K"
  shows "rank q < n \<Longrightarrow> \<exists>q' s' x'. call_back Q (Some ask) n (q, s, x) = Some (q', s', x') \<and> rank q' \<le> rank q"
proof (induction n arbitrary: q s x)
  case (Suc n)
  obtain c q1 where c: "q_callback Q q = (c, q1)" by fastforce
  show ?case
  proof (cases c)
    case None
    then show ?thesis using c assms(2) by (simp add: settles_def)
  next
    case (Some ev)
    obtain cnx ctx e where ev: "ev = (cnx, ctx, e)" by (metis prod_cases3)
    obtain r where "wt_session_callback (Some ask) cnx e ctx s x = Some r" using callback_returns [OF assms(1)] .
    then obtain k calls s1 x1 where r: "wt_session_callback (Some ask) cnx e ctx s x = Some (k, calls, s1, x1)" by (cases r) auto
    have less: "rank (q_answered Q k calls q1) < rank q" using assms(2) c Some unfolding settles_def by blast
    then have "rank (q_answered Q k calls q1) < n" using Suc.prems by simp
    from Suc.IH [OF this, of s1 x1] show ?thesis using c Some ev r less by auto
  qed
qed simp

lemma flush_loop_returns:
  assumes "answering ask" and "settles Q rank K"
  shows "rank q < n \<Longrightarrow> rank q < fuel \<Longrightarrow>
    \<exists>q' s' x' sent'. flush_loop Q (Some ask) fuel now n (q, s, x) sent = Some ((q', s', x'), sent') \<and> rank q' \<le> rank q"
proof (induction n arbitrary: q s x sent)
  case (Suc n)
  have p: "rank (q_prepare Q now q) \<le> rank q" using assms(2) by (simp add: settles_def)
  then obtain q1 s1 x1 where 1: "call_back Q (Some ask) fuel (q_prepare Q now q, s, x) = Some (q1, s1, x1)" "rank q1 \<le> rank q"
    using call_back_returns [OF assms, of "q_prepare Q now q" fuel s x] Suc.prems(2) by force
  obtain e pkt q2 where 2: "q_packet Q q1 = ((e, pkt), q2)" by (metis prod.collapse)
  then have less: "if full (e, pkt) then rank q2 < rank q1 else rank q2 \<le> rank q1" using assms(2) by (auto simp: settles_def)
  show ?case
  proof (cases "full (e, pkt)")
    case True
    then have "rank q2 < n" "rank q2 < fuel" using less 1(2) Suc.prems by simp_all
    from Suc.IH [OF this, of s1 x1 "sent @ [pkt]"] show ?thesis using 1 2 True less by (auto simp: full_def)
  next
    case False
    then show ?thesis using 1 2 less by (auto simp: full_def)
  qed
qed simp

lemma flush_returns:
  assumes "answering ask" and "settles Q rank K" and "rank q < fuel"
  obtains q' s' x' calls where "flush Q (Some ask) fuel now (q, s, x) = Some ((q', s', x'), calls)" "rank q' \<le> rank q"
  using flush_loop_returns [OF assms(1,2) assms(3,3), of now s x "[]"] that by (fastforce simp: flush_def)

lemma receive_all_returns:
  assumes "answering ask" and "settles Q rank K"
  shows "rank q + K * length ps < fuel \<Longrightarrow>
    \<exists>q' s' x'. receive_all Q (Some ask) fuel now ps (q, s, x) = Some (q', s', x') \<and> rank q' \<le> rank q + K * length ps"
proof (induction ps arbitrary: q s x)
  case (Cons p ps)
  have p: "rank (q_incoming Q p now q) \<le> rank q + K" using assms(2) by (simp add: settles_def)
  then obtain q1 s1 x1 where 1: "call_back Q (Some ask) fuel (q_incoming Q p now q, s, x) = Some (q1, s1, x1)" "rank q1 \<le> rank q + K"
    using call_back_returns [OF assms, of "q_incoming Q p now q" fuel s x] Cons.prems by force
  then show ?case using Cons.IH [of q1 s1 x1] Cons.prems by (cases "p = []") fastforce+
qed simp

lemma ready_returns:
  assumes "answering ask" and "settles Q rank K"
    and "rank q + (if fd = w_udp_fd t then K * length ps else 0) < fuel"
  obtains q' s' x' calls where "ready Q (Some ask) fuel t fd now ps (q, s, x) = Some ((q', s', x'), calls)"
    "rank q' \<le> rank q + (if fd = w_udp_fd t then K * length ps else 0)"
proof (cases "fd = w_udp_fd t")
  case True
  then obtain q1 s1 x1 where 1: "receive_all Q (Some ask) fuel now ps (q, s, x) = Some (q1, s1, x1)" "rank q1 \<le> rank q + K * length ps"
    using receive_all_returns [OF assms(1,2), of q ps fuel now s x] assms(3) by auto
  then have "rank q1 < fuel" using assms(3) True by simp
  with flush_returns [OF assms(1,2) this, of now s1 x1] obtain q' s' x' calls
    where "flush Q (Some ask) fuel now (q1, s1, x1) = Some ((q', s', x'), calls)" "rank q' \<le> rank q1" by metis
  then show ?thesis using that [of q' s' x' calls] 1 True by (simp add: ready_def wt_readable_def)
next
  case False
  then have "rank q < fuel" using assms(3) by simp
  with flush_returns [OF assms(1,2) this, of now s x] obtain q' s' x' calls
    where "flush Q (Some ask) fuel now (q, s, x) = Some ((q', s', x'), calls)" "rank q' \<le> rank q" by metis
  then show ?thesis using that False by (cases "fd = w_timer_fd t") (simp_all add: ready_def wt_tick_def)
qed

lemma serve_loop_returns:
  assumes "answering ask" and "settles Q rank K" and "w_udp_fd t \<noteq> w_timer_fd t"
  shows "rank q + K * (\<Sum>r\<leftarrow>rs. length (snd (snd r))) < fuel \<Longrightarrow> \<exists>r. serve_loop Q (Some ask) fuel t rs (q, s, x) = Some r"
proof (induction rs arbitrary: q s x)
  case (Cons r rs)
  obtain rev now ps where r: "r = (rev, now, ps)" by (metis prod_cases3)
  have fds: "fds_of t MAX_FDS = [w_udp_fd t, w_timer_fd t]" by (simp add: fds_of_def MAX_FDS_def)
  have room: "rank q + K * length ps + K * (\<Sum>r\<leftarrow>rs. length (snd (snd r))) < fuel" using Cons.prems by (simp add: r algebra_simps)
  have "\<exists>q1 s1 x1 c1. (if rev (w_udp_fd t) then ready Q (Some ask) fuel t (w_udp_fd t) now ps (q, s, x) else Some ((q, s, x), [])) = Some ((q1, s1, x1), c1)
      \<and> rank q1 \<le> rank q + K * length ps"
  proof (cases "rev (w_udp_fd t)")
    case True
    have "rank q + (if w_udp_fd t = w_udp_fd t then K * length ps else 0) < fuel" using room by simp
    then show ?thesis by (rule ready_returns [OF assms(1,2), of _ _ _ _ _ now s x]) (use True in auto)
  qed simp
  then obtain q1 s1 x1 c1 where 1: "(if rev (w_udp_fd t) then ready Q (Some ask) fuel t (w_udp_fd t) now ps (q, s, x) else Some ((q, s, x), [])) = Some ((q1, s1, x1), c1)"
    "rank q1 \<le> rank q + K * length ps" by blast
  have "\<exists>q2 s2 x2 c2. (if rev (w_timer_fd t) then ready Q (Some ask) fuel t (w_timer_fd t) now ps (q1, s1, x1) else Some ((q1, s1, x1), [])) = Some ((q2, s2, x2), c2)
      \<and> rank q2 \<le> rank q1"
  proof (cases "rev (w_timer_fd t)")
    case True
    have "rank q1 + (if w_timer_fd t = w_udp_fd t then K * length ps else 0) < fuel" using room 1(2) assms(3) by auto
    then show ?thesis by (rule ready_returns [OF assms(1,2), of _ _ _ _ _ now s1 x1]) (use True assms(3) in auto)
  qed simp
  then obtain q2 s2 x2 c2 where 2: "(if rev (w_timer_fd t) then ready Q (Some ask) fuel t (w_timer_fd t) now ps (q1, s1, x1) else Some ((q1, s1, x1), [])) = Some ((q2, s2, x2), c2)"
    "rank q2 \<le> rank q1" by blast
  have "rank q2 + K * (\<Sum>r\<leftarrow>rs. length (snd (snd r))) < fuel" using room 1(2) 2(2) by linarith
  from Cons.IH [OF this, of s2 x2] show ?case using 1(1) 2(1) by (auto simp: fds r)
qed auto

lemma ex_quic_settles: "settles ex_quic (\<lambda>(evs, out). length evs + length out) 2"
  by (auto simp: settles_def ex_quic_def full_def split: list.splits)

section \<open>What a service does to its ward\<close>

text \<open>A run of the session from one state to another.\<close>

definition runs :: "'x ask option \<Rightarrow> wt_session \<times> 'x \<Rightarrow> wt_session \<times> 'x \<Rightarrow> bool" where
  "runs actor st st' \<longleftrightarrow> (\<exists>evs out. wt_run actor evs (fst st) (snd st) = Some (out, fst st', snd st'))"

lemma runs_refl: "runs actor st st"
  by (auto simp: runs_def intro!: exI [of _ "[]"])

lemma wt_run_append:
  "wt_run actor (as @ bs) w x = do { (out, w, x) \<leftarrow> wt_run actor as w x; (out', w, x) \<leftarrow> wt_run actor bs w x; Some (out @ out', w, x) }"
proof (induction as arbitrary: w x)
  case Nil
  then show ?case by (cases "wt_run actor bs w x") auto
next
  case (Cons a as)
  obtain cnx sid e where a: "a = (cnx, sid, e)" by (metis prod_cases3)
  show ?case by (cases "wt_session_callback actor cnx e (Some sid) w x") (auto simp: a Cons.IH bind_assoc split: prod.splits bind_splits)
qed

lemma runs_trans: "runs actor a b \<Longrightarrow> runs actor b c \<Longrightarrow> runs actor a c"
proof -
  assume "runs actor a b" "runs actor b c"
  then obtain e1 o1 e2 o2 where "wt_run actor e1 (fst a) (snd a) = Some (o1, fst b, snd b)"
    "wt_run actor e2 (fst b) (snd b) = Some (o2, fst c, snd c)" by (auto simp: runs_def)
  then have "wt_run actor (e1 @ e2) (fst a) (snd a) = Some (o1 @ o2, fst c, snd c)" by (cases b; cases c) (simp add: wt_run_append)
  then show ?thesis unfolding runs_def by blast
qed

lemma callback_runs: "wt_session_callback actor cnx ev ctx w x = Some (e, calls, w', x') \<Longrightarrow> runs actor (w, x) (w', x')"
proof (cases ctx)
  case (Some sid)
  then show "wt_session_callback actor cnx ev ctx w x = Some (e, calls, w', x') \<Longrightarrow> ?thesis"
    by (auto simp: runs_def intro!: exI [of _ "[(cnx, sid, ev)]"])
qed (simp add: wt_session_callback_def runs_refl)

lemma call_back_runs: "call_back Q actor n (q, s, x) = Some (q', s', x') \<Longrightarrow> runs actor (s, x) (s', x')"
proof (induction n arbitrary: q s x)
  case (Suc n)
  show ?case
  proof (cases "q_callback Q q")
    case (Pair ev q1)
    show ?thesis
    proof (cases ev)
      case None
      then show ?thesis using Suc.prems Pair by (simp add: runs_refl)
    next
      case (Some c)
      obtain cnx ctx e where c: "c = (cnx, ctx, e)" by (metis prod_cases3)
      obtain r calls s1 x1 where 1: "wt_session_callback actor cnx e ctx s x = Some (r, calls, s1, x1)"
        "call_back Q actor n (q_answered Q r calls q1, s1, x1) = Some (q', s', x')"
        using Suc.prems Pair Some c by (auto split: bind_splits)
      show ?thesis using runs_trans [OF callback_runs [OF 1(1)] Suc.IH [OF 1(2)]] .
    qed
  qed
qed simp

lemma flush_loop_runs: "flush_loop Q actor fuel now n (q, s, x) sent = Some ((q', s', x'), sent') \<Longrightarrow> runs actor (s, x) (s', x')"
proof (induction n arbitrary: q s x sent)
  case (Suc n)
  obtain q1 s1 x1 where 1: "call_back Q actor fuel (q_prepare Q now q, s, x) = Some (q1, s1, x1)"
    using Suc.prems by (auto split: bind_splits)
  obtain e pkt q2 where 2: "q_packet Q q1 = ((e, pkt), q2)" by (metis prod.collapse)
  show ?case using call_back_runs [OF 1] Suc.prems 1 2 Suc.IH [of q2 s1 x1]
    by (auto split: if_splits intro: runs_trans)
qed simp

lemma flush_runs: "flush Q actor fuel now (q, s, x) = Some ((q', s', x'), r) \<Longrightarrow> runs actor (s, x) (s', x')"
  by (auto simp: flush_def split: bind_splits dest: flush_loop_runs)

lemma receive_all_runs: "receive_all Q actor fuel now ps (q, s, x) = Some (q', s', x') \<Longrightarrow> runs actor (s, x) (s', x')"
proof (induction ps arbitrary: q s x)
  case (Cons p ps)
  show ?case
  proof (cases "p = []")
    case False
    then obtain q1 s1 x1 where 1: "call_back Q actor fuel (q_incoming Q p now q, s, x) = Some (q1, s1, x1)"
      "receive_all Q actor fuel now ps (q1, s1, x1) = Some (q', s', x')"
      using Cons.prems by (auto split: bind_splits)
    show ?thesis by (rule runs_trans [OF call_back_runs [OF 1(1)] Cons.IH [OF 1(2)]])
  qed (use Cons.prems in \<open>simp add: runs_refl\<close>)
qed (simp add: runs_refl)

lemma ready_runs: "ready Q actor fuel w fd now ps (q, s, x) = Some ((q', s', x'), calls) \<Longrightarrow> runs actor (s, x) (s', x')"
  by (auto simp: ready_def wt_readable_def wt_tick_def runs_refl split: if_splits bind_splits
      dest!: receive_all_runs flush_runs intro: runs_trans)

lemma ready_all_runs: "ready_all Q actor fuel w r fds (q, s, x) = Some ((q', s', x'), calls) \<Longrightarrow> runs actor (s, x) (s', x')"
proof (induction fds arbitrary: q s x calls)
  case (Cons fd fds)
  obtain ev now ps where r: "r = (ev, now, ps)" by (metis prod_cases3)
  obtain q1 s1 x1 c1 c2 where 1: "(if ev fd then ready Q actor fuel w fd now ps (q, s, x) else Some ((q, s, x), [])) = Some ((q1, s1, x1), c1)"
    "ready_all Q actor fuel w r fds (q1, s1, x1) = Some ((q', s', x'), c2)"
    using Cons.prems by (auto simp: r split: bind_splits)
  have "runs actor (s, x) (s1, x1)" using 1(1) by (auto simp: runs_refl ready_runs split: if_splits)
  then show ?case using Cons.IH [OF 1(2)] by (rule runs_trans)
qed (simp add: runs_refl)

lemma serve_loop_runs: "serve_loop Q actor fuel w rs (q, s, x) = Some ((q', s', x'), calls) \<Longrightarrow> runs actor (s, x) (s', x')"
proof (induction rs arbitrary: q s x calls)
  case (Cons r rs)
  show ?case
  proof (cases "wt_stop s")
    case False
    obtain q1 s1 x1 ca more where 1: "ready_all Q actor fuel w r (fds_of w MAX_FDS) (q, s, x) = Some ((q1, s1, x1), ca)"
      "serve_loop Q actor fuel w rs (q1, s1, x1) = Some ((q', s', x'), more)" "calls = ca # more"
      using Cons.prems False by (rule serve_loop_ConsE)
    show ?thesis by (rule runs_trans [OF ready_all_runs [OF 1(1)] Cons.IH [OF 1(2)]])
  qed (use Cons.prems in \<open>simp add: runs_refl\<close>)
qed (simp add: runs_refl)

lemma orphans_nonneg: "0 \<le> orphans actor evs w x"
  by (induction actor evs w x rule: orphans.induct) (auto simp: orphaned_def split: option.splits wt_event.splits)

text \<open>Whatever its sockets bring, the service moves the ward by a run of the session, and when it returns it holds what it held
  before, but for the answers its session lost.\<close>

lemma serve_gives_back:
  assumes "serve api env fuel n seed (w, held) = Some (rc, w', held')"
    and "fst held \<inter> {R_Wt, R_Session, R_Addrinfo, R_Table, R_Params, R_Quic} = {}"
    and "R_Fd (e_sys env Socket) \<notin> fst held" and "R_Fd (e_sys env Timerfd_Create) \<notin> fst held"
    and "e_sys env Socket \<noteq> e_sys env Timerfd_Create"
  shows "fst held' = fst held \<and> snd held \<le> snd held'"
proof -
  have closed: "fst (wt_close t s h) = fst held \<and> snd held \<le> snd (wt_close t s h)"
    if o: "wt_open (e_sys env) held = (Some t, h)" and l: "serve_loop (e_quic env) (Some (ward_interactor api fuel)) fuel t (e_polls env)
      (e_start env, wt_session_start, x) = Some ((q, s, x'), calls)" for t h s x q x' calls
  proof -
    obtain evs out where r: "wt_run (Some (ward_interactor api fuel)) evs wt_session_start x = Some (out, s, x')"
      using serve_loop_runs [OF l] by (auto simp: runs_def)
    show ?thesis using wt_open_closed [OF assms(2-5), of s] session_released [OF r] o
        orphans_nonneg [of "Some (ward_interactor api fuel)" evs wt_session_start x] by simp
  qed
  show ?thesis
    using assms(1) wt_open_closed [OF assms(2-5)] closed unfolding serve_def
    by (fastforce split: if_splits bind_splits prod.splits option.splits)
qed

section \<open>Starting\<close>

text \<open>The program refuses before it touches anything: too few arguments, more Sparks than one ward may hold outside
  \<open>shard\<close>, no store to run on, or a service without its certificate or its key.\<close>

lemma refusals_touch_nothing:
  "length args < 2 \<Longrightarrow> queen_main api env fuel args (w, held) = Some (2, w, held)"
  "\<lbrakk>2 \<le> length args; main_args args = (mode, cycles, seed, n); mode \<noteq> ''shard''; n > SPARKS_PER_WARD\<rbrakk>
    \<Longrightarrow> queen_main api env fuel args (w, held) = Some (2, w, held)"
  "\<lbrakk>e_cert env = None \<or> e_key env = None\<rbrakk> \<Longrightarrow> serve api env fuel n seed (w, held) = Some (2, w, held)"
  by (auto simp: queen_main_def serve_def simp del: sparks_per_ward)

lemma play_cycles_live:
  "\<lbrakk>play_cycles api fuel k g w = Some (0, g', w'); live api g w\<rbrakk> \<Longrightarrow> live api g' w' \<and> g_cycle g' = g_cycle g + int k"
proof (induction k arbitrary: g w)
  case (Suc k)
  obtain g1 w1 w2 where 1: "cycle api fuel g w = Some (0, g1, w1)" "honest api g1 w1 = (0, w2)"
    "play_cycles api fuel k g1 w2 = Some (0, g', w')"
    using Suc.prems(1) by (auto split: bind_splits if_splits prod.splits)
  have "live api g1 w2" using live.checked [OF live.cycled [OF Suc.prems(2) 1(1)] 1(2)] .
  then show ?case using Suc.IH [OF 1(3)] cycle_counts [OF 1(1)] by simp
qed simp

lemma join_all_cycle: "join_all api g is w = Some (e, g', w') \<Longrightarrow> g_cycle g' = g_cycle g"
proof (induction "is" arbitrary: g w)
  case (Cons i "is")
  obtain e1 g1 w1 where "join_ward api g i w = Some (e1, g1, w1)" using Cons.prems by (auto split: bind_splits)
  then show ?case using Cons join_ward_cycle [of api g i w] by (auto split: if_splits)
qed simp

lemma play_live:
  assumes "play api fuel pre cycles n seed w = Some (0, g, w')" "length pre \<le> 63"
  shows "live api g w' \<and> g_cycle g = int (nat cycles)"
proof -
  obtain g0 w0 where 1: "found_ward api zero_gyre pre n seed 0 w = Some (0, g0, w0)"
    "play_cycles api fuel (nat cycles) g0 w0 = Some (0, g, w')"
    using assms(1) by (auto simp: play_def split: bind_splits if_splits)
  have f: "found_ward api zero_gyre pre n seed (0 * SPARKS_PER_WARD) w = Some (0, g0, w0)" using 1(1) by simp
  have l: "live api g0 w0" by (rule live.founded [OF f assms(2)]) simp_all
  have "g_cycle g0 = 0" using 1(1) unfolding found_ward_def by (elim do_elims) (auto dest!: join_all_cycle)
  then show ?thesis using play_cycles_live [OF 1(2) l] by simp
qed

text \<open>C16. A \<open>check\<close> that ends well has shown what it says: two wards were founded from one seed and played for the
  cycles asked, both are live ones, honest after every cycle, and their fingerprints are the same number.\<close>

theorem check_shows_replay:
  assumes "queen_main api env fuel args (w, held) = Some (0, w', held')"
    and "main_args args = (''check'', cycles, seed, n)" and "2 \<le> length args"
  shows "n \<le> SPARKS_PER_WARD \<and> held' = held
    \<and> (\<exists>a b wa wb w1. play api fuel ''gyre-a'' cycles n seed w = Some (0, a, wa) \<and> live api a wa
        \<and> play api fuel ''gyre-b'' cycles n seed w1 = Some (0, b, wb) \<and> live api b wb
        \<and> g_cycle a = int (nat cycles) \<and> g_cycle b = int (nat cycles)
        \<and> fst (fingerprint api a wa) = fst (fingerprint api b wb))"
proof -
  have c: "n \<le> SPARKS_PER_WARD" "held' = held" "check_replay api fuel cycles n seed w = Some (0, w')"
    using assms by (auto simp: queen_main_def simp del: sparks_per_ward split: if_splits option.splits)
  obtain a wa b wb fa w1 fb w2 where r: "play api fuel ''gyre-a'' cycles n seed w = Some (0, a, wa)"
    "fingerprint api a wa = (fa, w1)" "play api fuel ''gyre-b'' cycles n seed (close_ward api a w1) = Some (0, b, wb)"
    "fingerprint api b wb = (fb, w2)" "fa = fb"
    using c(3) by (auto simp: check_replay_def split: bind_splits if_splits prod.splits)
  show ?thesis
    using c(1,2) r(2,4,5) play_live [OF r(1)] play_live [OF r(3)]
    by (intro conjI exI [of _ a] exI [of _ b] exI [of _ wa] exI [of _ wb] exI [of _ "close_ward api a w1"] r(1,3)) simp_all
qed

definition ex_env :: "((nat \<times> u64 option \<times> wt_event) list \<times> bytes list) service_env" where
  "ex_env = \<lparr>e_cert = None, e_key = None, e_sys = (\<lambda>_. 0), e_quic = ex_quic, e_start = ([], []), e_polls = [], e_fdb = True\<rparr>"

theorem check_shows_replay_witness:
  "\<exists>w'. queen_main mem_engine ex_env 1 [''check'', ''0'', ''7'', ''0''] (mem_start, {}, 0) = Some (0, w', {}, 0)
     \<and> (\<exists>a wa. play mem_engine 1 ''gyre-a'' 0 0 7 mem_start = Some (0, a, wa) \<and> live mem_engine a wa)"
proof -
  have "map_option fst (check_replay mem_engine 1 0 0 7 mem_start) = Some 0"
    by (simp add: check_replay_def play_def fingerprint_def close_ward_def found_ward_def open_db_def mem_start_def create_table_def drop_table_def quoted_def engine_eval
      VENUE_PLACES_def nonphysical_place_def spark_home_def upt_rec Let_def word_le_nat_alt)
  then obtain w' where w: "check_replay mem_engine 1 0 0 7 mem_start = Some (0, w')" by auto
  have a: "main_args [''check'', ''0'', ''7'', ''0''] = (''check'', 0, 7, 0)" by code_simp
  have q: "queen_main mem_engine ex_env 1 [''check'', ''0'', ''7'', ''0''] (mem_start, {}, 0) = Some (0, w', {}, 0)"
    using w by (simp add: queen_main_def a ex_env_def)
  from check_shows_replay [OF q a] q show ?thesis by auto
qed

end
