(* ===== verification/Freeze.thy ===== *)
theory Freeze
  imports Ward
begin

text \<open>
  Freezing on settle, \<open>src/bench/freeze.c\<close>: the count of ticks a body has held still, the choice of the bodies that
  leave the simulation, their promotion to the world and the way back. MuJoCo is a parameter: its arithmetic is the
  record \<open>mju\<close> over an abstract number type, its model and its data are records of what the code reads, and its
  editing calls are values of \<open>edit\<close>, in the order they are made, with their outcomes from the record \<open>mj_lib\<close>. The
  checks of the arguments for null are left out, and \<open>last_ms\<close>, which nothing writes.
\<close>

section \<open>What is read of MuJoCo\<close>

record 'n mju =
  n_add :: "'n \<Rightarrow> 'n \<Rightarrow> 'n"
  n_mul :: "'n \<Rightarrow> 'n \<Rightarrow> 'n"
  n_less :: "'n \<Rightarrow> 'n \<Rightarrow> bool"
  mju_sqrt :: "'n \<Rightarrow> 'n"
  mju_rotVecQuat :: "'n list \<Rightarrow> 'n list \<Rightarrow> 'n list"
  mju_addTo3 :: "'n list \<Rightarrow> 'n list \<Rightarrow> 'n list"
  mju_sub3 :: "'n list \<Rightarrow> 'n list \<Rightarrow> 'n list"
  mju_mulQuat :: "'n list \<Rightarrow> 'n list \<Rightarrow> 'n list"
  mju_negQuat :: "'n list \<Rightarrow> 'n list"

datatype joint = MJ_Free | MJ_Ball | MJ_Slide | MJ_Hinge

record 'n geom =
  gm_name :: string
  gm_type :: int
  gm_size :: "'n list"
  gm_pos :: "'n list"
  gm_quat :: "'n list"
  gm_friction :: "'n list"
  gm_rgba :: "'n list"
  gm_condim :: int
  gm_contype :: int
  gm_conaffinity :: int

text \<open>A body has the joints it has; a body has a degree of freedom when \<open>bd_dofnum\<close> is positive.\<close>

record 'n body =
  bd_name :: string
  bd_joints :: "joint list"
  bd_dofnum :: int
  bd_geoms :: "'n geom list"

text \<open>Body 0 is the world.\<close>

type_synonym 'n mj_model = "'n body list"

text \<open>Per body: the spatial velocity, the pose, and the island of its first degree of freedom. \<open>dof_island\<close> may be
  missing altogether.\<close>

record 'n mj_data =
  dd_cvel :: "'n list list"
  dd_xpos :: "'n list list"
  dd_xquat :: "'n list list"
  dd_island :: "int list option"

section \<open>Stillness\<close>

record 'n freeze_cfg =
  still_speed :: 'n
  still_ticks :: int
  max_per_tick :: int

record freeze =
  still_for :: "int list"
  f_nbody :: nat
  frozen_total :: int
  recompiles :: int

definition weft_freeze_defaults :: "'n \<Rightarrow> 'n freeze_cfg" where
  "weft_freeze_defaults cm = \<lparr>still_speed = cm, still_ticks = 30, max_per_tick = 64\<rparr>"

definition weft_freeze_init :: "'n mj_model \<Rightarrow> freeze" where
  "weft_freeze_init m = \<lparr>still_for = replicate (length m) 0, f_nbody = length m, frozen_total = 0, recompiles = 0\<rparr>"

definition weft_freeze_close :: "freeze \<Rightarrow> freeze" where
  "weft_freeze_close f = f\<lparr>still_for := [], f_nbody := 0\<rparr>"

definition body_speed :: "'n mju \<Rightarrow> 'n mj_data \<Rightarrow> nat \<Rightarrow> 'n" where
  "body_speed U d b =
     (let v = drop 3 (dd_cvel d ! b) in
      mju_sqrt U (n_add U (n_add U (n_mul U (v ! 0) (v ! 0)) (n_mul U (v ! 1) (v ! 1))) (n_mul U (v ! 2) (v ! 2))))"

definition is_freezable :: "'n mj_model \<Rightarrow> string \<Rightarrow> nat \<Rightarrow> bool" where
  "is_freezable m keep_prefix b =
     (length (bd_joints (m ! b)) = 1 \<and> hd (bd_joints (m ! b)) = MJ_Free
      \<and> \<not> (keep_prefix \<noteq> [] \<and> take (length keep_prefix) (bd_name (m ! b)) = keep_prefix))"

definition slow :: "'n mju \<Rightarrow> 'n freeze_cfg \<Rightarrow> 'n mj_data \<Rightarrow> nat \<Rightarrow> bool" where
  "slow U cfg d b = n_less U (body_speed U d b) (still_speed cfg)"

text \<open>The loop that counts.\<close>

definition count_still :: "'n mju \<Rightarrow> 'n freeze_cfg \<Rightarrow> 'n mj_model \<Rightarrow> string \<Rightarrow> 'n mj_data \<Rightarrow> int list \<Rightarrow> int list" where
  "count_still U cfg m keep_prefix d ss =
     fold (\<lambda>b ss. if \<not> is_freezable m keep_prefix b then ss[b := 0]
                 else if slow U cfg d b then ss[b := ss ! b + 1] else ss[b := 0])
       [1..<length m] ss"

section \<open>Who leaves\<close>

text \<open>The island of a body, or -1 when it touches nothing.\<close>

definition island_of :: "'n mj_model \<Rightarrow> 'n mj_data \<Rightarrow> nat \<Rightarrow> int" where
  "island_of m d b =
     (case dd_island d of None \<Rightarrow> - 1 | Some islands \<Rightarrow> if bd_dofnum (m ! b) > 0 then islands ! b else - 1)"

definition shares_island :: "'n mj_model \<Rightarrow> 'n mj_data \<Rightarrow> int \<Rightarrow> nat \<Rightarrow> bool" where
  "shares_island m d iid b = (bd_dofnum (m ! b) > 0 \<and> island_of m d b = iid)"

definition whole_island_ready :: "'n freeze_cfg \<Rightarrow> 'n mj_model \<Rightarrow> string \<Rightarrow> 'n mj_data \<Rightarrow> int list \<Rightarrow> int \<Rightarrow> bool" where
  "whole_island_ready cfg m keep_prefix d ss iid =
     list_all (\<lambda>b. shares_island m d iid b \<longrightarrow> is_freezable m keep_prefix b \<and> still_ticks cfg \<le> ss ! b) [1..<length m]"

fun take_island :: "'n freeze_cfg \<Rightarrow> 'n mj_model \<Rightarrow> 'n mj_data \<Rightarrow> int \<Rightarrow> nat list \<Rightarrow> nat list \<Rightarrow> nat list" where
  "take_island cfg m d iid [] ripe = ripe"
| "take_island cfg m d iid (b # bs) ripe =
     (if int (length ripe) \<ge> max_per_tick cfg then ripe
      else if \<not> shares_island m d iid b \<or> b \<in> set ripe then take_island cfg m d iid bs ripe
      else take_island cfg m d iid bs (ripe @ [b]))"

fun ripen :: "'n freeze_cfg \<Rightarrow> 'n mj_model \<Rightarrow> string \<Rightarrow> 'n mj_data \<Rightarrow> int list \<Rightarrow> nat list \<Rightarrow> nat list \<Rightarrow> nat list" where
  "ripen cfg m keep_prefix d ss [] ripe = ripe"
| "ripen cfg m keep_prefix d ss (b # bs) ripe =
     (if int (length ripe) \<ge> max_per_tick cfg then ripe
      else if ss ! b < still_ticks cfg then ripen cfg m keep_prefix d ss bs ripe
      else let iid = island_of m d b in
        if iid < 0 then ripen cfg m keep_prefix d ss bs (ripe @ [b])
        else if \<not> whole_island_ready cfg m keep_prefix d ss iid then ripen cfg m keep_prefix d ss bs ripe
        else ripen cfg m keep_prefix d ss bs (take_island cfg m d iid [1..<length m] ripe))"

definition ripe_bodies :: "'n freeze_cfg \<Rightarrow> 'n mj_model \<Rightarrow> string \<Rightarrow> 'n mj_data \<Rightarrow> int list \<Rightarrow> nat list" where
  "ripe_bodies cfg m keep_prefix d ss = ripen cfg m keep_prefix d ss [1..<length m] []"

section \<open>Promoting\<close>

definition WEFT_FROZEN_SEP :: string where "WEFT_FROZEN_SEP = ''#''"

definition frozen_name :: "string \<Rightarrow> nat \<Rightarrow> string" where
  "frozen_name nm g = take 127 (nm @ WEFT_FROZEN_SEP @ dec (int g))"

datatype 'n edit =
    Promote "'n geom"
  | Delete_Body string
  | New_Body string "'n list" "'n list"
  | Attach "'n geom"
  | Delete_Geom string

text \<open>Which bodies and geoms the spec has, whether there is room for a geom or a body, what deleting answers, and
  what recompiling answers: its code and the model it makes.\<close>

record 'n mj_lib =
  l_find_body :: "string \<Rightarrow> bool"
  l_find_geom :: "string \<Rightarrow> bool"
  l_add :: bool
  l_delete :: "string \<Rightarrow> int"
  l_recompile :: "'n edit list \<Rightarrow> int \<times> 'n mj_model"
  l_calloc :: bool

definition promoted :: "'n mju \<Rightarrow> 'n list \<Rightarrow> 'n list \<Rightarrow> string \<Rightarrow> nat \<Rightarrow> 'n geom \<Rightarrow> 'n geom" where
  "promoted U bp bq nm g gm =
     gm\<lparr>gm_name := frozen_name nm g,
        gm_pos := mju_addTo3 U (mju_rotVecQuat U (gm_pos gm) bq) bp,
        gm_quat := mju_mulQuat U bq (gm_quat gm)\<rparr>"

definition promote_body :: "'n mju \<Rightarrow> 'n mj_lib \<Rightarrow> 'n mj_model \<Rightarrow> 'n mj_data \<Rightarrow> nat \<Rightarrow> int \<times> 'n edit list" where
  "promote_body U lib m d b =
     (let nm = bd_name (m ! b) in
      if \<not> l_find_body lib nm then (0, [])
      else (if l_delete lib nm = 0 then 1 else 0,
            (if l_add lib then map (\<lambda>g. Promote (promoted U (dd_xpos d ! b) (dd_xquat d ! b) nm g (bd_geoms (m ! b) ! g)))
               [0..<length (bd_geoms (m ! b))] else []) @ [Delete_Body nm]))"

fun promote_all :: "'n mju \<Rightarrow> 'n mj_lib \<Rightarrow> 'n mj_model \<Rightarrow> 'n mj_data \<Rightarrow> nat list \<Rightarrow> int \<times> 'n edit list" where
  "promote_all U lib m d [] = (0, [])"
| "promote_all U lib m d (b # bs) =
     (let (k, es) = promote_body U lib m d b; (n, es') = promote_all U lib m d bs in (k + n, es @ es'))"

text \<open>The counters start again when the model has changed size.\<close>

definition resized :: "'n mj_lib \<Rightarrow> 'n mj_model \<Rightarrow> freeze \<Rightarrow> freeze" where
  "resized lib m f =
     (if f_nbody f \<noteq> length m \<and> l_calloc lib
      then f\<lparr>still_for := replicate (length m) 0, f_nbody := length m\<rparr> else f)"

definition weft_freeze_tick :: "'n mju \<Rightarrow> 'n mj_lib \<Rightarrow> 'n freeze_cfg \<Rightarrow> string \<Rightarrow> 'n mj_data \<Rightarrow> freeze \<Rightarrow> 'n mj_model \<Rightarrow>
    int \<times> freeze \<times> 'n mj_model \<times> 'n edit list" where
  "weft_freeze_tick U lib cfg keep_prefix d f m =
     (if f_nbody f \<noteq> length m then (0, resized lib m f, m, [])
      else if \<not> l_calloc lib then (0, f, m, [])
      else let f = f\<lparr>still_for := count_still U cfg m keep_prefix d (still_for f)\<rparr>;
               ripe = ripe_bodies cfg m keep_prefix d (still_for f) in
      if ripe = [] \<or> \<not> l_find_body lib ''world'' then (0, f, m, [])
      else let (frozen, es) = promote_all U lib m d ripe in
      if frozen = 0 then (0, f, m, es)
      else let (e, m') = l_recompile lib es in
      if e \<noteq> 0 then (0, f, m', es)
      else (frozen, resized lib m' (f\<lparr>frozen_total := frozen_total f + frozen, recompiles := recompiles f + 1\<rparr>), m', es))"

section \<open>The way back\<close>

definition is_piece_of :: "string \<Rightarrow> string \<Rightarrow> bool" where
  "is_piece_of nm gn = (take (length nm) gn = nm \<and> take (length WEFT_FROZEN_SEP) (drop (length nm) gn) = WEFT_FROZEN_SEP)"

definition pieces_of :: "string \<Rightarrow> 'n mj_model \<Rightarrow> 'n geom list" where
  "pieces_of nm m = take 32 (filter (\<lambda>gm. is_piece_of nm (gm_name gm)) (concat (map bd_geoms m)))"

definition attached :: "'n mju \<Rightarrow> 'n list \<Rightarrow> 'n list \<Rightarrow> 'n geom \<Rightarrow> 'n geom" where
  "attached U bp bq gm =
     (let inv = mju_negQuat U bq in
      gm\<lparr>gm_name := [], gm_pos := mju_rotVecQuat U (mju_sub3 U (gm_pos gm) bp) inv, gm_quat := mju_mulQuat U inv (gm_quat gm)\<rparr>)"

definition weft_thaw :: "'n mju \<Rightarrow> 'n mj_lib \<Rightarrow> string \<Rightarrow> freeze \<Rightarrow> 'n mj_model \<Rightarrow> int \<times> freeze \<times> 'n mj_model \<times> 'n edit list" where
  "weft_thaw U lib nm f m =
     (let gs = pieces_of nm m; n = int (length gs) in
      if nm = [] \<or> gs = [] \<or> \<not> l_find_body lib ''world'' \<or> \<not> l_add lib then (0, f, m, [])
      else let bp = gm_pos (hd gs); bq = gm_quat (hd gs);
               es = New_Body nm bp bq # concat (map (\<lambda>gm. Attach (attached U bp bq gm) #
                 (if l_find_geom lib (gm_name gm) then [Delete_Geom (gm_name gm)] else [])) gs);
               (e, m') = l_recompile lib es in
      if e \<noteq> 0 then (0, f, m', es)
      else (n, f\<lparr>recompiles := recompiles f + 1, frozen_total := frozen_total f - n\<rparr>, m', es))"

text \<open>A tick after a close only starts the counters again, and changes no model.\<close>

lemma tick_after_close:
  "m \<noteq> [] \<Longrightarrow> l_calloc lib \<Longrightarrow> weft_freeze_tick U lib cfg p d (weft_freeze_close f) m =
     (0, f\<lparr>still_for := replicate (length m) 0, f_nbody := length m\<rparr>, m, [])"
  by (simp add: weft_freeze_tick_def weft_freeze_close_def resized_def)

section \<open>The counters\<close>

lemma count_still_shape:
  "length (count_still U cfg m p d ss) = length ss \<and>
   (b < length ss \<longrightarrow> count_still U cfg m p d ss ! b =
     (if 1 \<le> b \<and> b < length m then (if is_freezable m p b \<and> slow U cfg d b then ss ! b + 1 else 0) else ss ! b))"
proof -
  define step where "step = (\<lambda>b ss. if \<not> is_freezable m p b then ss[b := 0]
                 else if slow U cfg d b then ss[b := ss ! b + 1] else (ss :: int list)[b := 0])"
  have len: "length (fold step bs ss) = length ss" for bs ss
    by (induction bs arbitrary: ss) (simp_all add: step_def)
  have "distinct bs \<Longrightarrow> b < length ss \<Longrightarrow> fold step bs ss ! b =
      (if b \<in> set bs then (if is_freezable m p b \<and> slow U cfg d b then ss ! b + 1 else 0) else ss ! b)" for bs ss
  proof (induction bs arbitrary: ss)
    case (Cons c bs)
    have "length (step c ss) = length ss" by (simp add: step_def)
    then have "fold step bs (step c ss) ! b =
        (if b \<in> set bs then (if is_freezable m p b \<and> slow U cfg d b then step c ss ! b + 1 else 0) else step c ss ! b)"
      using Cons by simp
    moreover have "step c ss ! b = ss ! b" if "b \<noteq> c" using that by (simp add: step_def)
    moreover have "step b ss ! b = (if is_freezable m p b \<and> slow U cfg d b then ss ! b + 1 else 0)"
      using Cons.prems(2) by (simp add: step_def)
    ultimately show ?case using Cons.prems by (cases "b = c") simp_all
  qed simp
  then show ?thesis using len by (simp add: count_still_def step_def [symmetric])
qed

lemma count_still_length [simp]: "length (count_still U cfg m p d ss) = length ss"
  using count_still_shape by blast

lemma count_still_nth:
  "\<lbrakk>1 \<le> b; b < length m; length ss = length m\<rbrakk> \<Longrightarrow>
    count_still U cfg m p d ss ! b = (if is_freezable m p b \<and> slow U cfg d b then ss ! b + 1 else 0)"
  using count_still_shape [where b = b] by metis

text \<open>A history of ticks of one model, the last first: the counter is the number of ticks the body has held still.\<close>

fun counted :: "'n mju \<Rightarrow> 'n freeze_cfg \<Rightarrow> 'n mj_model \<Rightarrow> string \<Rightarrow> 'n mj_data list \<Rightarrow> int list" where
  "counted U cfg m p [] = replicate (length m) 0"
| "counted U cfg m p (d # ds) = count_still U cfg m p d (counted U cfg m p ds)"

lemma counted_length: "length (counted U cfg m p ds) = length m"
  by (induction ds) simp_all

lemma counted_run:
  assumes "1 \<le> b" "b < length m"
  shows "counted U cfg m p ds ! b = int (length (takeWhile (\<lambda>d. is_freezable m p b \<and> slow U cfg d b) ds))"
proof (induction ds)
  case Nil
  then show ?case using assms by simp
next
  case (Cons d ds)
  then show ?case using count_still_nth [OF assms counted_length] by simp
qed

section \<open>The ripe bodies\<close>

text \<open>The ripe bodies are different, within the cap, still and freezable, and whole islands unless the cap was met.\<close>

definition ripe_ok :: "'n freeze_cfg \<Rightarrow> 'n mj_model \<Rightarrow> string \<Rightarrow> 'n mj_data \<Rightarrow> int list \<Rightarrow> nat list \<Rightarrow> bool" where
  "ripe_ok cfg m p d ss ripe \<longleftrightarrow>
     distinct ripe \<and> (ripe \<noteq> [] \<longrightarrow> int (length ripe) \<le> max_per_tick cfg)
     \<and> (\<forall>b \<in> set ripe. 1 \<le> b \<and> b < length m \<and> still_ticks cfg \<le> ss ! b
          \<and> (0 \<le> island_of m d b \<longrightarrow> whole_island_ready cfg m p d ss (island_of m d b)))
     \<and> (int (length ripe) < max_per_tick cfg \<longrightarrow> (\<forall>b \<in> set ripe. 0 \<le> island_of m d b \<longrightarrow>
          (\<forall>c \<in> {1..<length m}. shares_island m d (island_of m d b) c \<longrightarrow> c \<in> set ripe)))"

lemma ripe_okD:
  assumes "ripe_ok cfg m p d ss ripe"
  shows "distinct ripe"
    and "b \<in> set ripe \<Longrightarrow> 1 \<le> b \<and> b < length m \<and> still_ticks cfg \<le> ss ! b"
    and "b \<in> set ripe \<Longrightarrow> 0 \<le> island_of m d b \<Longrightarrow> whole_island_ready cfg m p d ss (island_of m d b)"
    and "int (length ripe) < max_per_tick cfg \<Longrightarrow> b \<in> set ripe \<Longrightarrow> 0 \<le> island_of m d b \<Longrightarrow> c \<in> {1..<length m}
      \<Longrightarrow> shares_island m d (island_of m d b) c \<Longrightarrow> c \<in> set ripe"
  using assms unfolding ripe_ok_def by blast+

lemma island_shared: "0 \<le> island_of m d b \<Longrightarrow> shares_island m d (island_of m d b) b"
  by (auto simp: island_of_def shares_island_def split: option.splits if_splits)

lemma take_island_shape:
  "\<lbrakk>distinct ripe; int (length ripe) \<le> max_per_tick cfg; r = take_island cfg m d iid bs ripe\<rbrakk> \<Longrightarrow>
    distinct r \<and> int (length r) \<le> max_per_tick cfg \<and> set ripe \<subseteq> set r
    \<and> (\<forall>b \<in> set r. b \<in> set ripe \<or> b \<in> set bs \<and> shares_island m d iid b)
    \<and> (int (length r) < max_per_tick cfg \<longrightarrow> (\<forall>c \<in> set bs. shares_island m d iid c \<longrightarrow> c \<in> set r))"
proof (induction bs arbitrary: ripe)
  case (Cons b bs)
  consider (full) "int (length ripe) \<ge> max_per_tick cfg"
    | (skip) "int (length ripe) < max_per_tick cfg" "\<not> shares_island m d iid b \<or> b \<in> set ripe"
    | (take) "int (length ripe) < max_per_tick cfg" "shares_island m d iid b" "b \<notin> set ripe" by linarith
  then show ?case
  proof cases
    case full
    then show ?thesis using Cons.prems by simp
  next
    case skip
    then have r: "r = take_island cfg m d iid bs ripe" using Cons.prems(3) by auto
    note IH = Cons.IH [OF Cons.prems(1,2) r]
    have "b \<in> set r" if "shares_island m d iid b" using that skip(2) IH by blast
    then show ?thesis using IH by auto
  next
    case take
    then have r: "r = take_island cfg m d iid bs (ripe @ [b])" using Cons.prems(3) by auto
    have "distinct (ripe @ [b])" "int (length (ripe @ [b])) \<le> max_per_tick cfg" using Cons.prems(1) take by auto
    note IH = Cons.IH [OF this r]
    show ?thesis using IH take(2) by auto
  qed
qed simp

lemma ripen_ok:
  "\<lbrakk>ripe_ok cfg m p d ss ripe; \<forall>b \<in> set bs. 1 \<le> b \<and> b < length m; distinct bs;
    \<forall>b \<in> set bs. b \<in> set ripe \<longrightarrow> 0 \<le> island_of m d b\<rbrakk>
    \<Longrightarrow> ripe_ok cfg m p d ss (ripen cfg m p d ss bs ripe)"
proof (induction bs arbitrary: ripe)
  case (Cons b bs)
  let ?iid = "island_of m d b"
  have b: "1 \<le> b" "b < length m" using Cons.prems(2) by simp_all
  consider (full) "int (length ripe) \<ge> max_per_tick cfg"
    | (moving) "int (length ripe) < max_per_tick cfg" "ss ! b < still_ticks cfg"
    | (alone) "int (length ripe) < max_per_tick cfg" "still_ticks cfg \<le> ss ! b" "?iid < 0"
    | (stuck) "int (length ripe) < max_per_tick cfg" "still_ticks cfg \<le> ss ! b" "0 \<le> ?iid" "\<not> whole_island_ready cfg m p d ss ?iid"
    | (island) "int (length ripe) < max_per_tick cfg" "still_ticks cfg \<le> ss ! b" "0 \<le> ?iid" "whole_island_ready cfg m p d ss ?iid"
    by linarith
  then show ?case
  proof cases
    case full
    then show ?thesis using Cons.prems(1) by simp
  next
    case moving
    then show ?thesis using Cons by simp
  next
    case alone
    have new: "b \<notin> set ripe" using Cons.prems(4) alone(3) by auto
    have "ripe_ok cfg m p d ss (ripe @ [b])"
      unfolding ripe_ok_def
    proof (intro conjI ballI impI)
      fix c assume "c \<in> set (ripe @ [b])"
      then have c: "c \<in> set ripe \<or> c = b" by auto
      show "1 \<le> c" "c < length m" "still_ticks cfg \<le> ss ! c"
        using c ripe_okD(2) [OF Cons.prems(1), of c] b alone(2) by auto
      show "whole_island_ready cfg m p d ss (island_of m d c)" if "0 \<le> island_of m d c"
        using c ripe_okD(3) [OF Cons.prems(1), of c] alone(3) that by auto
    next
      fix c e assume c: "c \<in> set (ripe @ [b])" "0 \<le> island_of m d c"
        and e: "e \<in> {1..<length m}" "shares_island m d (island_of m d c) e"
      have "c \<in> set ripe" using c alone(3) by auto
      then show "e \<in> set (ripe @ [b])" using ripe_okD(4) [OF Cons.prems(1) alone(1) _ c(2) e] by simp
    qed (use ripe_okD(1) [OF Cons.prems(1)] new alone(1) in simp_all)
    moreover have "\<forall>c \<in> set bs. c \<in> set (ripe @ [b]) \<longrightarrow> 0 \<le> island_of m d c" using Cons.prems(3,4) by auto
    ultimately show ?thesis using Cons alone by simp
  next
    case stuck
    then show ?thesis using Cons by simp
  next
    case island
    let ?r = "take_island cfg m d ?iid [1..<length m] ripe"
    have shape: "distinct ?r" "int (length ?r) \<le> max_per_tick cfg" "set ripe \<subseteq> set ?r"
      "\<And>c. c \<in> set ?r \<Longrightarrow> c \<in> set ripe \<or> c \<in> set [1..<length m] \<and> shares_island m d ?iid c"
      "\<And>c. int (length ?r) < max_per_tick cfg \<Longrightarrow> c \<in> set [1..<length m] \<Longrightarrow> shares_island m d ?iid c \<Longrightarrow> c \<in> set ?r"
      using take_island_shape [OF ripe_okD(1) [OF Cons.prems(1)] less_imp_le [OF island(1)] refl, of m d ?iid "[1..<length m]"]
      by blast+
    have mem: "island_of m d c = ?iid \<and> still_ticks cfg \<le> ss ! c" if "c \<in> set [1..<length m]" "shares_island m d ?iid c" for c
      using island(4) that by (auto simp: whole_island_ready_def list_all_iff shares_island_def)
    have "ripe_ok cfg m p d ss ?r"
      unfolding ripe_ok_def
    proof (intro conjI ballI impI)
      fix c assume c: "c \<in> set ?r"
      show "1 \<le> c" "c < length m" "still_ticks cfg \<le> ss ! c"
        using shape(4) [OF c] mem [of c] ripe_okD(2) [OF Cons.prems(1), of c] by auto
      show "whole_island_ready cfg m p d ss (island_of m d c)" if "0 \<le> island_of m d c"
        using shape(4) [OF c] mem [of c] island(4) ripe_okD(3) [OF Cons.prems(1), of c] that by auto
    next
      fix c e assume lt: "int (length ?r) < max_per_tick cfg" and c: "c \<in> set ?r" "0 \<le> island_of m d c"
        and e: "e \<in> {1..<length m}" "shares_island m d (island_of m d c) e"
      from shape(4) [OF c(1)] show "e \<in> set ?r"
      proof
        assume "c \<in> set ripe"
        then show ?thesis using ripe_okD(4) [OF Cons.prems(1) island(1) _ c(2) e] shape(3) by blast
      next
        assume "c \<in> set [1..<length m] \<and> shares_island m d ?iid c"
        then show ?thesis using shape(5) [OF lt, of e] mem [of c] e by auto
      qed
    qed (use shape in auto)
    moreover have "\<forall>c \<in> set bs. c \<in> set ?r \<longrightarrow> 0 \<le> island_of m d c"
      using shape(4) mem island(3) Cons.prems(4) by fastforce
    ultimately show ?thesis using Cons island by simp
  qed
qed simp

lemma ripe_bodies_ok: "ripe_ok cfg m p d ss (ripe_bodies cfg m p d ss)"
  unfolding ripe_bodies_def by (rule ripen_ok) (simp_all add: ripe_ok_def)

end
