(* ===== verification/Freeze_Theorems.thy ===== *)
theory Freeze_Theorems
  imports Freeze Ward_Cycle
begin

text \<open>
  What freezing promises: only bodies that have held still long enough leave the simulation, whole islands of them
  while the cap of a tick is not met, and the pieces they leave are found again by their name and by no other.
\<close>

section \<open>A scene to run the examples on\<close>

text \<open>Arithmetic on whole numbers; a world and two cubes that touch, one of two geoms.\<close>

definition ex_mju :: "int mju" where
  "ex_mju = \<lparr>n_add = (+), n_mul = (*), n_less = (<), mju_sqrt = (\<lambda>x. x), mju_rotVecQuat = (\<lambda>v q. v), mju_addTo3 = (\<lambda>v w. v),
     mju_sub3 = (\<lambda>v w. v), mju_mulQuat = (\<lambda>p q. q), mju_negQuat = (\<lambda>q. q)\<rparr>"

definition ex_geom :: "int geom" where
  "ex_geom = \<lparr>gm_name = [], gm_type = 6, gm_size = [1, 1, 1], gm_pos = [0, 0, 0], gm_quat = [1, 0, 0, 0], gm_friction = [1, 0, 0],
     gm_rgba = [1, 1, 1, 1], gm_condim = 3, gm_contype = 1, gm_conaffinity = 1\<rparr>"

definition ex_model :: "int mj_model" where
  "ex_model = [\<lparr>bd_name = ''world'', bd_joints = [], bd_dofnum = 0, bd_geoms = []\<rparr>,
     \<lparr>bd_name = ''a'', bd_joints = [MJ_Free], bd_dofnum = 6, bd_geoms = [ex_geom, ex_geom]\<rparr>,
     \<lparr>bd_name = ''b'', bd_joints = [MJ_Free], bd_dofnum = 6, bd_geoms = [ex_geom]\<rparr>]"

definition ex_data :: "int mj_data" where
  "ex_data = \<lparr>dd_cvel = replicate 3 (replicate 6 0), dd_xpos = replicate 3 [0, 0, 0], dd_xquat = replicate 3 [1, 0, 0, 0],
     dd_island = Some [0, 0, 0]\<rparr>"

definition ex_cfg :: "int \<Rightarrow> int freeze_cfg" where
  "ex_cfg most = \<lparr>still_speed = 1, still_ticks = 2, max_per_tick = most\<rparr>"

definition ex_lib :: "int mj_lib" where
  "ex_lib = \<lparr>l_find_body = (\<lambda>_. True), l_find_geom = (\<lambda>_. True), l_add = True, l_delete = (\<lambda>_. 0),
     l_recompile = (\<lambda>es. (0, [\<lparr>bd_name = ''world'', bd_joints = [], bd_dofnum = 0,
       bd_geoms = concat (map (\<lambda>e. case e of Promote gm \<Rightarrow> [gm] | _ \<Rightarrow> []) es)\<rparr>])), l_calloc = True\<rparr>"

definition ex_freeze :: freeze where
  "ex_freeze = \<lparr>still_for = [0, 1, 1], f_nbody = 3, frozen_total = 0, recompiles = 0\<rparr>"

lemmas freeze_eval = weft_freeze_tick_def count_still_def ripe_bodies_def is_freezable_def slow_def body_speed_def
  island_of_def shares_island_def whole_island_ready_def promote_body_def promoted_def frozen_name_def WEFT_FROZEN_SEP_def
  resized_def ex_mju_def ex_geom_def ex_model_def ex_data_def ex_cfg_def ex_lib_def ex_freeze_def

section \<open>Freezing\<close>

lemma promote_all_deletes:
  "promote_all U lib m d bs = (k, es) \<Longrightarrow> Delete_Body nm \<in> set es \<Longrightarrow> \<exists>b \<in> set bs. nm = bd_name (m ! b)"
proof (induction bs arbitrary: k es)
  case (Cons b bs)
  obtain k1 e1 where 1: "promote_body U lib m d b = (k1, e1)" by fastforce
  obtain k2 e2 where 2: "promote_all U lib m d bs = (k2, e2)" by fastforce
  have "es = e1 @ e2" using Cons.prems(1) 1 2 by simp
  then consider "Delete_Body nm \<in> set e1" | "Delete_Body nm \<in> set e2" using Cons.prems(2) by auto
  then show ?case
  proof cases
    case 1
    then have "nm = bd_name (m ! b)"
      using \<open>promote_body U lib m d b = (k1, e1)\<close> by (auto simp: promote_body_def Let_def split: if_splits)
    then show ?thesis by simp
  next
    case 2
    then show ?thesis using Cons.IH [OF \<open>promote_all U lib m d bs = (k2, e2)\<close>] by auto
  qed
qed simp

text \<open>C22. Only what has settled is frozen: when the counters are those of a history of ticks of this model, a body that a
  tick deletes is a free-floating one without the kept prefix, and in this tick and in those before it, as many as the
  configuration asks for, it was slower than the threshold.\<close>

theorem tick_freezes_the_settled:
  assumes "weft_freeze_tick U lib cfg p d f m = (k, f', m', es)" and "Delete_Body nm \<in> set es"
    and "still_for f = counted U cfg m p ds" and "1 \<le> still_ticks cfg"
  shows "\<exists>b. nm = bd_name (m ! b) \<and> 1 \<le> b \<and> b < length m \<and> is_freezable m p b \<and> nat (still_ticks cfg) \<le> length (d # ds)
    \<and> (\<forall>e \<in> set (take (nat (still_ticks cfg)) (d # ds)). slow U cfg e b)"
proof -
  let ?ss = "counted U cfg m p (d # ds)" let ?n = "nat (still_ticks cfg)"
  obtain k1 where "promote_all U lib m d (ripe_bodies cfg m p d ?ss) = (k1, es)"
    using assms(1-3) by (auto simp: weft_freeze_tick_def Let_def split: if_splits prod.splits)
  from promote_all_deletes [OF this assms(2)] obtain b where b: "b \<in> set (ripe_bodies cfg m p d ?ss)" "nm = bd_name (m ! b)"
    by blast
  note r = ripe_okD(2) [OF ripe_bodies_ok b(1)]
  let ?P = "\<lambda>e. is_freezable m p b \<and> slow U cfg e b"
  have c: "?ss ! b = int (length (takeWhile ?P (d # ds)))" by (rule counted_run) (use r in auto)
  have n: "?n \<le> length (takeWhile ?P (d # ds))" using r unfolding c by (simp only: nat_le_iff)
  have n1: "1 \<le> ?n" using assms(4) by simp
  have len: "?n \<le> length (d # ds)" using n length_takeWhile_le le_trans by blast
  have P: "?P e" if "e \<in> set (take ?n (d # ds))" for e
  proof -
    have "take ?n (d # ds) = take ?n (takeWhile ?P (d # ds))"
      using n by (metis append_eq_conv_conj le_iff_add takeWhile_dropWhile_id take_add take_append take_all_iff diff_is_0_eq take0 append_Nil2)
    then show ?thesis using that by (metis in_set_takeD set_takeWhileD)
  qed
  have "is_freezable m p b" using P [of d] n1 by (cases ?n) auto
  then show ?thesis using b(2) r len P by blast
qed

theorem tick_freezes_the_settled_witness:
  "\<exists>k f' m' es. weft_freeze_tick ex_mju ex_lib (ex_cfg 64) [] ex_data ex_freeze ex_model = (k, f', m', es)
     \<and> Delete_Body ''a'' \<in> set es \<and> k = 2 \<and> (\<exists>b. ''a'' = bd_name (ex_model ! b) \<and> is_freezable ex_model [] b)"
proof -
  obtain k f' m' es where t: "weft_freeze_tick ex_mju ex_lib (ex_cfg 64) [] ex_data ex_freeze ex_model = (k, f', m', es)"
    by (metis prod_cases4)
  have "(case weft_freeze_tick ex_mju ex_lib (ex_cfg 64) [] ex_data ex_freeze ex_model of (k, f', m', es) \<Rightarrow>
      k = 2 \<and> list_ex (\<lambda>e. e = Delete_Body ''a'') es)" by code_simp
  then have d: "k = 2" "Delete_Body ''a'' \<in> set es" using t by (auto simp: list_ex_iff)
  have s: "still_for ex_freeze = counted ex_mju (ex_cfg 64) ex_model [] [ex_data]" by code_simp
  have "1 \<le> still_ticks (ex_cfg 64)" by (simp add: ex_cfg_def)
  from tick_freezes_the_settled [OF t d(2) s this] t d show ?thesis by blast
qed

text \<open>C23. Freezing takes whole islands: the bodies a tick chooses are different, at most as many as its cap, each is still
  and all it touches is still, and when the cap was not met, every body of the island of one of them is chosen with
  it.\<close>

theorem freeze_takes_whole_islands:
  "distinct (ripe_bodies cfg m p d ss)
   \<and> (ripe_bodies cfg m p d ss \<noteq> [] \<longrightarrow> int (length (ripe_bodies cfg m p d ss)) \<le> max_per_tick cfg)
   \<and> (\<forall>b \<in> set (ripe_bodies cfg m p d ss). still_ticks cfg \<le> ss ! b
        \<and> (0 \<le> island_of m d b \<longrightarrow> whole_island_ready cfg m p d ss (island_of m d b)))
   \<and> (int (length (ripe_bodies cfg m p d ss)) < max_per_tick cfg \<longrightarrow>
        (\<forall>b \<in> set (ripe_bodies cfg m p d ss). 0 \<le> island_of m d b \<longrightarrow>
          (\<forall>c \<in> {1..<length m}. shares_island m d (island_of m d b) c \<longrightarrow> c \<in> set (ripe_bodies cfg m p d ss))))"
  using ripe_bodies_ok [of cfg m p d ss] unfolding ripe_ok_def by blast

theorem freeze_takes_whole_islands_witness:
  "ripe_bodies (ex_cfg 64) ex_model [] ex_data [0, 2, 2] = [1, 2] \<and> distinct (ripe_bodies (ex_cfg 64) ex_model [] ex_data [0, 2, 2])"
proof -
  have "ripe_bodies (ex_cfg 64) ex_model [] ex_data [0, 2, 2] = [1, 2]" by code_simp
  then show ?thesis using freeze_takes_whole_islands [of "ex_cfg 64" ex_model "[]" ex_data "[0, 2, 2]"] by blast
qed

text \<open>With the cap in the way half an island is frozen: of two cubes that touch, only the first.\<close>

lemma cap_splits_an_island:
  "ripe_bodies (ex_cfg 1) ex_model [] ex_data [0, 2, 2] = [1]
   \<and> island_of ex_model ex_data 1 = 0 \<and> shares_island ex_model ex_data 0 2"
  by code_simp

section \<open>The way back\<close>

lemma piece_cut:
  assumes "CHR ''#'' \<notin> set as" "CHR ''#'' \<notin> set bs" "as @ ''#'' @ cs = bs @ ''#'' @ ds"
  shows "as = bs \<and> cs = ds"
  using assms
proof (induction as arbitrary: bs)
  case Nil
  then show ?case by (cases bs) auto
next
  case (Cons a as)
  then show ?case by (cases bs) auto
qed

text \<open>C35. A frozen thing is found again by its own name: while names have no \<open>#\<close> and fit, the pieces of a thing are the
  ones a thaw of that name picks, those of another are not, and no two pieces of one thing have one name.\<close>

theorem thaw_finds_its_own_pieces:
  assumes "CHR ''#'' \<notin> set nm" and "CHR ''#'' \<notin> set nm'" and "length (nm @ WEFT_FROZEN_SEP @ dec (int i)) \<le> 127"
    and "length (nm @ WEFT_FROZEN_SEP @ dec (int j)) \<le> 127"
  shows "(is_piece_of nm' (frozen_name nm i) \<longleftrightarrow> nm' = nm) \<and> (frozen_name nm i = frozen_name nm j \<longleftrightarrow> i = j)"
proof -
  have f: "frozen_name nm i = nm @ ''#'' @ dec (int i)" "frozen_name nm j = nm @ ''#'' @ dec (int j)"
    using assms(3,4) by (simp_all add: frozen_name_def WEFT_FROZEN_SEP_def)
  have "nm' = nm" if p: "is_piece_of nm' (frozen_name nm i)"
  proof -
    have "frozen_name nm i = nm' @ ''#'' @ drop 1 (drop (length nm') (frozen_name nm i))"
      using p unfolding is_piece_of_def WEFT_FROZEN_SEP_def
      by (metis append_take_drop_id length_Cons list.size(3) One_nat_def)
    then show ?thesis using piece_cut [OF assms(1,2)] f(1) by metis
  qed
  moreover have "is_piece_of nm (frozen_name nm i)" by (simp add: f is_piece_of_def WEFT_FROZEN_SEP_def)
  ultimately show ?thesis using f by (auto dest: dec_inj)
qed

theorem thaw_finds_its_own_pieces_witness:
  "is_piece_of ''crate7'' (frozen_name ''crate7'' 1) \<and> \<not> is_piece_of ''crate'' (frozen_name ''crate7'' 1)"
  using thaw_finds_its_own_pieces [of "''crate7''" "''crate7''" 1 0] thaw_finds_its_own_pieces [of "''crate7''" "''crate''" 1 0]
  by (simp add: WEFT_FROZEN_SEP_def dec_def dec_of.simps)

text \<open>Where names have a \<open>#\<close> they are not: a thaw of \<open>a\<close> takes the pieces of \<open>a#b\<close>.\<close>

lemma thaw_takes_anothers_pieces: "is_piece_of ''a'' (frozen_name ''a#b'' 0)"
  by code_simp

text \<open>The count of all that was frozen adds bodies and takes geoms away: a thing of two geoms, frozen and thawed, leaves
  it at minus one.\<close>

lemma frozen_total_drifts:
  "case weft_freeze_tick ex_mju ex_lib (ex_cfg 1) [] ex_data ex_freeze ex_model of (k, f, m, es) \<Rightarrow>
     k = 1 \<and> frozen_total f = 1
     \<and> (case weft_thaw ex_mju ex_lib ''a'' f m of (n, f, _) \<Rightarrow> n = 2 \<and> frozen_total f = - 1)"
  by code_simp

end
