(* ===== verification/Scene.thy ===== *)
theory Scene
  imports Ward
begin

text \<open>
  The scene generator, \<open>src/bench/scene.c\<close>: MJCF text written into one buffer, a floor, a field of cubes in one of three
  shapes, and three bodies for each player. A double is a value of an abstract type with the operations of \<open>dbl\<close>, and
  what \<open>printf\<close> writes for it is \<open>d_g\<close>. A C \<open>int\<close> is an \<open>int\<close>.
\<close>

section \<open>The buffer\<close>

text \<open>\<open>n\<close> is the length of what has been written; the buffer has room for it and a NUL.\<close>

record out =
  o_text :: string
  o_cap :: int
  o_over :: bool

definition say :: "out \<Rightarrow> string \<Rightarrow> out" where
  "say out s =
     (if o_over out then out
      else if int (length s) \<ge> o_cap out - int (length (o_text out)) then out\<lparr>o_over := True\<rparr>
      else out\<lparr>o_text := o_text out @ s\<rparr>)"

section \<open>Doubles\<close>

record 'd dbl =
  d_int :: "int \<Rightarrow> 'd"
  d_lit :: "int \<Rightarrow> int \<Rightarrow> 'd"
  d_add :: "'d \<Rightarrow> 'd \<Rightarrow> 'd"
  d_sub :: "'d \<Rightarrow> 'd \<Rightarrow> 'd"
  d_mul :: "'d \<Rightarrow> 'd \<Rightarrow> 'd"
  d_sin :: "'d \<Rightarrow> 'd"
  d_cos :: "'d \<Rightarrow> 'd"
  d_fabs :: "'d \<Rightarrow> 'd"
  d_less :: "'d \<Rightarrow> 'd \<Rightarrow> bool"
  d_nonpos :: "'d \<Rightarrow> bool"
  d_g :: "'d \<Rightarrow> string"

definition AVATAR_ENTITIES :: int where "AVATAR_ENTITIES = 3"

text \<open>\<open>d_lit m e\<close> is the literal with mantissa \<open>m\<close> and \<open>e\<close> digits after the point.\<close>

definition CUBE_METRES :: "'d dbl \<Rightarrow> 'd" where "CUBE_METRES D = d_lit D 4 1"

section \<open>Where the cubes stand\<close>

definition per_group :: "int \<Rightarrow> int \<Rightarrow> int" where
  "per_group stack pile =
     (if pile > 1 then pile * (pile + 1) * (2 * pile + 1) sdiv 6 else if stack > 1 then stack else 1)"

definition tower_count :: "int \<Rightarrow> int \<Rightarrow> int" where
  "tower_count cubes n = (let towers = (cubes + n - 1) sdiv n in if towers < 1 then 1 else towers)"

text \<open>\<open>while (side * side < towers) side++\<close>.\<close>

lemma square_step: "side * side < towers \<Longrightarrow> side < towers" for side :: int
proof -
  assume s: "side * side < towers"
  have "side \<le> side * side" by (cases "side \<le> 0") (auto simp: mult_le_cancel_left1 intro: order.trans [of _ 0])
  then show ?thesis using s by linarith
qed

function grow_side :: "int \<Rightarrow> int \<Rightarrow> int" where
  "grow_side towers side = (if side * side < towers then grow_side towers (side + 1) else side)"
  by pat_completeness auto
termination
  by (relation "measure (\<lambda>(towers, side). nat (towers - side))") (auto dest: square_step)

declare grow_side.simps [simp del]

lemma square_pos: "w \<noteq> 0 \<Longrightarrow> w * w \<le> k \<Longrightarrow> 0 < k" for w k :: int
proof -
  assume "w \<noteq> 0" "w * w \<le> k"
  moreover have "0 < w * w" if "w \<noteq> 0" using that by (cases "0 < w") (auto simp: zero_less_mult_iff)
  ultimately show ?thesis by linarith
qed

text \<open>The layer of a cube of a pyramid: what is left of its number, its layer, and the width of the layer. The loop
  subtracts the layers from the widest.\<close>

function layer :: "int \<Rightarrow> int \<Rightarrow> int \<Rightarrow> int \<times> int \<times> int" where
  "layer k level w = (if k \<ge> w * w then layer (k - w * w) (level + 1) (w - 1) else (k, level, w))"
  by pat_completeness auto
termination
  by (relation "measure (\<lambda>(k, level, w). nat (2 * k + (if w = 0 then 1 else 0)))") (auto dest: square_pos simp: zero_less_mult_iff)

declare layer.simps [simp del]

text \<open>The cell of a cube in its pyramid: layer, column and row.\<close>

definition pyramid_cell :: "int \<Rightarrow> int \<Rightarrow> int \<times> int \<times> int" where
  "pyramid_cell pile k = (let (k, level, w) = layer k 0 pile in (level, k smod w, k sdiv w))"

definition pitch :: "'d dbl \<Rightarrow> int \<Rightarrow> int \<Rightarrow> 'd" where
  "pitch D stack pile =
     (if pile > 1 then d_mul D (d_mul D (d_int D (pile + 2)) (CUBE_METRES D)) (d_lit D 16 1)
      else if stack > 1 then d_mul D (d_mul D (d_int D stack) (CUBE_METRES D)) (d_lit D 75 2)
      else d_lit D 6 1)"

text \<open>\<open>a * pitch - side * pitch * 0.5\<close>.\<close>

definition grid :: "'d dbl \<Rightarrow> 'd \<Rightarrow> int \<Rightarrow> int \<Rightarrow> 'd" where
  "grid D p side a = d_sub D (d_mul D (d_int D a) p) (d_mul D (d_mul D (d_int D side) p) (d_lit D 5 1))"

definition in_layer :: "'d dbl \<Rightarrow> 'd \<Rightarrow> int \<Rightarrow> int \<Rightarrow> 'd" where
  "in_layer D from a w =
     d_add D from (d_mul D (d_sub D (d_int D a) (d_mul D (d_int D (w - 1)) (d_lit D 5 1))) (CUBE_METRES D))"

definition cube_place :: "'d dbl \<Rightarrow> int \<Rightarrow> int \<Rightarrow> int \<Rightarrow> int \<Rightarrow> 'd \<times> 'd \<times> 'd" where
  "cube_place D stack pile side i =
     (let n = per_group stack pile; t = i sdiv n; p = pitch D stack pile;
          ox = grid D p side (t smod side); oy = grid D p side (t sdiv side) in
      if pile > 1 then
        let (level, col, row) = pyramid_cell pile (i smod n); w = pile - level in
        (in_layer D ox col w, in_layer D oy row w, d_add D (d_lit D 2 1) (d_mul D (d_int D level) (CUBE_METRES D)))
      else if stack > 1 then
        (ox, oy, d_add D (d_lit D 3 1) (d_mul D (d_int D (i smod n)) (d_add D (CUBE_METRES D) (d_lit D 2 3))))
      else (ox, oy, d_lit D 3 1))"

section \<open>The text\<close>

definition attr :: "string \<Rightarrow> string \<Rightarrow> string" where
  "attr key val = key @ ''=\"'' @ val @ ''\"''"

definition cube_texts :: "'d dbl \<Rightarrow> int \<Rightarrow> int \<Rightarrow> int \<Rightarrow> int \<Rightarrow> string list" where
  "cube_texts D stack pile side i =
     (let (x, y, z) = cube_place D stack pile side i in
      [''<body '' @ attr ''name'' (''c'' @ dec i) @ '' '' @ attr ''pos'' (d_g D x @ '' '' @ d_g D y @ '' '' @ d_g D z)
         @ ''><freejoint/>'',
       ''<geom '' @ attr ''type'' ''box'' @ '' '' @ attr ''size'' ''0.2 0.2 0.2'' @ '' '' @ attr ''mass'' ''1'' @ ''/></body>''])"

definition mocap_texts :: "string \<Rightarrow> int \<Rightarrow> string \<Rightarrow> string \<Rightarrow> string list" where
  "mocap_texts name p pos radius =
     [''<body '' @ attr ''name'' (name @ dec p) @ '' '' @ attr ''mocap'' ''true'' @ '' '' @ attr ''pos'' pos @ ''>'',
      ''<geom '' @ attr ''type'' ''sphere'' @ '' '' @ attr ''size'' radius @ ''/></body>'']"

definition player_texts :: "'d dbl \<Rightarrow> int \<Rightarrow> int \<Rightarrow> string list" where
  "player_texts D side p =
     (let x = d_sub D (d_mul D (d_int D (p smod side)) (d_lit D 6 1)) (d_mul D (d_int D side) (d_lit D 3 1));
          y = d_sub D (d_mul D (d_int D (p sdiv side)) (d_lit D 6 1)) (d_mul D (d_int D side) (d_lit D 3 1)) in
      mocap_texts ''h'' p (d_g D x @ '' '' @ d_g D y @ '' 1.6'') ''0.12''
      @ mocap_texts ''lh'' p (d_g D (d_sub D x (d_lit D 25 2)) @ '' '' @ d_g D y @ '' 1.1'') ''0.06''
      @ mocap_texts ''rh'' p (d_g D (d_add D x (d_lit D 25 2)) @ '' '' @ d_g D y @ '' 1.1'') ''0.06'')"

definition head_texts :: "'d dbl \<Rightarrow> int \<Rightarrow> int \<Rightarrow> 'd \<Rightarrow> string list" where
  "head_texts D iters ls_iters timestep =
     [''<mujoco><option '' @ attr ''timestep'' (d_g D timestep)]
     @ (if iters > 0 then ['' '' @ attr ''iterations'' (dec iters)] else [])
     @ (if ls_iters > 0 then ['' '' @ attr ''ls_iterations'' (dec ls_iters)] else [])
     @ [''/>'', ''<worldbody>'',
        ''<geom '' @ attr ''name'' ''floor'' @ '' '' @ attr ''type'' ''plane'' @ '' '' @ attr ''size'' ''200 200 0.1'' @ ''/>'']"

definition scene_texts :: "'d dbl \<Rightarrow> int \<Rightarrow> int \<Rightarrow> int \<Rightarrow> int \<Rightarrow> int \<Rightarrow> int \<Rightarrow> 'd \<Rightarrow> string list" where
  "scene_texts D players cubes stack pile iters ls_iters timestep =
     (let side = grow_side (tower_count cubes (per_group stack pile)) 1 in
      head_texts D iters ls_iters timestep
      @ concat (map (\<lambda>i. cube_texts D stack pile side (int i)) [0..<nat cubes])
      @ concat (map (\<lambda>p. player_texts D side (int p)) [0..<nat players])
      @ [''</worldbody></mujoco>''])"

definition makes_a_scene :: "'d dbl \<Rightarrow> int \<Rightarrow> int \<Rightarrow> int \<Rightarrow> int \<Rightarrow> int \<Rightarrow> int \<Rightarrow> 'd \<Rightarrow> bool" where
  "makes_a_scene D players cubes stack pile iters ls_iters timestep =
     (\<not> (players < 0 \<or> cubes < 0 \<or> stack < 0 \<or> pile < 0 \<or> iters < 0 \<or> ls_iters < 0
        \<or> cubes + players * AVATAR_ENTITIES < 1 \<or> d_nonpos D timestep))"

definition scene_cap :: "int \<Rightarrow> int \<Rightarrow> int" where
  "scene_cap players cubes = (cubes + players * AVATAR_ENTITIES) * 256 + 4096"

text \<open>\<open>got\<close> says whether the buffer could be allocated.\<close>

definition gaffer_scene :: "'d dbl \<Rightarrow> bool \<Rightarrow> int \<Rightarrow> int \<Rightarrow> int \<Rightarrow> int \<Rightarrow> int \<Rightarrow> int \<Rightarrow> 'd \<Rightarrow> string option" where
  "gaffer_scene D got players cubes stack pile iters ls_iters timestep =
     (if \<not> makes_a_scene D players cubes stack pile iters ls_iters timestep \<or> \<not> got then None else
      let out = fold (\<lambda>s out. say out s) (scene_texts D players cubes stack pile iters ls_iters timestep)
            \<lparr>o_text = [], o_cap = scene_cap players cubes, o_over = False\<rparr> in
      if o_over out then None else Some (o_text out))"

section \<open>The buffer is never cut\<close>

lemma say_all:
  assumes "int (length (o_text out)) < o_cap out" "\<not> o_over out"
  shows "(let r = fold (\<lambda>s out. say out s) ss out in
     if int (length (o_text out @ concat ss)) < o_cap out then \<not> o_over r \<and> o_text r = o_text out @ concat ss else o_over r)"
  using assms
proof (induction ss arbitrary: out)
  case (Cons s ss)
  have over: "o_over r \<Longrightarrow> fold (\<lambda>s out. say out s) ss r = r" for r by (induction ss) (simp_all add: say_def)
  show ?case
  proof (cases "int (length (o_text out @ s)) < o_cap out")
    case True
    then have "say out s = out\<lparr>o_text := o_text out @ s\<rparr>" using Cons.prems by (simp add: say_def)
    then show ?thesis using Cons.IH [of "out\<lparr>o_text := o_text out @ s\<rparr>"] True Cons.prems(2) by (simp add: Let_def)
  next
    case False
    then have "say out s = out\<lparr>o_over := True\<rparr>" using Cons.prems(2) by (simp add: say_def)
    then show ?thesis using False over [of "out\<lparr>o_over := True\<rparr>"] by (simp add: Let_def)
  qed
qed (simp add: Let_def)

section \<open>Pyramids\<close>

text \<open>The cubes of the layers up to width \<open>w\<close>.\<close>

fun squares :: "nat \<Rightarrow> int" where
  "squares 0 = 0"
| "squares (Suc n) = squares n + int (Suc n) * int (Suc n)"

lemma squares_closed: "6 * squares n = int n * (int n + 1) * (2 * int n + 1)"
  by (induction n) (simp_all add: algebra_simps)

lemma squares_mono: "m \<le> n \<Longrightarrow> squares m \<le> squares n"
  by (induction n) (auto simp: le_Suc_eq intro: add_increasing2)

lemma layer_counts:
  "\<lbrakk>0 \<le> k; k < squares n; layer k level (int n) = (r, l, w)\<rbrakk> \<Longrightarrow>
     \<exists>m. w = int m \<and> 1 \<le> m \<and> m \<le> n \<and> l = level + int n - w \<and> 0 \<le> r \<and> r < w * w \<and> k = squares n - squares m + r"
proof (induction n arbitrary: k level)
  case (Suc n)
  show ?case
  proof (cases "k \<ge> int (Suc n) * int (Suc n)")
    case True
    then have s: "layer k level (int (Suc n)) = layer (k - int (Suc n) * int (Suc n)) (level + 1) (int n)"
      by (subst layer.simps) simp
    have "0 \<le> k - int (Suc n) * int (Suc n)" "k - int (Suc n) * int (Suc n) < squares n" using True Suc.prems(2) by simp_all
    from Suc.IH [OF this Suc.prems(3) [unfolded s]] obtain m where
      "w = int m" "1 \<le> m" "m \<le> n" "l = level + 1 + int n - w" "0 \<le> r" "r < w * w"
      "k - int (Suc n) * int (Suc n) = squares n - squares m + r" by blast
    then show ?thesis by (intro exI [of _ m]) simp
  next
    case False
    then have "layer k level (int (Suc n)) = (k, level, int (Suc n))" by (subst layer.simps) simp
    then show ?thesis using Suc.prems False by (intro exI [of _ "Suc n"]) auto
  qed
qed simp

lemma per_group_pile: "1 < pile \<Longrightarrow> per_group stack pile = squares (nat pile)"
proof -
  assume p: "1 < pile"
  have "pile * (pile + 1) * (2 * pile + 1) = 6 * squares (nat pile)" using p squares_closed [of "nat pile"] by simp
  moreover have "0 \<le> squares (nat pile)" using squares_mono [of 0 "nat pile"] by simp
  ultimately show ?thesis using p by (simp add: per_group_def c_arith)
qed

lemma pyramid_cell_range:
  assumes "1 < pile" "0 \<le> k" "k < per_group stack pile" "pyramid_cell pile k = (level, col, row)"
  shows "0 \<le> level \<and> level < pile \<and> 0 \<le> col \<and> col < pile - level \<and> 0 \<le> row \<and> row < pile - level
    \<and> k = squares (nat pile) - squares (nat (pile - level)) + row * (pile - level) + col"
proof -
  obtain r l w where L: "layer k 0 pile = (r, l, w)" by (metis prod_cases3)
  obtain m where m: "w = int m" "1 \<le> m" "m \<le> nat pile" "l = pile - w" "0 \<le> r" "r < w * w" "k = squares (nat pile) - squares m + r"
    using layer_counts [of k "nat pile" 0 r l w] assms(1-3) L by (auto simp: per_group_pile)
  have c: "level = l" "col = r mod w" "row = r div w" using assms(4) L m by (auto simp: pyramid_cell_def c_arith)
  have "r div w < w"
  proof (rule ccontr)
    assume "\<not> r div w < w"
    then have "w * w \<le> r div w * w" using m(1,2) by (intro mult_right_mono) simp_all
    also have "\<dots> \<le> r" using m(1,2) pos_mod_sign [of w r] div_mult_mod_eq [of r w] by linarith
    finally show False using m(6) by simp
  qed
  moreover have "row * w + col = r" using c by simp
  ultimately show ?thesis using m c assms(1) by (auto simp: pos_imp_zdiv_nonneg_iff)
qed

text \<open>No two cubes of a pyramid have one cell.\<close>

lemma pyramid_cell_inj:
  assumes "1 < pile" "0 \<le> i" "i < per_group stack pile" "0 \<le> j" "j < per_group stack pile"
    "pyramid_cell pile i = pyramid_cell pile j"
  shows "i = j"
proof -
  obtain level col row where c: "pyramid_cell pile i = (level, col, row)" by (metis prod_cases3)
  show ?thesis using pyramid_cell_range [OF assms(1-3) c] pyramid_cell_range [OF assms(1,4,5) c [unfolded assms(6)]] by simp
qed

text \<open>The side of the grid holds every tower.\<close>

lemma grow_side_holds: "towers \<le> grow_side towers side * grow_side towers side \<and> side \<le> grow_side towers side"
proof (induction towers side rule: grow_side.induct)
  case (1 towers side)
  then show ?case by (subst (1 2 3) grow_side.simps) auto
qed

end
