(* ===== verification/Probe.thy ===== *)
theory Probe
  imports Scene
begin

text \<open>
  The determinism probe, \<open>src/bench/determinism_probe.c\<close>: two worlds of one scene, driven by one script, compared tick by
  tick, and a trace of hashes that a run elsewhere is compared with. MuJoCo is the record \<open>physics\<close>; its step is given the
  number of steps the process has made before, so that nothing is assumed about its being a function of the world. What is
  printed is left out; \<open>worst_gap\<close>, which only feeds a message, stands by itself.
\<close>

section \<open>The hash\<close>

definition fnv1a :: "bytes \<Rightarrow> u64" where
  "fnv1a bs = fold (\<lambda>b h. (h XOR ucast b) * 1099511628211) bs 1469598103934665603"

section \<open>The arguments\<close>

record 'd settings =
  p_cubes :: int
  p_players :: int
  p_ticks :: int
  p_stack :: int
  p_iters :: int
  p_ls_iters :: int
  p_pile :: int
  p_sim_hz :: 'd
  p_publish_hz :: 'd
  p_emit :: "string option"
  p_compare :: "string option"
  p_print_scene :: bool

text \<open>\<open>atof\<close> is a parameter; \<open>None\<close> is the end of the process with code 2.\<close>

fun probe_args :: "(string \<Rightarrow> 'd) \<Rightarrow> string list \<Rightarrow> 'd settings \<Rightarrow> 'd settings option" where
  "probe_args atof [] p = Some p"
| "probe_args atof (a # args) p =
     (if a = ''--print-scene'' then probe_args atof args (p\<lparr>p_print_scene := True\<rparr>) else
      case args of [] \<Rightarrow> None
      | v # args \<Rightarrow>
          if a = ''--cubes'' then probe_args atof args (p\<lparr>p_cubes := c_atoi v\<rparr>)
          else if a = ''--stack'' then probe_args atof args (p\<lparr>p_stack := c_atoi v\<rparr>)
          else if a = ''--pile'' then probe_args atof args (p\<lparr>p_pile := c_atoi v\<rparr>)
          else if a = ''--solver-iters'' then probe_args atof args (p\<lparr>p_iters := c_atoi v\<rparr>)
          else if a = ''--ls-iters'' then probe_args atof args (p\<lparr>p_ls_iters := c_atoi v\<rparr>)
          else if a = ''--players'' then probe_args atof args (p\<lparr>p_players := c_atoi v\<rparr>)
          else if a = ''--ticks'' then probe_args atof args (p\<lparr>p_ticks := c_atoi v\<rparr>)
          else if a = ''--sim-hz'' then probe_args atof args (p\<lparr>p_sim_hz := atof v\<rparr>)
          else if a = ''--publish-hz'' then probe_args atof args (p\<lparr>p_publish_hz := atof v\<rparr>)
          else if a = ''--emit'' then probe_args atof args (p\<lparr>p_emit := Some v\<rparr>)
          else if a = ''--compare'' then probe_args atof args (p\<lparr>p_compare := Some v\<rparr>)
          else None)"

definition probe_defaults :: "'d dbl \<Rightarrow> 'd settings" where
  "probe_defaults D = \<lparr>p_cubes = 900, p_players = 4, p_ticks = 1200, p_stack = 0, p_iters = 0, p_ls_iters = 0, p_pile = 0,
     p_sim_hz = d_int D 60, p_publish_hz = d_int D 20, p_emit = None, p_compare = None, p_print_scene = False\<rparr>"

section \<open>Two worlds\<close>

text \<open>\<open>ph_mocap\<close> is where the tracked bodies are, three doubles for each.\<close>

record ('d, 'p) physics =
  ph_num :: "'d dbl"
  ph_init :: "string \<Rightarrow> 'p option"
  ph_mocap :: "'p \<Rightarrow> 'd list"
  ph_set_mocap :: "'d list \<Rightarrow> 'p \<Rightarrow> 'p"
  ph_step :: "nat \<Rightarrow> 'p \<Rightarrow> 'p"
  ph_state :: "'p \<Rightarrow> bytes"

definition drive :: "('d, 'p) physics \<Rightarrow> 'd list \<Rightarrow> nat \<Rightarrow> 'p \<Rightarrow> 'p" where
  "drive P home tick world =
     (let D = ph_num P in
      ph_set_mocap P (concat (map (\<lambda>i.
        let phase = d_add D (d_mul D (d_int D (int tick)) (d_lit D 5 2)) (d_int D (int i)) in
        [d_add D (home ! (3 * i + 0)) (d_mul D (d_lit D 3 1) (d_sin D phase)),
         d_add D (home ! (3 * i + 1)) (d_mul D (d_lit D 3 1) (d_cos D phase)),
         home ! (3 * i + 2)]) [0..<length (ph_mocap P world) div 3])) world)"

text \<open>The largest gap of two states and where it is, -1 when there is none.\<close>

definition worst_gap :: "'d dbl \<Rightarrow> 'd list \<Rightarrow> 'd list \<Rightarrow> nat \<Rightarrow> 'd \<times> int" where
  "worst_gap D a b n =
     fold (\<lambda>i (worst, at). let d = d_fabs D (d_sub D (a ! i) (b ! i)) in if d_less D worst d then (d, int i) else (worst, at))
       [0..<n] (d_int D 0, - 1)"

text \<open>The worlds, with the number of steps made.\<close>

primrec step_both :: "('d, 'p) physics \<Rightarrow> nat \<Rightarrow> nat \<times> 'p \<times> 'p \<Rightarrow> nat \<times> 'p \<times> 'p" where
  "step_both P 0 s = s"
| "step_both P (Suc k) s = (case s of (n, a, b) \<Rightarrow> step_both P k (n + 2, ph_step P n a, ph_step P (n + 1) b))"

definition probe_tick :: "('d, 'p) physics \<Rightarrow> nat \<Rightarrow> 'd list \<Rightarrow> 'd list \<Rightarrow> nat \<Rightarrow> nat \<times> 'p \<times> 'p \<Rightarrow> nat \<times> 'p \<times> 'p" where
  "probe_tick P substeps home_a home_b t s =
     (case s of (n, a, b) \<Rightarrow> step_both P substeps (n, drive P home_a t a, drive P home_b t b))"

record probe_run =
  r_diverged_at :: "nat option"
  r_trace :: "(nat \<times> u64) list"

fun probe_ticks :: "('d, 'p) physics \<Rightarrow> nat \<Rightarrow> 'd list \<Rightarrow> 'd list \<Rightarrow> nat list \<Rightarrow> nat \<times> 'p \<times> 'p \<Rightarrow> probe_run \<Rightarrow> probe_run \<times> nat" where
  "probe_ticks P substeps home_a home_b [] s r = (r, fst s)"
| "probe_ticks P substeps home_a home_b (t # ts) s r =
     (let s = probe_tick P substeps home_a home_b t s; sa = ph_state P (fst (snd s)); sb = ph_state P (snd (snd s));
          r = r\<lparr>r_trace := r_trace r @ [(t, fnv1a sa)]\<rparr>;
          r = (if r_diverged_at r = None \<and> sa \<noteq> sb then r\<lparr>r_diverged_at := Some t\<rparr> else r)
      in probe_ticks P substeps home_a home_b ts s r)"

section \<open>Comparing a trace\<close>

text \<open>One world again, against the lines of the other trace: \<open>None\<close> is a line \<open>sscanf\<close> does not read, which is passed
  over. The result is the first tick whose hashes differ.\<close>

primrec step_one :: "('d, 'p) physics \<Rightarrow> nat \<Rightarrow> nat \<times> 'p \<Rightarrow> nat \<times> 'p" where
  "step_one P 0 s = s"
| "step_one P (Suc k) s = (case s of (n, a) \<Rightarrow> step_one P k (n + 1, ph_step P n a))"

fun compare_lines :: "('d, 'p) physics \<Rightarrow> nat \<Rightarrow> 'd list \<Rightarrow> nat \<Rightarrow> nat \<Rightarrow> u64 option list \<Rightarrow> nat \<times> 'p \<Rightarrow> nat option \<Rightarrow> nat option" where
  "compare_lines P substeps home ticks t [] s mismatch = mismatch"
| "compare_lines P substeps home ticks t (line # lines) s mismatch =
     (if t \<ge> ticks then mismatch else
      let s = step_one P substeps (fst s, drive P home t (snd s)) in
      compare_lines P substeps home ticks (Suc t) lines s
        (case line of None \<Rightarrow> mismatch
         | Some theirs \<Rightarrow> if mismatch = None \<and> fnv1a (ph_state P (snd s)) \<noteq> theirs then Some t else mismatch))"

section \<open>The program\<close>

text \<open>What the process finds: the arithmetic, whether memory and files are given, and the other trace as its header and its
  lines, \<open>None\<close> when the file cannot be read.\<close>

record 'd probe_env =
  v_dbl :: "'d dbl"
  v_atof :: "string \<Rightarrow> 'd"
  v_timestep :: "'d \<Rightarrow> 'd"
  v_substeps :: "'d \<Rightarrow> 'd \<Rightarrow> nat"
  v_memory :: bool
  v_can_write :: bool
  v_other :: "(bool \<times> u64 option list) option"

definition probe_world :: "'d probe_env \<Rightarrow> ('d, 'p) physics \<Rightarrow> 'd settings \<Rightarrow> string option" where
  "probe_world v P p = gaffer_scene (v_dbl v) (v_memory v) (p_players p) (p_cubes p) (p_stack p) (p_pile p) (p_iters p) (p_ls_iters p)
     (v_timestep v (p_sim_hz p))"

text \<open>The source builds the scene and the world for the comparison again without a check; where that fails, which the first
  time it did not, the model answers 1.\<close>

definition probe_exit :: "'d probe_env \<Rightarrow> ('d, 'p) physics \<Rightarrow> 'd settings \<Rightarrow> 'p \<Rightarrow> 'p \<Rightarrow> int \<times> probe_run" where
  "probe_exit v P p a b =
     (let ticks = nat (p_ticks p); substeps = v_substeps v (p_sim_hz p) (p_publish_hz p);
          (r, n) = probe_ticks P substeps (ph_mocap P a) (ph_mocap P b) [0..<ticks] (0, a, b) \<lparr>r_diverged_at = None, r_trace = []\<rparr> in
      if p_compare p = None then (if r_diverged_at r = None then 0 else 1, r)
      else case v_other v of None \<Rightarrow> (1, r)
      | Some (header, lines) \<Rightarrow>
          if \<not> header then (1, r) else
          (case Option.bind (probe_world v P p) (ph_init P) of None \<Rightarrow> (1, r)
           | Some again \<Rightarrow>
               (if compare_lines P substeps (ph_mocap P again) ticks 0 lines (n, again) None = None then 0 else 1, r)))"

definition probe_main :: "'d probe_env \<Rightarrow> ('d, 'p) physics \<Rightarrow> string list \<Rightarrow> int \<times> probe_run" where
  "probe_main v P args =
     (let none = \<lparr>r_diverged_at = None, r_trace = []\<rparr> in
      case probe_args (v_atof v) args (probe_defaults (v_dbl v)) of None \<Rightarrow> (2, none)
      | Some p \<Rightarrow>
          if p_cubes p < 0 \<or> p_players p < 0 \<or> p_stack p < 0 \<or> p_ticks p < 1 \<or> d_less (v_dbl v) (p_sim_hz p) (p_publish_hz p) then (2, none)
          else case probe_world v P p of None \<Rightarrow> (1, none)
          | Some scene \<Rightarrow>
              if p_print_scene p then (0, none)
              else case (ph_init P scene, ph_init P scene) of
                (Some a, Some b) \<Rightarrow>
                  if \<not> v_memory v \<or> p_emit p \<noteq> None \<and> \<not> v_can_write v then (1, none) else probe_exit v P p a b
              | _ \<Rightarrow> (1, none))"

section \<open>What a run finds\<close>

text \<open>The worlds after \<open>t\<close> ticks.\<close>

primrec worlds :: "('d, 'p) physics \<Rightarrow> nat \<Rightarrow> 'p \<Rightarrow> 'p \<Rightarrow> nat \<Rightarrow> nat \<times> 'p \<times> 'p" where
  "worlds P substeps a b 0 = (0, a, b)"
| "worlds P substeps a b (Suc t) = probe_tick P substeps (ph_mocap P a) (ph_mocap P b) t (worlds P substeps a b t)"

definition alike :: "('d, 'p) physics \<Rightarrow> nat \<Rightarrow> 'p \<Rightarrow> 'p \<Rightarrow> nat \<Rightarrow> bool" where
  "alike P substeps a b t \<longleftrightarrow>
     ph_state P (fst (snd (worlds P substeps a b (Suc t)))) = ph_state P (snd (snd (worlds P substeps a b (Suc t))))"

lemma probe_ticks_finds:
  "fst (probe_ticks P k (ph_mocap P a) (ph_mocap P b) [t..<t + n] (worlds P k a b t) r) =
     r\<lparr>r_diverged_at := (if r_diverged_at r = None then List.find (\<lambda>u. \<not> alike P k a b u) [t..<t + n] else r_diverged_at r),
       r_trace := r_trace r @ map (\<lambda>u. (u, fnv1a (ph_state P (fst (snd (worlds P k a b (Suc u))))))) [t..<t + n]\<rparr>"
proof (induction n arbitrary: t r)
  case (Suc n)
  have "[t..<t + Suc n] = t # [Suc t..<Suc t + n]" by (simp add: upt_rec)
  then show ?case using Suc.IH [of "Suc t"] by (simp add: Let_def alike_def del: upt_Suc)
qed simp

lemma probe_run_finds:
  "fst (probe_ticks P k (ph_mocap P a) (ph_mocap P b) [0..<n] (0, a, b) \<lparr>r_diverged_at = None, r_trace = []\<rparr>) =
     \<lparr>r_diverged_at = List.find (\<lambda>u. \<not> alike P k a b u) [0..<n],
      r_trace = map (\<lambda>u. (u, fnv1a (ph_state P (fst (snd (worlds P k a b (Suc u))))))) [0..<n]\<rparr>"
  using probe_ticks_finds [of P k a b 0 n "\<lparr>r_diverged_at = None, r_trace = []\<rparr>"] by simp

text \<open>The gap that is named is one of the gaps, and no gap is larger.\<close>

lemma worst_gap_is_worst:
  assumes "\<And>x y z. d_less D x y \<Longrightarrow> d_less D y z \<Longrightarrow> d_less D x z" and "\<And>x. \<not> d_less D x x"
    and "worst_gap D a b n = (worst, at)"
  shows "(at = - 1 \<longrightarrow> worst = d_int D 0) \<and> (at \<noteq> - 1 \<longrightarrow> 0 \<le> at \<and> at < int n \<and> worst = d_fabs D (d_sub D (a ! nat at) (b ! nat at)))
    \<and> (\<forall>i<n. \<not> d_less D worst (d_fabs D (d_sub D (a ! i) (b ! i))))"
  using assms(3)
proof (induction n arbitrary: worst at)
  case 0
  then show ?case by (simp add: worst_gap_def)
next
  case (Suc n)
  obtain w k where p: "worst_gap D a b n = (w, k)" by fastforce
  note IH = Suc.IH [OF p]
  let ?d = "d_fabs D (d_sub D (a ! n) (b ! n))"
  have step: "(worst, at) = (if d_less D w ?d then (?d, int n) else (w, k))"
    using Suc.prems p by (simp add: worst_gap_def Let_def)
  show ?case
  proof (cases "d_less D w ?d")
    case True
    then have "\<not> d_less D ?d (d_fabs D (d_sub D (a ! i) (b ! i)))" if "i < Suc n" for i
      using IH assms(1) [OF True] assms(2) that by (auto simp: less_Suc_eq)
    then show ?thesis using True step by simp
  next
    case False
    then show ?thesis using IH step by (auto simp: less_Suc_eq)
  qed
qed

text \<open>A step that is a function of the world keeps two equal worlds equal.\<close>

lemma step_both_equal:
  "(\<And>n m x. ph_step P n x = ph_step P m x) \<Longrightarrow> fst (snd (step_both P k (n, a, a))) = snd (snd (step_both P k (n, a, a)))"
proof (induction k arbitrary: n a)
  case (Suc k)
  have "ph_step P (n + 1) a = ph_step P n a" by (rule Suc.prems)
  then show ?case using Suc.IH [OF Suc.prems] by simp
qed simp

lemma worlds_equal:
  assumes "\<And>n m x. ph_step P n x = ph_step P m x"
  shows "fst (snd (worlds P k a a t)) = snd (snd (worlds P k a a t))"
proof (induction t)
  case (Suc t)
  obtain n x where "worlds P k a a t = (n, x, x)" using Suc by (metis prod.collapse)
  then show ?case using step_both_equal [OF assms] by (simp add: probe_tick_def)
qed simp

end
