(* ===== verification/Scene_Theorems.thy ===== *)
theory Scene_Theorems
  imports Scene
begin

text \<open>
  What the scene generator promises: a whole scene or none, and a place of its own for every cube of a pyramid.
\<close>

text \<open>Doubles as fractions of two whole numbers, written as a whole number.\<close>

definition ex_dbl :: "int dbl" where
  "ex_dbl = \<lparr>d_int = (\<lambda>i. i * 1000), d_lit = (\<lambda>m e. m * 10 ^ nat (3 - e)), d_add = (+), d_sub = (-), d_mul = (\<lambda>a b. a * b div 1000),
     d_sin = id, d_cos = id, d_fabs = abs, d_less = (<), d_nonpos = (\<lambda>a. a \<le> 0), d_g = dec\<rparr>"

text \<open>C24. A scene is whole or is none: for arguments that make a scene and a buffer that was given, the result is all of the
  text that was to be written when it is shorter than the buffer, and otherwise there is no result; it is never the
  beginning of a text.\<close>

theorem scene_is_whole_or_none:
  "gaffer_scene D got players cubes stack pile iters ls_iters timestep =
     (let text = concat (scene_texts D players cubes stack pile iters ls_iters timestep) in
      if makes_a_scene D players cubes stack pile iters ls_iters timestep \<and> got \<and> int (length text) < scene_cap players cubes
      then Some text else None)"
proof (cases "makes_a_scene D players cubes stack pile iters ls_iters timestep \<and> got")
  case True
  then have "0 < scene_cap players cubes" by (auto simp: makes_a_scene_def scene_cap_def)
  then show ?thesis
    using True say_all [of "\<lparr>o_text = [], o_cap = scene_cap players cubes, o_over = False\<rparr>"
        "scene_texts D players cubes stack pile iters ls_iters timestep"]
    by (auto simp: gaffer_scene_def Let_def split: if_splits)
qed (auto simp: gaffer_scene_def)

text \<open>C25. Every cube of a pyramid has a cell of its own: the loop over the layers ends for every cube, in a layer the pyramid
  has and at a column and a row that layer has, and two cubes with one cell are one cube.\<close>

theorem pyramid_cells_differ:
  assumes "1 < pile" and "0 \<le> i" and "i < per_group stack pile" and "0 \<le> j" and "j < per_group stack pile"
    and "pyramid_cell pile i = (level, col, row)"
  shows "0 \<le> level \<and> level < pile \<and> 0 \<le> col \<and> col < pile - level \<and> 0 \<le> row \<and> row < pile - level
    \<and> (pyramid_cell pile j = (level, col, row) \<longleftrightarrow> i = j)"
  using pyramid_cell_range [OF assms(1-3,6)] pyramid_cell_inj [OF assms(1-5)] assms(6) by auto

theorem pyramid_cells_differ_witness: "pyramid_cell 3 10 = (1, 1, 0) \<and> pyramid_cell 3 9 \<noteq> (1, 1, 0)"
proof -
  have "pyramid_cell 3 10 = (1, 1, 0)" "per_group 0 3 = 14" by code_simp+
  then show ?thesis using pyramid_cells_differ [of 3 10 0 9 1 1 0] by simp
qed

end
