(* ===== verification/Probe_Theorems.thy ===== *)
theory Probe_Theorems
  imports Probe Scene_Theorems
begin

text \<open>
  What the determinism probe answers, and what its comparison of traces lets pass.
\<close>

text \<open>C26. The probe answers its question: started without a trace to compare, it names the first tick after which the two
  worlds' states differ and ends with 1, or with 0 when there is none; and a physics whose step is a function of the world
  always ends with 0.\<close>

theorem probe_answers:
  assumes "p_compare p = None"
  shows "probe_exit v P p a a =
      (let k = v_substeps v (p_sim_hz p) (p_publish_hz p); at = List.find (\<lambda>t. \<not> alike P k a a t) [0..<nat (p_ticks p)] in
       (if at = None then 0 else 1, \<lparr>r_diverged_at = at,
          r_trace = map (\<lambda>t. (t, fnv1a (ph_state P (fst (snd (worlds P k a a (Suc t))))))) [0..<nat (p_ticks p)]\<rparr>))
    \<and> ((\<forall>n m x. ph_step P n x = ph_step P m x) \<longrightarrow> fst (probe_exit v P p a a) = 0)"
proof -
  let ?k = "v_substeps v (p_sim_hz p) (p_publish_hz p)"
  have run: "probe_exit v P p a a =
      (let at = List.find (\<lambda>t. \<not> alike P ?k a a t) [0..<nat (p_ticks p)] in
       (if at = None then 0 else 1, \<lparr>r_diverged_at = at,
          r_trace = map (\<lambda>t. (t, fnv1a (ph_state P (fst (snd (worlds P ?k a a (Suc t))))))) [0..<nat (p_ticks p)]\<rparr>))"
    using assms probe_run_finds [of P ?k a a "nat (p_ticks p)"] by (auto simp: probe_exit_def Let_def split: prod.split)
  have "alike P ?k a a t" if "\<forall>n m x. ph_step P n x = ph_step P m x" for t
    unfolding alike_def by (rule arg_cong [OF worlds_equal]) (use that in blast)
  then show ?thesis unfolding run Let_def by (auto simp: find_None_iff)
qed

text \<open>A world that is a number; its step counts, or counts the steps of the process.\<close>

definition ex_physics :: "bool \<Rightarrow> (int, nat) physics" where
  "ex_physics det = \<lparr>ph_num = ex_dbl, ph_init = (\<lambda>_. Some 0), ph_mocap = (\<lambda>_. []), ph_set_mocap = (\<lambda>_ x. x), ph_step = (\<lambda>n x. if det then x + 1 else x + n),
     ph_state = (\<lambda>x. [word_of_nat x])\<rparr>"

definition ex_probe_env :: "int probe_env" where
  "ex_probe_env = \<lparr>v_dbl = ex_dbl, v_atof = (\<lambda>_. 20000), v_timestep = (\<lambda>_. 50), v_substeps = (\<lambda>_ _. 3), v_memory = True,
     v_can_write = True, v_other = Some (True, [])\<rparr>"

definition ex_settings :: "int settings" where
  "ex_settings = (probe_defaults ex_dbl)\<lparr>p_ticks := 4, p_cubes := 1\<rparr>"

theorem probe_answers_witness:
  "fst (probe_exit ex_probe_env (ex_physics True) ex_settings 0 0) = 0 \<and> r_diverged_at (snd (probe_exit ex_probe_env (ex_physics False) ex_settings 0 0)) = Some 0"
proof -
  have c: "p_compare ex_settings = None" by (simp add: ex_settings_def probe_defaults_def)
  have "\<forall>n m x. ph_step (ex_physics True) n x = ph_step (ex_physics True) m x" by (simp add: ex_physics_def)
  then have "fst (probe_exit ex_probe_env (ex_physics True) ex_settings 0 0) = 0"
    using probe_answers [OF c, of ex_probe_env "ex_physics True" 0] by blast
  moreover have "r_diverged_at (snd (probe_exit ex_probe_env (ex_physics False) ex_settings 0 0)) = Some 0" by code_simp
  ultimately show ?thesis by blast
qed

text \<open>A line of the other trace that cannot be read is passed over.\<close>

lemma unread_lines_agree: "compare_lines P k home ticks t (replicate n None) s None = None"
  by (induction n arbitrary: t s) (simp_all add: Let_def)

text \<open>A comparison forgets what the run found: with a trace of a header and no line that can be read, the exit code is 0
  whatever the two worlds did.\<close>

lemma comparison_forgets_divergence:
  assumes "p_compare p \<noteq> None" and "v_other v = Some (True, replicate n None)"
    and "Option.bind (probe_world v P p) (ph_init P) = Some again"
  shows "fst (probe_exit v P p a b) = 0"
  using assms by (auto simp: probe_exit_def Let_def unread_lines_agree split: prod.split)

end
