(* ===== verification/Fanout.thy ===== *)
theory Fanout
  imports Fabric_Prelude
begin

text \<open>
  What the player benchmark sends: the packet of \<open>src/thirdparty/entity-packet/xr_grid_entity_packet.h\<close> with its
  layout of 100 bytes, the boxes of \<open>src/thirdparty/spatial-oracle/predictive_bvh.h\<close> and \<open>src/bench/pbvh_adapter.cpp\<close>,
  the interest filter of \<open>src/thirdparty/fanout-edge/src/fanout.cpp\<close>, and the bridge \<open>src/bench/fanout_bridge.cpp\<close> by
  which C reaches it. A field of type \<open>int64_t\<close> or \<open>int16_t\<close> is an \<open>int\<close>; \<open>packet_ok\<close> says that the fields are in range.
\<close>

section \<open>The packet\<close>

definition XR_PACKET_SIZE :: nat where "XR_PACKET_SIZE = 100"
definition XR_PACKET_PAYLOAD_OFFSET :: nat where "XR_PACKET_PAYLOAD_OFFSET = 58"
definition XR_PACKET_PAYLOAD_LEN :: nat where "XR_PACKET_PAYLOAD_LEN = 42"
definition XR_PACKET_V_MAX :: int where "XR_PACKET_V_MAX = 500000"

definition XR_PACKET_OFF_GID :: nat where "XR_PACKET_OFF_GID = 0"
definition XR_PACKET_OFF_POS :: nat where "XR_PACKET_OFF_POS = 4"
definition XR_PACKET_OFF_VEL :: nat where "XR_PACKET_OFF_VEL = 28"
definition XR_PACKET_OFF_HLC :: nat where "XR_PACKET_OFF_HLC = 40"
definition XR_PACKET_OFF_CLASS_OWNER :: nat where "XR_PACKET_OFF_CLASS_OWNER = 44"
definition XR_PACKET_OFF_SUB_INDEX :: nat where "XR_PACKET_OFF_SUB_INDEX = 48"
definition XR_PACKET_OFF_ROT :: nat where "XR_PACKET_OFF_ROT = 52"

lemmas packet_layout = XR_PACKET_SIZE_def XR_PACKET_PAYLOAD_OFFSET_def XR_PACKET_PAYLOAD_LEN_def XR_PACKET_OFF_GID_def
  XR_PACKET_OFF_POS_def XR_PACKET_OFF_VEL_def XR_PACKET_OFF_HLC_def XR_PACKET_OFF_CLASS_OWNER_def
  XR_PACKET_OFF_SUB_INDEX_def XR_PACKET_OFF_ROT_def

record packet =
  pk_gid :: u32
  pk_pos_um_x :: int
  pk_pos_um_y :: int
  pk_pos_um_z :: int
  pk_vel_x :: int
  pk_vel_y :: int
  pk_vel_z :: int
  pk_hlc :: u32
  pk_class_owner :: u32
  pk_sub_index :: u32
  pk_rot_x :: int
  pk_rot_y :: int
  pk_rot_z :: int
  pk_payload :: bytes

definition i16 :: "int \<Rightarrow> bool" where "i16 v \<longleftrightarrow> - (2 ^ 15) \<le> v \<and> v < 2 ^ 15"
definition i64 :: "int \<Rightarrow> bool" where "i64 v \<longleftrightarrow> - (2 ^ 63) \<le> v \<and> v < 2 ^ 63"

definition packet_ok :: "packet \<Rightarrow> bool" where
  "packet_ok p \<longleftrightarrow> i64 (pk_pos_um_x p) \<and> i64 (pk_pos_um_y p) \<and> i64 (pk_pos_um_z p)
     \<and> i16 (pk_vel_x p) \<and> i16 (pk_vel_y p) \<and> i16 (pk_vel_z p)
     \<and> i16 (pk_rot_x p) \<and> i16 (pk_rot_y p) \<and> i16 (pk_rot_z p) \<and> length (pk_payload p) = XR_PACKET_PAYLOAD_LEN"

section \<open>Bytes\<close>

definition xr_pu32 :: "u32 \<Rightarrow> bytes" where
  "xr_pu32 v = [ucast v, ucast (drop_bit 8 v), ucast (drop_bit 16 v), ucast (drop_bit 24 v)]"

definition xr_gu32 :: "bytes \<Rightarrow> u32" where
  "xr_gu32 b = ucast (b ! 0) OR push_bit 8 (ucast (b ! 1)) OR push_bit 16 (ucast (b ! 2)) OR push_bit 24 (ucast (b ! 3))"

definition xr_pi64 :: "int \<Rightarrow> bytes" where
  "xr_pi64 v = (let u = word_of_int v :: u64 in map (\<lambda>i. ucast (drop_bit (i * 8) u)) [0..<8])"

definition xr_gi64 :: "bytes \<Rightarrow> int" where
  "xr_gi64 b = sint (fold (\<lambda>i u. u OR push_bit (i * 8) (ucast (b ! i))) [0..<8] (0 :: u64))"

definition xr_pi16 :: "int \<Rightarrow> bytes" where
  "xr_pi16 v = (let u = word_of_int v :: 16 word in [ucast u, ucast (drop_bit 8 u)])"

definition xr_gi16 :: "bytes \<Rightarrow> int" where
  "xr_gi16 b = sint (ucast (b ! 0) OR push_bit 8 (ucast (b ! 1)) :: 16 word)"

text \<open>Writing some bytes into a buffer at an offset.\<close>

definition put_at :: "nat \<Rightarrow> bytes \<Rightarrow> bytes \<Rightarrow> bytes" where
  "put_at off bs out = take off out @ bs @ drop (off + length bs) out"

definition packet_encode :: "packet \<Rightarrow> bytes" where
  "packet_encode p =
     (let out = replicate XR_PACKET_SIZE 0;
          out = put_at XR_PACKET_OFF_GID (xr_pu32 (pk_gid p)) out;
          out = put_at (XR_PACKET_OFF_POS + 0) (xr_pi64 (pk_pos_um_x p)) out;
          out = put_at (XR_PACKET_OFF_POS + 8) (xr_pi64 (pk_pos_um_y p)) out;
          out = put_at (XR_PACKET_OFF_POS + 16) (xr_pi64 (pk_pos_um_z p)) out;
          out = put_at (XR_PACKET_OFF_VEL + 0) (xr_pi16 (pk_vel_x p)) out;
          out = put_at (XR_PACKET_OFF_VEL + 2) (xr_pi16 (pk_vel_y p)) out;
          out = put_at (XR_PACKET_OFF_VEL + 4) (xr_pi16 (pk_vel_z p)) out;
          out = put_at XR_PACKET_OFF_HLC (xr_pu32 (pk_hlc p)) out;
          out = put_at XR_PACKET_OFF_CLASS_OWNER (xr_pu32 (pk_class_owner p)) out;
          out = put_at XR_PACKET_OFF_SUB_INDEX (xr_pu32 (pk_sub_index p)) out;
          out = put_at (XR_PACKET_OFF_ROT + 0) (xr_pi16 (pk_rot_x p)) out;
          out = put_at (XR_PACKET_OFF_ROT + 2) (xr_pi16 (pk_rot_y p)) out;
          out = put_at (XR_PACKET_OFF_ROT + 4) (xr_pi16 (pk_rot_z p)) out
      in fold (\<lambda>i out. out[XR_PACKET_PAYLOAD_OFFSET + i := pk_payload p ! i]) [0..<XR_PACKET_PAYLOAD_LEN] out)"

definition packet_decode :: "bytes \<Rightarrow> packet" where
  "packet_decode b =
     \<lparr>pk_gid = xr_gu32 (drop XR_PACKET_OFF_GID b),
      pk_pos_um_x = xr_gi64 (drop (XR_PACKET_OFF_POS + 0) b),
      pk_pos_um_y = xr_gi64 (drop (XR_PACKET_OFF_POS + 8) b),
      pk_pos_um_z = xr_gi64 (drop (XR_PACKET_OFF_POS + 16) b),
      pk_vel_x = xr_gi16 (drop (XR_PACKET_OFF_VEL + 0) b),
      pk_vel_y = xr_gi16 (drop (XR_PACKET_OFF_VEL + 2) b),
      pk_vel_z = xr_gi16 (drop (XR_PACKET_OFF_VEL + 4) b),
      pk_hlc = xr_gu32 (drop XR_PACKET_OFF_HLC b),
      pk_class_owner = xr_gu32 (drop XR_PACKET_OFF_CLASS_OWNER b),
      pk_sub_index = xr_gu32 (drop XR_PACKET_OFF_SUB_INDEX b),
      pk_rot_x = xr_gi16 (drop (XR_PACKET_OFF_ROT + 0) b),
      pk_rot_y = xr_gi16 (drop (XR_PACKET_OFF_ROT + 2) b),
      pk_rot_z = xr_gi16 (drop (XR_PACKET_OFF_ROT + 4) b),
      pk_payload = map (\<lambda>i. b ! (XR_PACKET_PAYLOAD_OFFSET + i)) [0..<XR_PACKET_PAYLOAD_LEN]\<rparr>"

section \<open>Boxes\<close>

record aabb =
  min_x :: int
  max_x :: int
  min_y :: int
  max_y :: int
  min_z :: int
  max_z :: int

definition ghost_aabb_min :: "int \<Rightarrow> int \<Rightarrow> int \<Rightarrow> int \<Rightarrow> int \<Rightarrow> int" where
  "ghost_aabb_min center ext v a_half tau =
     (let t0 = (- 1) * ext; t1 = center + t0; t2 = v * tau; t3 = a_half * tau; t4 = t3 * tau; t5 = t2 + t4;
          t6 = (- 1) * t5; t7 = t1 + t6 in t7)"

definition ghost_aabb_max :: "int \<Rightarrow> int \<Rightarrow> int \<Rightarrow> int \<Rightarrow> int \<Rightarrow> int" where
  "ghost_aabb_max center ext v a_half tau =
     (let t0 = center + ext; t1 = v * tau; t2 = a_half * tau; t3 = t2 * tau; t4 = t1 + t3; t5 = t0 + t4 in t5)"

definition aabb_overlaps :: "aabb \<Rightarrow> aabb \<Rightarrow> bool" where
  "aabb_overlaps a o' \<longleftrightarrow> min_x a \<le> max_x o' \<and> max_x a \<ge> min_x o' \<and> min_y a \<le> max_y o' \<and>
     max_y a \<ge> min_y o' \<and> min_z a \<le> max_z o' \<and> max_z a \<ge> min_z o'"

definition ENTITY_EXT_UM :: int where "ENTITY_EXT_UM = 500000"
definition ACCEL_HALF_UM :: int where "ACCEL_HALF_UM = 0"
definition GHOST_TICKS :: int where "GHOST_TICKS = 2"

definition ghost_aabb_of :: "packet \<Rightarrow> aabb" where
  "ghost_aabb_of e =
     (let vmax = XR_PACKET_V_MAX;
          vx = (pk_vel_x e * vmax) sdiv 32767; vy = (pk_vel_y e * vmax) sdiv 32767; vz = (pk_vel_z e * vmax) sdiv 32767
      in \<lparr>min_x = ghost_aabb_min (pk_pos_um_x e) ENTITY_EXT_UM vx ACCEL_HALF_UM GHOST_TICKS,
          max_x = ghost_aabb_max (pk_pos_um_x e) ENTITY_EXT_UM vx ACCEL_HALF_UM GHOST_TICKS,
          min_y = ghost_aabb_min (pk_pos_um_y e) ENTITY_EXT_UM vy ACCEL_HALF_UM GHOST_TICKS,
          max_y = ghost_aabb_max (pk_pos_um_y e) ENTITY_EXT_UM vy ACCEL_HALF_UM GHOST_TICKS,
          min_z = ghost_aabb_min (pk_pos_um_z e) ENTITY_EXT_UM vz ACCEL_HALF_UM GHOST_TICKS,
          max_z = ghost_aabb_max (pk_pos_um_z e) ENTITY_EXT_UM vz ACCEL_HALF_UM GHOST_TICKS\<rparr>)"

section \<open>The fan-out\<close>

definition MAX_SLICE_ENTITIES :: nat where "MAX_SLICE_ENTITIES = 64"

text \<open>\<open>batch\<close> is the static buffer: it comes in as the last call left it and goes out again.\<close>

fun fanout_pack :: "aabb \<Rightarrow> packet list \<Rightarrow> nat \<Rightarrow> bytes \<Rightarrow> nat \<times> bytes" where
  "fanout_pack interest [] out batch = (out, batch)"
| "fanout_pack interest (e # es) out batch =
     (if out \<ge> MAX_SLICE_ENTITIES then (out, batch)
      else if \<not> aabb_overlaps (ghost_aabb_of e) interest then fanout_pack interest es out batch
      else fanout_pack interest es (out + 1) (put_at (out * XR_PACKET_SIZE) (packet_encode e) batch))"

text \<open>The number of entities sent, what the subscriber's sink is handed, and the buffer.\<close>

definition fanout_one :: "aabb \<Rightarrow> packet list \<Rightarrow> bytes \<Rightarrow> nat \<times> bytes option \<times> bytes" where
  "fanout_one interest ents batch =
     (let (out, batch) = fanout_pack interest ents 0 batch
      in (out, if out > 0 then Some (take (out * XR_PACKET_SIZE) batch) else None, batch))"

fun fanout_tick :: "aabb list \<Rightarrow> packet list \<Rightarrow> bytes \<Rightarrow> bytes option list \<times> bytes" where
  "fanout_tick [] ents batch = ([], batch)"
| "fanout_tick (sub # subs) ents batch =
     (let (_, sent, batch) = fanout_one sub ents batch; (sents, batch) = fanout_tick subs ents batch
      in (sent # sents, batch))"

text \<open>The bridge: the sink only counts.\<close>

definition count_only :: "nat \<Rightarrow> bytes option \<Rightarrow> nat" where
  "count_only subscriber sent = (case sent of None \<Rightarrow> subscriber | Some buf \<Rightarrow> subscriber + length buf)"

definition bench_fanout_one :: "int list \<Rightarrow> packet list \<Rightarrow> nat \<Rightarrow> bytes \<Rightarrow> nat \<times> nat \<times> bytes" where
  "bench_fanout_one interest ents bytes batch =
     (let box = \<lparr>min_x = interest ! 0, max_x = interest ! 1, min_y = interest ! 2, max_y = interest ! 3,
                 min_z = interest ! 4, max_z = interest ! 5\<rparr>;
          (out, sent, batch) = fanout_one box ents batch
      in (out, bytes + count_only 0 sent, batch))"

section \<open>The codec\<close>

lemma length_codec [simp]: "length (xr_pu32 v) = 4" "length (xr_pi64 i) = 8" "length (xr_pi16 i) = 2"
  by (simp_all add: xr_pu32_def xr_pi64_def xr_pi16_def Let_def)

lemma join_byte:
  fixes w :: "'a::len word"
  shows "take_bit n w OR push_bit n (ucast (ucast (drop_bit n w) :: u8)) = take_bit (n + 8) w"
  by (rule bit_word_eqI) (auto simp: bit_simps)

lemma first_byte: "(ucast (ucast w :: u8) :: 'a::len word) = take_bit 8 w"
  by (rule bit_word_eqI) (auto simp: bit_simps)

lemma sint_back: "- (2 ^ (LENGTH('a) - 1)) \<le> v \<Longrightarrow> v < 2 ^ (LENGTH('a) - 1) \<Longrightarrow> sint (word_of_int v :: 'a::len word) = v"
  by (simp only: sint_sbintrunc' signed_take_bit_int_eq_self_iff)

lemma gu32_pu32 [simp]: "xr_gu32 (xr_pu32 v @ bs) = v"
  using join_byte [of 8 v] join_byte [of 16 v] join_byte [of 24 v]
  by (simp add: xr_gu32_def xr_pu32_def first_byte or.assoc [symmetric] take_bit_word_eq_self)

lemma gi16_pi16 [simp]: "i16 v \<Longrightarrow> xr_gi16 (xr_pi16 v @ bs) = v"
  using join_byte [of 8 "word_of_int v :: 16 word"]
  by (simp add: xr_gi16_def xr_pi16_def first_byte Let_def i16_def sint_back take_bit_word_eq_self)

lemma join_bytes:
  fixes w :: u64
  shows "fold (\<lambda>i u. u OR push_bit (i * 8) (ucast (ucast (drop_bit (i * 8) w) :: u8))) [0..<n] 0 = take_bit (n * 8) w"
  by (induction n) (simp_all add: join_byte add.commute)

lemma gi64_pi64 [simp]: "i64 v \<Longrightarrow> xr_gi64 (xr_pi64 v @ bs) = v"
proof -
  assume v: "i64 v"
  have "fold (\<lambda>i u. u OR push_bit (i * 8) (ucast ((xr_pi64 v @ bs) ! i))) [0..<8] (0 :: u64)
      = fold (\<lambda>i u. u OR push_bit (i * 8) (ucast (ucast (drop_bit (i * 8) (word_of_int v :: u64)) :: u8))) [0..<8] 0"
    by (rule fold_cong) (auto simp: xr_pi64_def nth_append)
  also have "\<dots> = word_of_int v" unfolding join_bytes by (simp add: take_bit_word_eq_self)
  finally show ?thesis using v by (simp add: xr_gi64_def i64_def sint_back)
qed

lemma write_each:
  "k + n \<le> length out \<Longrightarrow> fold (\<lambda>i out. out[k + i := f i]) [0..<n] out = take k out @ map f [0..<n] @ drop (k + n) out"
proof (induction n)
  case (Suc n)
  have "drop (k + n) out = out ! (k + n) # drop (Suc (k + n)) out" using Suc.prems by (simp add: Cons_nth_drop_Suc)
  then show ?case using Suc by (simp add: list_update_append)
qed simp

text \<open>Writes one behind the other.\<close>

abbreviation put_all :: "(nat \<times> bytes) list \<Rightarrow> bytes \<Rightarrow> bytes" where
  "put_all ws out \<equiv> fold (\<lambda>(off, bs) out. put_at off bs out) ws out"

fun in_turn :: "nat \<Rightarrow> (nat \<times> bytes) list \<Rightarrow> bool" where
  "in_turn k [] = True"
| "in_turn k ((off, bs) # ws) = (off = k \<and> in_turn (k + length bs) ws)"

lemma put_in_turn:
  "in_turn (length xs) ws \<Longrightarrow>
     put_all ws (xs @ replicate n 0) = xs @ concat (map snd ws) @ replicate (n - length (concat (map snd ws))) 0"
proof (induction ws arbitrary: xs n)
  case (Cons w ws)
  obtain off bs where w: "w = (off, bs)" by fastforce
  have "put_at off bs (xs @ replicate n 0) = (xs @ bs) @ replicate (n - length bs) 0"
    using Cons.prems w by (simp add: put_at_def)
  then show ?case using Cons.IH [of "xs @ bs"] Cons.prems w by simp
qed simp

text \<open>The layout of an encoded packet; six bytes are in no field.\<close>

lemma packet_encode_fields:
  assumes "length (pk_payload p) = XR_PACKET_PAYLOAD_LEN"
  shows "packet_encode p = xr_pu32 (pk_gid p) @ xr_pi64 (pk_pos_um_x p) @ xr_pi64 (pk_pos_um_y p) @ xr_pi64 (pk_pos_um_z p)
    @ xr_pi16 (pk_vel_x p) @ xr_pi16 (pk_vel_y p) @ xr_pi16 (pk_vel_z p) @ replicate 6 0 @ xr_pu32 (pk_hlc p)
    @ xr_pu32 (pk_class_owner p) @ xr_pu32 (pk_sub_index p)
    @ xr_pi16 (pk_rot_x p) @ xr_pi16 (pk_rot_y p) @ xr_pi16 (pk_rot_z p) @ pk_payload p"
proof -
  let ?ws1 = "[(0 :: nat, xr_pu32 (pk_gid p)), (4, xr_pi64 (pk_pos_um_x p)), (12, xr_pi64 (pk_pos_um_y p)), (20, xr_pi64 (pk_pos_um_z p)),
     (28, xr_pi16 (pk_vel_x p)), (30, xr_pi16 (pk_vel_y p)), (32, xr_pi16 (pk_vel_z p))]"
  let ?ws2 = "[(40 :: nat, xr_pu32 (pk_hlc p)), (44, xr_pu32 (pk_class_owner p)), (48, xr_pu32 (pk_sub_index p)),
     (52, xr_pi16 (pk_rot_x p)), (54, xr_pi16 (pk_rot_y p)), (56, xr_pi16 (pk_rot_z p))]"
  let ?as = "concat (map snd ?ws1)" and ?bs = "concat (map snd ?ws2)"
  have gap: "replicate 66 (0 :: u8) = replicate 6 0 @ replicate 60 0" by (simp add: replicate_add [symmetric])
  have "put_all ?ws1 (replicate 100 0) = (?as @ replicate 6 0) @ replicate 60 0"
    using put_in_turn [of "[]" ?ws1 100] by (simp add: gap)
  moreover have "put_all ?ws2 ((?as @ replicate 6 0) @ replicate 60 0) = (?as @ replicate 6 0) @ ?bs @ replicate 42 0"
    by (subst put_in_turn) simp_all
  moreover have "map ((!) (pk_payload p)) [0..<42] = pk_payload p"
    using assms by (metis XR_PACKET_PAYLOAD_LEN_def map_nth)
  ultimately show ?thesis
    by (simp add: packet_encode_def Let_def packet_layout write_each)
qed

lemma length_encode [simp]: "length (pk_payload p) = XR_PACKET_PAYLOAD_LEN \<Longrightarrow> length (packet_encode p) = XR_PACKET_SIZE"
  by (simp add: packet_encode_fields packet_layout)

lemma read_each: "k + n \<le> length b \<Longrightarrow> map (\<lambda>i. b ! (k + i)) [0..<n] = take n (drop k b)"
  by (rule nth_equalityI) simp_all

lemma decode_encode:
  assumes "packet_ok p"
  shows "packet_decode (packet_encode p @ bs) = p"
  using assms
  by (cases p) (simp add: packet_ok_def packet_decode_def packet_encode_fields packet_layout read_each)

section \<open>The slice\<close>

text \<open>What one subscriber is to get: the first of the entities whose boxes meet its interest.\<close>

definition slice :: "aabb \<Rightarrow> packet list \<Rightarrow> packet list" where
  "slice interest ents = take MAX_SLICE_ENTITIES (filter (\<lambda>e. aabb_overlaps (ghost_aabb_of e) interest) ents)"

definition packed :: "packet list \<Rightarrow> bytes" where
  "packed ps = concat (map packet_encode ps)"

text \<open>The receiver: the count is the length divided by the size of a packet.\<close>

definition unpacked :: "bytes \<Rightarrow> packet list" where
  "unpacked bs = map (\<lambda>k. packet_decode (drop (k * XR_PACKET_SIZE) bs)) [0..<length bs div XR_PACKET_SIZE]"

lemma length_packed: "\<forall>p \<in> set ps. packet_ok p \<Longrightarrow> length (packed ps) = length ps * XR_PACKET_SIZE"
  by (induction ps) (simp_all add: packed_def packet_ok_def)

lemma unpacked_cons:
  assumes "length b = XR_PACKET_SIZE"
  shows "unpacked (b @ bs) = packet_decode (b @ bs) # unpacked bs"
proof -
  have n: "length (b @ bs) div XR_PACKET_SIZE = Suc (length bs div XR_PACKET_SIZE)"
    using assms by (simp add: XR_PACKET_SIZE_def)
  show ?thesis
    unfolding unpacked_def n upt_conv_Cons [OF zero_less_Suc] map_Suc_upt [symmetric]
    using assms by simp
qed

lemma unpacked_packed: "\<forall>p \<in> set ps. packet_ok p \<Longrightarrow> unpacked (packed ps) = ps"
proof (induction ps)
  case Nil
  then show ?case by (simp add: unpacked_def packed_def)
next
  case (Cons p ps)
  then have "length (packet_encode p) = XR_PACKET_SIZE" by (simp add: packet_ok_def)
  then show ?case using Cons by (simp add: packed_def unpacked_cons decode_encode)
qed

lemma put_at_ends:
  "length out \<ge> off + length bs \<Longrightarrow> length (put_at off bs out) = length out
     \<and> take (off + length bs) (put_at off bs out) = take off out @ bs"
  by (cases bs) (auto simp: put_at_def min_def)

lemma fanout_pack_slice:
  assumes "fanout_pack interest es out batch = (out', batch')" and "out \<le> MAX_SLICE_ENTITIES"
    and "length batch = MAX_SLICE_ENTITIES * XR_PACKET_SIZE" and "\<forall>e \<in> set es. packet_ok e"
  shows "let ps = take (MAX_SLICE_ENTITIES - out) (filter (\<lambda>e. aabb_overlaps (ghost_aabb_of e) interest) es) in
     out' = out + length ps \<and> length batch' = length batch
     \<and> take (out' * XR_PACKET_SIZE) batch' = take (out * XR_PACKET_SIZE) batch @ packed ps"
  using assms
proof (induction interest es out batch rule: fanout_pack.induct)
  case (2 interest e es out batch)
  let ?b = "put_at (out * XR_PACKET_SIZE) (packet_encode e) batch"
  consider "out \<ge> MAX_SLICE_ENTITIES" | "out < MAX_SLICE_ENTITIES" "\<not> aabb_overlaps (ghost_aabb_of e) interest"
    | "out < MAX_SLICE_ENTITIES" "aabb_overlaps (ghost_aabb_of e) interest" by linarith
  then show ?case
  proof cases
    case 1
    then show ?thesis using 2 by (simp add: packed_def)
  next
    case c: 2
    then show ?thesis using 2 by (auto simp: Let_def)
  next
    case c: 3
    have e: "length (packet_encode e) = XR_PACKET_SIZE" using 2 by (simp add: packet_ok_def)
    have room: "out * XR_PACKET_SIZE + length (packet_encode e) \<le> length batch"
      using c(1) 2(5) e by (simp add: XR_PACKET_SIZE_def MAX_SLICE_ENTITIES_def)
    have "MAX_SLICE_ENTITIES - out = Suc (MAX_SLICE_ENTITIES - (out + 1))" using c(1) by simp
    moreover have "take ((out + 1) * XR_PACKET_SIZE) ?b = take (out * XR_PACKET_SIZE) batch @ packet_encode e"
      using put_at_ends [OF room] e by (simp add: add.commute)
    ultimately show ?thesis using 2 c put_at_ends [OF room] by (auto simp: Let_def packed_def)
  qed
qed (simp add: packed_def)

lemma fanout_one_slice:
  assumes "length batch = MAX_SLICE_ENTITIES * XR_PACKET_SIZE" and "\<forall>e \<in> set ents. packet_ok e"
  obtains batch' where "fanout_one interest ents batch =
      (length (slice interest ents), if slice interest ents = [] then None else Some (packed (slice interest ents)), batch')"
    and "length batch' = length batch"
proof -
  obtain out batch' where p: "fanout_pack interest ents 0 batch = (out, batch')" by fastforce
  show ?thesis
    using that [of batch'] fanout_pack_slice [OF p] assms p
    by (auto simp: fanout_one_def slice_def [symmetric] Let_def)
qed

lemma fanout_tick_slices:
  assumes "\<forall>e \<in> set ents. packet_ok e"
  shows "length batch = MAX_SLICE_ENTITIES * XR_PACKET_SIZE \<Longrightarrow> fst (fanout_tick subs ents batch) =
    map (\<lambda>sub. if slice sub ents = [] then None else Some (packed (slice sub ents))) subs"
proof (induction subs arbitrary: batch)
  case (Cons sub subs)
  from Cons.prems obtain batch' where "fanout_one sub ents batch =
      (length (slice sub ents), if slice sub ents = [] then None else Some (packed (slice sub ents)), batch')"
    "length batch' = length batch" using assms by (rule fanout_one_slice)
  then show ?case using Cons by (simp add: case_prod_beta)
qed simp

section \<open>What a ghost covers\<close>

text \<open>The box of an entity that has moved for some ticks.\<close>

definition speed_um :: "int \<Rightarrow> int" where
  "speed_um vel = (vel * XR_PACKET_V_MAX) sdiv 32767"

definition box_after :: "int \<Rightarrow> packet \<Rightarrow> aabb" where
  "box_after t e =
     \<lparr>min_x = pk_pos_um_x e + t * speed_um (pk_vel_x e) - ENTITY_EXT_UM, max_x = pk_pos_um_x e + t * speed_um (pk_vel_x e) + ENTITY_EXT_UM,
      min_y = pk_pos_um_y e + t * speed_um (pk_vel_y e) - ENTITY_EXT_UM, max_y = pk_pos_um_y e + t * speed_um (pk_vel_y e) + ENTITY_EXT_UM,
      min_z = pk_pos_um_z e + t * speed_um (pk_vel_z e) - ENTITY_EXT_UM, max_z = pk_pos_um_z e + t * speed_um (pk_vel_z e) + ENTITY_EXT_UM\<rparr>"

lemma ghost_of:
  "ghost_aabb_of e =
     \<lparr>min_x = pk_pos_um_x e - ENTITY_EXT_UM - 2 * speed_um (pk_vel_x e), max_x = pk_pos_um_x e + ENTITY_EXT_UM + 2 * speed_um (pk_vel_x e),
      min_y = pk_pos_um_y e - ENTITY_EXT_UM - 2 * speed_um (pk_vel_y e), max_y = pk_pos_um_y e + ENTITY_EXT_UM + 2 * speed_um (pk_vel_y e),
      min_z = pk_pos_um_z e - ENTITY_EXT_UM - 2 * speed_um (pk_vel_z e), max_z = pk_pos_um_z e + ENTITY_EXT_UM + 2 * speed_um (pk_vel_z e)\<rparr>"
  by (simp add: ghost_aabb_of_def Let_def ghost_aabb_min_def ghost_aabb_max_def ACCEL_HALF_UM_def GHOST_TICKS_def speed_um_def)

lemma speed_nonneg: "0 \<le> vel \<Longrightarrow> 0 \<le> speed_um vel"
  by (simp add: speed_um_def XR_PACKET_V_MAX_def sdiv_ge_0)

lemma moved_within: "0 \<le> t \<Longrightarrow> t \<le> 2 \<Longrightarrow> 0 \<le> v \<Longrightarrow> 0 \<le> t * v \<and> t * v \<le> 2 * v" for t v :: int
  by (simp add: mult_right_mono)

lemma ghost_covers:
  assumes "0 \<le> t" "t \<le> 2" "0 \<le> pk_vel_x e" "0 \<le> pk_vel_y e" "0 \<le> pk_vel_z e" and "aabb_overlaps (box_after t e) b"
  shows "aabb_overlaps (ghost_aabb_of e) b"
  using assms(6) moved_within [OF assms(1,2)] speed_nonneg [OF assms(3)] speed_nonneg [OF assms(4)] speed_nonneg [OF assms(5)]
  by (fastforce simp: ghost_of box_after_def aabb_overlaps_def)

end
