(* ===== verification/Fanout_Theorems.thy ===== *)
theory Fanout_Theorems
  imports Fanout
begin

text \<open>
  What the fan-out promises: packets that read back, slices that are a filter of the entities, and boxes that reach as
  far as an entity moves; and the entities that move the other way, which are left out.
\<close>

definition ex_packet :: "int \<Rightarrow> int \<Rightarrow> packet" where
  "ex_packet x vel = \<lparr>pk_gid = 7, pk_pos_um_x = x, pk_pos_um_y = - 5, pk_pos_um_z = 1000000, pk_vel_x = vel, pk_vel_y = 0, pk_vel_z = 0,
     pk_hlc = 0, pk_class_owner = push_bit 24 1, pk_sub_index = 3, pk_rot_x = 0, pk_rot_y = - 32767, pk_rot_z = 1,
     pk_payload = replicate 42 0\<rparr>"

lemma ex_packet_ok: "i64 x \<Longrightarrow> i16 vel \<Longrightarrow> packet_ok (ex_packet x vel)"
  by (simp add: packet_ok_def ex_packet_def i16_def i64_def XR_PACKET_PAYLOAD_LEN_def)

text \<open>C28. A packet is read back exactly: it takes 100 bytes, a reader gets every field of it whatever comes behind, and the
  bytes that are in no field are zero.\<close>

theorem packet_reads_back:
  assumes "packet_ok p"
  shows "length (packet_encode p) = 100 \<and> packet_decode (packet_encode p @ bs) = p
    \<and> take 6 (drop 34 (packet_encode p)) = replicate 6 0"
  using assms decode_encode [OF assms] by (simp add: packet_ok_def packet_encode_fields XR_PACKET_PAYLOAD_LEN_def)

theorem packet_reads_back_witness:
  "packet_decode (packet_encode (ex_packet (- 9) 4) @ [1, 2]) = ex_packet (- 9) 4"
  using packet_reads_back [OF ex_packet_ok, of "- 9" 4 "[1, 2]"] by (simp add: i16_def i64_def)

text \<open>C27. A tick sends every subscriber its slice and nothing else: the first 64 of the entities whose boxes meet its
  interest, in their order, in one write, or no write when there are none; nothing is left over from the slice of another
  subscriber or of an earlier tick, and the receiver that divides the length by 100 gets exactly those packets.\<close>

theorem fanout_sends_slices:
  assumes "length batch = MAX_SLICE_ENTITIES * XR_PACKET_SIZE" and "\<forall>e \<in> set ents. packet_ok e"
  shows "fst (fanout_tick subs ents batch) =
      map (\<lambda>sub. if slice sub ents = [] then None else Some (packed (slice sub ents))) subs
    \<and> (\<forall>sub. length (packed (slice sub ents)) div 100 = length (slice sub ents) \<and> unpacked (packed (slice sub ents)) = slice sub ents)"
proof -
  have "\<forall>e \<in> set (slice sub ents). packet_ok e" for sub using assms(2) by (auto simp: slice_def dest!: in_set_takeD)
  then show ?thesis
    using fanout_tick_slices [OF assms(2,1)] by (simp add: length_packed unpacked_packed XR_PACKET_SIZE_def)
qed

definition ex_box :: "int \<Rightarrow> int \<Rightarrow> aabb" where
  "ex_box a b = \<lparr>min_x = a, max_x = b, min_y = - 10, max_y = 10, min_z = 0, max_z = 2000000\<rparr>"

theorem fanout_sends_slices_witness:
  "fst (fanout_tick [ex_box 0 10, ex_box (10 ^ 9) (10 ^ 9 + 1)] [ex_packet 5 0, ex_packet (10 ^ 8) 0] (replicate 6400 0)) =
     [Some (packed [ex_packet 5 0]), None]"
proof -
  have "slice (ex_box 0 10) [ex_packet 5 0, ex_packet (10 ^ 8) 0] = [ex_packet 5 0]"
    and "slice (ex_box (10 ^ 9) (10 ^ 9 + 1)) [ex_packet 5 0, ex_packet (10 ^ 8) 0] = []"
    by (simp_all add: slice_def MAX_SLICE_ENTITIES_def ghost_of aabb_overlaps_def ex_box_def ex_packet_def speed_um_def
        XR_PACKET_V_MAX_def ENTITY_EXT_UM_def)
  moreover have "\<forall>e \<in> set [ex_packet 5 0, ex_packet (10 ^ 8) 0]. packet_ok e" by (simp add: ex_packet_ok i16_def i64_def)
  ultimately show ?thesis
    using fanout_sends_slices [of "replicate 6400 0" "[ex_packet 5 0, ex_packet (10 ^ 8) 0]"
        "[ex_box 0 10, ex_box (10 ^ 9) (10 ^ 9 + 1)]"]
    by (simp add: MAX_SLICE_ENTITIES_def XR_PACKET_SIZE_def)
qed

text \<open>The boxes are computed in \<open>int64_t\<close>, and in the model on integers: for coordinates below \<open>2^62\<close> micrometres, which is four and
  a half million kilometres, no product and no sum leaves the type.\<close>

lemma ghost_box_fits:
  assumes "i16 v" and "\<bar>x\<bar> \<le> 2 ^ 62"
  shows "i64 (v * XR_PACKET_V_MAX) \<and> i64 (ghost_aabb_min x ENTITY_EXT_UM ((v * XR_PACKET_V_MAX) sdiv 32767) ACCEL_HALF_UM GHOST_TICKS)
    \<and> i64 (ghost_aabb_max x ENTITY_EXT_UM ((v * XR_PACKET_V_MAX) sdiv 32767) ACCEL_HALF_UM GHOST_TICKS)"
proof -
  let ?u = "(v * XR_PACKET_V_MAX) sdiv 32767"
  have "\<bar>v * XR_PACKET_V_MAX\<bar> \<le> 16384000000" using assms(1) by (simp add: i16_def XR_PACKET_V_MAX_def abs_le_iff)
  moreover have "b div 32767 \<le> b" if "0 \<le> b" for b :: int using that zdiv_mono2 [of b 1 32767] by simp
  then have "\<bar>a sdiv 32767\<bar> \<le> \<bar>a\<bar>" for a :: int
    by (simp add: signed_divide_int_def abs_mult abs_sgn_eq pos_imp_zdiv_nonneg_iff)
  ultimately have "\<bar>?u\<bar> \<le> 16384000000" "\<bar>v * XR_PACKET_V_MAX\<bar> \<le> 16384000000"
    by (meson order_trans)+
  then show ?thesis
    using assms(2) by (simp add: i64_def ghost_aabb_min_def ghost_aabb_max_def ENTITY_EXT_UM_def ACCEL_HALF_UM_def GHOST_TICKS_def
        Let_def abs_le_iff)
qed

text \<open>C29. An entity that moves towards larger coordinates, or stands, is not missed: when its box meets a subscriber's interest
  now or after one or two ticks at its speed, the filter lets it through now.\<close>

theorem ghost_covers_two_ticks:
  assumes "0 \<le> t" and "t \<le> 2" and "0 \<le> pk_vel_x e" and "0 \<le> pk_vel_y e" and "0 \<le> pk_vel_z e"
    and "aabb_overlaps (box_after t e) interest"
  shows "slice interest [e] = [e]"
  using ghost_covers [OF assms] by (simp add: slice_def MAX_SLICE_ENTITIES_def)

theorem ghost_covers_two_ticks_witness: "slice (ex_box 1500000 2000000) [ex_packet 0 32767] = [ex_packet 0 32767]"
proof -
  have "aabb_overlaps (box_after 2 (ex_packet 0 32767)) (ex_box 1500000 2000000)"
    by (simp add: aabb_overlaps_def box_after_def ex_box_def ex_packet_def speed_um_def XR_PACKET_V_MAX_def ENTITY_EXT_UM_def)
  then show ?thesis using ghost_covers_two_ticks [of 2 "ex_packet 0 32767"] by (simp add: ex_packet_def)
qed

text \<open>One that moves the other way is: its box shrinks, by twice its speed on either side, and an entity in the middle of a
  subscriber's interest is not sent.\<close>

lemma receding_entity_is_missed:
  "slice (ex_box (- 400000) 400000) [ex_packet 0 (- 32767)] = []
   \<and> aabb_overlaps (box_after 0 (ex_packet 0 (- 32767))) (ex_box (- 400000) 400000)"
  by (simp add: slice_def ghost_of aabb_overlaps_def box_after_def ex_box_def ex_packet_def speed_um_def XR_PACKET_V_MAX_def
      ENTITY_EXT_UM_def)

end
