(* ===== verification/Bench.thy ===== *)
theory Bench
  imports Scene Fanout
begin

text \<open>
  The player benchmark, \<open>src/bench/bench_players.c\<close>: how a tick encodes the entities and what it hands to the fan-out, the
  median of a run, and the ramp that raises the number of players until a tick misses its budget. Doubles, the clocks
  and MuJoCo are parameters; the fan-out is that of \<open>Fanout\<close>. Pinning to a core and what is printed are left out.
\<close>

section \<open>Numbers\<close>

record 'd bench_dbl = "'d dbl" +
  d_div :: "'d \<Rightarrow> 'd \<Rightarrow> 'd"
  d_llround :: "'d \<Rightarrow> int"
  d_lrint :: "'d \<Rightarrow> int"
  d_f :: "nat \<Rightarrow> 'd \<Rightarrow> string"

text \<open>The conversion to \<open>int16_t\<close>.\<close>

definition to_i16 :: "int \<Rightarrow> int" where
  "to_i16 v = sint (word_of_int v :: 16 word)"

definition um :: "'d bench_dbl \<Rightarrow> 'd \<Rightarrow> int" where
  "um D metres = d_llround D (d_mul D metres (d_int D 1000000))"

definition vel_i16 :: "'d bench_dbl \<Rightarrow> 'd \<Rightarrow> 'd \<Rightarrow> int" where
  "vel_i16 D speed hz =
     (let per_tick_um = d_div D (d_mul D speed (d_int D 1000000)) hz;
          scaled = d_div D (d_mul D per_tick_um (d_int D 32767)) (d_int D XR_PACKET_V_MAX);
          scaled = (if d_less D (d_int D 32767) scaled then d_int D 32767 else scaled);
          scaled = (if d_less D scaled (d_int D (- 32768)) then d_int D (- 32768) else scaled)
      in to_i16 (d_lrint D scaled))"

section \<open>One tick\<close>

text \<open>What MuJoCo has per body: position, spatial velocity, orientation.\<close>

record 'd bodies =
  xpos :: "'d list list"
  cvel :: "'d list list"
  xquat :: "'d list list"

definition encode_entity :: "'d bench_dbl \<Rightarrow> int \<Rightarrow> int \<Rightarrow> 'd \<Rightarrow> 'd bodies \<Rightarrow> nat \<Rightarrow> packet" where
  "encode_entity D cubes per_player hz d e =
     (let b = e + 1; is_avatar = int e \<ge> cubes in
      \<lparr>pk_gid = word_of_nat b,
       pk_pos_um_x = um D (xpos d ! b ! 0), pk_pos_um_y = um D (xpos d ! b ! 1), pk_pos_um_z = um D (xpos d ! b ! 2),
       pk_vel_x = vel_i16 D (cvel d ! b ! 3) hz, pk_vel_y = vel_i16 D (cvel d ! b ! 4) hz, pk_vel_z = vel_i16 D (cvel d ! b ! 5) hz,
       pk_hlc = 0,
       pk_class_owner = (if is_avatar then push_bit 24 2 OR word_of_int ((int e - cubes) sdiv per_player) else push_bit 24 1),
       pk_sub_index = (if is_avatar then word_of_int ((int e - cubes) smod per_player) else word_of_nat e),
       pk_rot_x = to_i16 (d_lrint D (d_mul D (xquat d ! b ! 1) (d_int D 32767))),
       pk_rot_y = to_i16 (d_lrint D (d_mul D (xquat d ! b ! 2) (d_int D 32767))),
       pk_rot_z = to_i16 (d_lrint D (d_mul D (xquat d ! b ! 3) (d_int D 32767))),
       pk_payload = replicate XR_PACKET_PAYLOAD_LEN 0\<rparr>)"

text \<open>The packets come zeroed from \<open>calloc\<close> and no tick writes their payload.\<close>

definition encode_tick :: "'d bench_dbl \<Rightarrow> int \<Rightarrow> int \<Rightarrow> int \<Rightarrow> 'd \<Rightarrow> 'd bodies \<Rightarrow> packet list" where
  "encode_tick D cubes per_player players hz d =
     map (encode_entity D cubes per_player hz d) [0..<nat (cubes + players * per_player)]"

definition interest_box :: "int \<Rightarrow> packet \<Rightarrow> int list" where
  "interest_box interest_um me =
     [pk_pos_um_x me - interest_um, pk_pos_um_x me + interest_um,
      pk_pos_um_y me - interest_um, pk_pos_um_y me + interest_um,
      pk_pos_um_z me - interest_um, pk_pos_um_z me + interest_um]"

text \<open>The loop over the subscribers; \<open>batch\<close> is the static buffer of the fan-out.\<close>

fun fan_out :: "int \<Rightarrow> int \<Rightarrow> int \<Rightarrow> packet list \<Rightarrow> nat list \<Rightarrow> nat \<times> nat \<times> bytes \<Rightarrow> nat \<times> nat \<times> bytes" where
  "fan_out cubes per_player interest_um pks [] acc = acc"
| "fan_out cubes per_player interest_um pks (s # ss) (sent, bytes, batch) =
     (let me = pks ! nat (cubes + int s * per_player);
          (n, bytes, batch) = bench_fanout_one (interest_box interest_um me) pks bytes batch in
      fan_out cubes per_player interest_um pks ss (sent + n, bytes, batch))"

record 'd spent =
  sp_simulate :: 'd
  sp_encode :: 'd
  sp_slice :: 'd
  sp_total :: 'd
  sp_ncon :: nat
  sp_sent :: nat
  sp_bytes :: nat

text \<open>What the run is given: the clock by the number of its reading and MuJoCo's world with its tracked bodies.\<close>

record ('d, 'p) bench_env =
  be_num :: "'d bench_dbl"
  be_now_ms :: "nat \<Rightarrow> 'd"
  be_init :: "string \<Rightarrow> 'p option"
  be_nbody :: "'p \<Rightarrow> int"
  be_mocap :: "'p \<Rightarrow> 'd list"
  be_set_mocap :: "'d list \<Rightarrow> 'p \<Rightarrow> 'p"
  be_step :: "'p \<Rightarrow> 'p"
  be_bodies :: "'p \<Rightarrow> 'd bodies"
  be_ncon :: "'p \<Rightarrow> nat"

record 'd run_cfg =
  rc_players :: int
  rc_cubes :: int
  rc_per_player :: int
  rc_substeps :: nat
  rc_publish_hz :: 'd
  rc_interest_um :: int

text \<open>A run's state: the world, the tick, the readings of the clock so far, and the buffer of the fan-out.\<close>

record 'p run_state =
  rs_world :: 'p
  rs_tick :: nat
  rs_clock :: nat
  rs_batch :: bytes

definition drive_avatars :: "('d, 'p) bench_env \<Rightarrow> 'd list \<Rightarrow> nat \<Rightarrow> 'p \<Rightarrow> 'p" where
  "drive_avatars E home tick world =
     (let D = be_num E in
      be_set_mocap E (concat (map (\<lambda>i.
        let phase = d_add D (d_mul D (d_int D (int tick)) (d_lit D 5 2)) (d_int D (int i)) in
        [d_add D (home ! (3 * i)) (d_mul D (d_lit D 3 1) (d_sin D phase)),
         d_add D (home ! (3 * i + 1)) (d_mul D (d_lit D 3 1) (d_cos D phase)),
         home ! (3 * i + 2)]) [0..<length (be_mocap E world) div 3])) world)"

definition one_tick :: "('d, 'p) bench_env \<Rightarrow> 'd run_cfg \<Rightarrow> 'd list \<Rightarrow> 'p run_state \<Rightarrow> 'd spent \<times> 'p run_state" where
  "one_tick E c home s =
     (let D = be_num E; t0 = be_now_ms E (rs_clock s);
          world = (be_step E ^^ rc_substeps c) (drive_avatars E home (rs_tick s) (rs_world s));
          t1 = be_now_ms E (rs_clock s + 1);
          pks = encode_tick D (rc_cubes c) (rc_per_player c) (rc_players c) (rc_publish_hz c) (be_bodies E world);
          t2 = be_now_ms E (rs_clock s + 2);
          (n, bytes, batch) = fan_out (rc_cubes c) (rc_per_player c) (rc_interest_um c) pks [0..<nat (rc_players c)] (0, 0, rs_batch s);
          t3 = be_now_ms E (rs_clock s + 3)
      in (\<lparr>sp_simulate = d_sub D t1 t0, sp_encode = d_sub D t2 t1, sp_slice = d_sub D t3 t2, sp_total = d_sub D t3 t0,
           sp_ncon = be_ncon E world, sp_sent = n, sp_bytes = bytes\<rparr>,
          \<lparr>rs_world = world, rs_tick = rs_tick s + 1, rs_clock = rs_clock s + 4, rs_batch = batch\<rparr>))"

section \<open>A run\<close>

fun ticks_of :: "('d, 'p) bench_env \<Rightarrow> 'd run_cfg \<Rightarrow> 'd list \<Rightarrow> nat \<Rightarrow> 'p run_state \<Rightarrow> 'd spent list \<times> 'p run_state" where
  "ticks_of E c home 0 s = ([], s)"
| "ticks_of E c home (Suc n) s =
     (let (x, s) = one_tick E c home s; (xs, s) = ticks_of E c home n s in (x # xs, s))"

record 'd result =
  rt_median :: 'd
  rt_worst :: 'd
  rt_simulate :: 'd
  rt_encode :: 'd
  rt_slice :: 'd
  rt_ncon :: nat
  rt_entities :: int
  rt_sent :: nat
  rt_bytes :: nat

text \<open>\<open>qsort\<close> with the comparison of two doubles.\<close>

fun put_in :: "('d \<Rightarrow> 'd \<Rightarrow> bool) \<Rightarrow> 'd \<Rightarrow> 'd list \<Rightarrow> 'd list" where
  "put_in lt x [] = [x]"
| "put_in lt x (y # ys) = (if lt y x then y # put_in lt x ys else x # y # ys)"

definition sorted_by :: "('d \<Rightarrow> 'd \<Rightarrow> bool) \<Rightarrow> 'd list \<Rightarrow> 'd list" where
  "sorted_by lt xs = foldr (put_in lt) xs []"

record 'd bench_args =
  a_per_player :: int
  a_players :: int
  a_cubes :: int
  a_stack :: int
  a_pile :: int
  a_iters :: int
  a_ls_iters :: int
  a_ticks :: int
  a_core :: int
  a_ramp :: bool
  a_gate :: bool
  a_logbook :: "string option"
  a_sim_hz :: 'd
  a_publish_hz :: 'd
  a_interest_m :: 'd

definition result_of :: "'d bench_dbl \<Rightarrow> int \<Rightarrow> int \<Rightarrow> 'd spent list \<Rightarrow> 'd result" where
  "result_of D entities ticks xs =
     (let totals = map sp_total xs;
          mean = (\<lambda>f. d_div D (fold (\<lambda>x sum. d_add D sum (f x)) xs (d_int D 0)) (d_int D ticks)) in
      \<lparr>rt_median = sorted_by (d_less D) totals ! nat (ticks sdiv 2),
       rt_worst = fold (\<lambda>x worst. if d_less D worst x then x else worst) totals (d_int D 0),
       rt_simulate = mean sp_simulate, rt_encode = mean sp_encode, rt_slice = mean sp_slice,
       rt_ncon = sp_ncon (last xs), rt_entities = entities, rt_sent = sp_sent (last xs), rt_bytes = sp_bytes (last xs)\<rparr>)"

text \<open>\<open>got_scene\<close> and \<open>got_arrays\<close> say whether there was memory; \<open>clock\<close> is the readings made before and
  \<open>batch\<close> what the runs before left in the buffer. The result is \<open>None\<close> where
  the function returns 0.\<close>

definition run_at :: "('d, 'p) bench_env \<Rightarrow> 'd bench_args \<Rightarrow> bool \<Rightarrow> bool \<Rightarrow> nat \<Rightarrow> bytes \<Rightarrow> int \<Rightarrow> 'd result option" where
  "run_at E a got_scene got_arrays clock batch players =
     (let D = be_num E; entities = a_cubes a + players * a_per_player a;
          c = \<lparr>rc_players = players, rc_cubes = a_cubes a, rc_per_player = a_per_player a,
               rc_substeps = nat (d_lrint D (d_div D (a_sim_hz a) (a_publish_hz a))), rc_publish_hz = a_publish_hz a,
               rc_interest_um = um D (a_interest_m a)\<rparr> in
      case gaffer_scene (dbl.truncate D) got_scene players (a_cubes a) (a_stack a) (a_pile a) (a_iters a) (a_ls_iters a)
             (d_div D (d_int D 1) (a_sim_hz a)) of None \<Rightarrow> None
      | Some scene \<Rightarrow> (case be_init E scene of None \<Rightarrow> None
      | Some world \<Rightarrow>
          if be_nbody E world - 1 \<noteq> entities \<or> \<not> got_arrays then None else
          let home = be_mocap E world;
              (_, s) = ticks_of E c home (nat (a_ticks a sdiv 10 + 1)) \<lparr>rs_world = world, rs_tick = 0, rs_clock = clock, rs_batch = batch\<rparr>;
              (xs, _) = ticks_of E c home (nat (a_ticks a)) s in
          Some (result_of D entities (a_ticks a) xs)))"

section \<open>The arguments\<close>

text \<open>\<open>atof\<close> is a parameter; \<open>None\<close> is the end of the process with code 2.\<close>

fun bench_args_of :: "(string \<Rightarrow> 'd) \<Rightarrow> string list \<Rightarrow> 'd bench_args \<Rightarrow> 'd bench_args option" where
  "bench_args_of atof [] p = Some p"
| "bench_args_of atof (a # args) p =
     (if a = ''--ramp'' then bench_args_of atof args (p\<lparr>a_ramp := True\<rparr>)
      else if a = ''--gate'' then bench_args_of atof args (p\<lparr>a_gate := True\<rparr>)
      else case args of [] \<Rightarrow> None
      | v # args \<Rightarrow>
          if a = ''--per-player'' then bench_args_of atof args (p\<lparr>a_per_player := c_atoi v\<rparr>)
          else if a = ''--players'' then bench_args_of atof args (p\<lparr>a_players := c_atoi v\<rparr>)
          else if a = ''--cubes'' then bench_args_of atof args (p\<lparr>a_cubes := c_atoi v\<rparr>)
          else if a = ''--stack'' then bench_args_of atof args (p\<lparr>a_stack := c_atoi v\<rparr>)
          else if a = ''--pile'' then bench_args_of atof args (p\<lparr>a_pile := c_atoi v\<rparr>)
          else if a = ''--solver-iters'' then bench_args_of atof args (p\<lparr>a_iters := c_atoi v\<rparr>)
          else if a = ''--ls-iters'' then bench_args_of atof args (p\<lparr>a_ls_iters := c_atoi v\<rparr>)
          else if a = ''--ticks'' then bench_args_of atof args (p\<lparr>a_ticks := c_atoi v\<rparr>)
          else if a = ''--core'' then bench_args_of atof args (p\<lparr>a_core := c_atoi v\<rparr>)
          else if a = ''--sim-hz'' then bench_args_of atof args (p\<lparr>a_sim_hz := atof v\<rparr>)
          else if a = ''--publish-hz'' then bench_args_of atof args (p\<lparr>a_publish_hz := atof v\<rparr>)
          else if a = ''--interest'' then bench_args_of atof args (p\<lparr>a_interest_m := atof v\<rparr>)
          else if a = ''--log'' then bench_args_of atof args (p\<lparr>a_logbook := Some v\<rparr>)
          else None)"

definition bench_defaults :: "'d bench_dbl \<Rightarrow> 'd bench_args" where
  "bench_defaults D = \<lparr>a_per_player = AVATAR_ENTITIES, a_players = 0, a_cubes = 900, a_stack = 0, a_pile = 0, a_iters = 0,
     a_ls_iters = 0, a_ticks = 100, a_core = 0, a_ramp = False, a_gate = False, a_logbook = None,
     a_sim_hz = d_int D 60, a_publish_hz = d_int D 20, a_interest_m = d_int D 10\<rparr>"

definition makes_a_run :: "'d bench_dbl \<Rightarrow> 'd bench_args \<Rightarrow> bool" where
  "makes_a_run D a =
     (\<not> (a_per_player a < 1 \<or> a_players a < 0 \<or> a_cubes a < 0 \<or> a_stack a < 0 \<or> a_ticks a < 10
        \<or> d_less D (a_sim_hz a) (a_publish_hz a) \<or> d_nonpos D (a_interest_m a)))"

section \<open>How many fit\<close>

definition bench_room :: "int \<Rightarrow> int \<Rightarrow> int" where
  "bench_room cubes per_player = (WARD_AUTHORITY - cubes) sdiv per_player"

text \<open>The ramp: the last number of players that held, 0 when none did, or \<open>None\<close> when a run failed; and the runs it logs, in
  their order.\<close>

fun ramp :: "(int \<Rightarrow> 'd result option) \<Rightarrow> ('d \<Rightarrow> bool) \<Rightarrow> int list \<Rightarrow> int \<Rightarrow> int option \<times> (int \<times> 'd result) list" where
  "ramp at over [] last_ok = (Some last_ok, [])"
| "ramp at over (n # ns) last_ok =
     (case at n of None \<Rightarrow> (None, [])
      | Some r \<Rightarrow>
          if over (rt_median r) then (Some last_ok, [(n, r)])
          else let (last_ok, rows) = ramp at over ns n in (last_ok, (n, r) # rows))"

text \<open>The exit code and the runs that are logged, with what each run was found to be.\<close>

definition bench_exit :: "(int \<Rightarrow> 'd result option) \<Rightarrow> ('d \<Rightarrow> bool) \<Rightarrow> 'd bench_args \<Rightarrow> int \<times> (int \<times> 'd result) list" where
  "bench_exit at over a =
     (let room = bench_room (a_cubes a) (a_per_player a) in
      if room < 1 then (2, [])
      else if \<not> a_ramp a then
        (let players = (if a_players a = 0 then room else a_players a) in
         case at players of None \<Rightarrow> (1, [])
         | Some r \<Rightarrow> (if a_gate a \<and> over (rt_median r) then 1 else 0, [(players, r)]))
      else (let (last_ok, rows) = ramp at over (map int [1..<nat room + 1]) 0 in
            (case last_ok of None \<Rightarrow> 1 | Some n \<Rightarrow> if n = 0 then 1 else 0, rows)))"

section \<open>The logbook\<close>

text \<open>\<open>d_f k x\<close> is what \<open>%.kf\<close> writes. A file is its text, or \<open>None\<close> when there is none.\<close>

definition HEADER :: string where
  "HEADER =
     ''| when | run | players | cubes | per player | entities | sim Hz | pub Hz | interest m |'' @
     '' ticks | median ms | worst ms | simulate | encode | fanout | contacts | sent | bytes |'' @ [CHR 0x0A] @
     ''| --- | --- | ---: | ---: | ---: | ---: | ---: | ---: | ---: | ---: | ---: | ---: |'' @
     '' ---: | ---: | ---: | ---: | ---: | ---: |'' @ [CHR 0x0A]"

definition log_text :: "'d bench_dbl \<Rightarrow> string \<Rightarrow> string \<Rightarrow> 'd bench_args \<Rightarrow> int \<Rightarrow> 'd result \<Rightarrow> string" where
  "log_text D when label a players r =
     concat (map (\<lambda>cell. ''| '' @ cell @ '' '')
       [when, label, dec players, dec (a_cubes a), dec (a_per_player a), dec (rt_entities r),
        d_f D 0 (a_sim_hz a), d_f D 0 (a_publish_hz a), d_f D 1 (a_interest_m a), dec (a_ticks a),
        d_f D 2 (rt_median r), d_f D 2 (rt_worst r), d_f D 2 (rt_simulate r), d_f D 2 (rt_encode r), d_f D 2 (rt_slice r),
        dec (int (rt_ncon r)), dec (int (rt_sent r)), dec (int (rt_bytes r))]) @ ''|'' @ [CHR 0x0A]"

definition log_row :: "'d bench_dbl \<Rightarrow> bool \<Rightarrow> string \<Rightarrow> string \<Rightarrow> 'd bench_args \<Rightarrow> int \<times> 'd result \<Rightarrow> string option \<Rightarrow> string option" where
  "log_row D can_open when label a row file =
     (if \<not> can_open then file else
      let text = (case file of None \<Rightarrow> [] | Some text \<Rightarrow> text);
          text = (if length text = 0 then text @ HEADER else text)
      in Some (text @ log_text D when label a (fst row) (snd row)))"

definition log_rows :: "'d bench_dbl \<Rightarrow> bool \<Rightarrow> (int \<Rightarrow> string) \<Rightarrow> 'd bench_args \<Rightarrow> (int \<times> 'd result) list \<Rightarrow> string option \<Rightarrow> string option" where
  "log_rows D can_open when a rows file =
     (if a_logbook a = None then file
      else fold (\<lambda>row. log_row D can_open (when (fst row)) (if a_ramp a then ''ramp'' else ''fixed'') a row) rows file)"

section \<open>The program\<close>

text \<open>\<open>mem n\<close> says what memory the run of \<open>n\<close> players got, \<open>clock n\<close> how often the clock had been read before it, \<open>batch n\<close> what
  the buffer held, and \<open>when n\<close> what the wall clock said after it. The result is the exit code and the logbook.\<close>

definition bench_main :: "('d, 'p) bench_env \<Rightarrow> (string \<Rightarrow> 'd) \<Rightarrow> (int \<Rightarrow> bool \<times> bool) \<Rightarrow> (int \<Rightarrow> nat) \<Rightarrow> (int \<Rightarrow> bytes) \<Rightarrow>
    (int \<Rightarrow> string) \<Rightarrow> bool \<Rightarrow> string list \<Rightarrow> string option \<Rightarrow> int \<times> string option" where
  "bench_main E atof mem clock batch when can_open argv file =
     (let D = be_num E in
      case bench_args_of atof (tl argv) (bench_defaults D) of None \<Rightarrow> (2, file)
      | Some a \<Rightarrow>
          if \<not> makes_a_run D a then (2, file) else
          let budget_ms = d_div D (d_int D 1000) (a_publish_hz a);
              (code, rows) = bench_exit (\<lambda>n. run_at E a (fst (mem n)) (snd (mem n)) (clock n) (batch n) n) (d_less D budget_ms) a
          in (code, log_rows D can_open when a rows file))"

section \<open>The ramp\<close>

lemma ramp_last:
  "\<lbrakk>ramp at over (map int [k..<k + n]) (int k - 1) = (Some last_ok, rows); k \<noteq> 0\<rbrakk> \<Longrightarrow>
     int k - 1 \<le> last_ok \<and> last_ok < int k + int n
     \<and> (\<forall>i. int k \<le> i \<and> i \<le> last_ok \<longrightarrow> (\<exists>r. at i = Some r \<and> \<not> over (rt_median r)))
     \<and> (last_ok = int k + int n - 1 \<or> (\<exists>r. at (last_ok + 1) = Some r \<and> over (rt_median r)))"
proof (induction n arbitrary: k rows)
  case (Suc n)
  have u: "[k..<k + Suc n] = k # [Suc k..<Suc k + n]" by (simp add: upt_rec)
  obtain r where r: "at (int k) = Some r" using Suc.prems(1) unfolding u by (auto split: option.splits)
  show ?case
  proof (cases "over (rt_median r)")
    case True
    then show ?thesis using Suc.prems(1) r unfolding u by auto
  next
    case False
    then obtain rows' where "ramp at over (map int [Suc k..<Suc k + n]) (int (Suc k) - 1) = (Some last_ok, rows')"
      using Suc.prems(1) r unfolding u by (auto simp del: upt_Suc split: prod.splits)
    note IH = Suc.IH [OF this]
    have "\<exists>r. at i = Some r \<and> \<not> over (rt_median r)" if "int k \<le> i \<and> i \<le> last_ok" for i
      using that IH r False by (cases "i = int k") auto
    then show ?thesis using IH by auto
  qed
qed auto

section \<open>The packets of a tick\<close>

lemma to_i16_range: "i16 (to_i16 v)"
  using sint_ge [of "word_of_int v :: 16 word"] sint_lt [of "word_of_int v :: 16 word"] by (simp add: to_i16_def i16_def)

lemma encode_entity_ok:
  assumes "\<And>x. i64 (d_llround D x)"
  shows "packet_ok (encode_entity D cubes per_player hz d e)"
  using assms by (simp add: packet_ok_def encode_entity_def Let_def um_def vel_i16_def to_i16_range)

lemma encode_tick_ok:
  assumes "\<And>x. i64 (d_llround D x)"
  shows "\<forall>p \<in> set (encode_tick D cubes per_player players hz d). packet_ok p"
  using encode_entity_ok [OF assms] by (auto simp: encode_tick_def)

lemma bench_fanout_one_slice:
  assumes "length batch = MAX_SLICE_ENTITIES * XR_PACKET_SIZE" and "\<forall>e \<in> set ents. packet_ok e"
  shows "\<exists>batch' k. bench_fanout_one interest ents bytes batch = (k, bytes + 100 * k, batch') \<and> k \<le> 64 \<and> length batch' = length batch"
proof -
  let ?box = "\<lparr>min_x = interest ! 0, max_x = interest ! 1, min_y = interest ! 2, max_y = interest ! 3,
    min_z = interest ! 4, max_z = interest ! 5\<rparr>"
  obtain batch' where b: "fanout_one ?box ents batch = (length (slice ?box ents),
      if slice ?box ents = [] then None else Some (packed (slice ?box ents)), batch')" "length batch' = length batch"
    using assms by (rule fanout_one_slice)
  have "\<forall>p \<in> set (slice ?box ents). packet_ok p" using assms(2) by (auto simp: slice_def dest!: in_set_takeD)
  note l = length_packed [OF this, unfolded XR_PACKET_SIZE_def]
  have "length (slice ?box ents) \<le> 64" by (simp add: slice_def MAX_SLICE_ENTITIES_def)
  then show ?thesis
    using b l by (auto simp: bench_fanout_one_def Let_def count_only_def mult.commute)
qed

lemma fan_out_counts:
  assumes "\<forall>e \<in> set pks. packet_ok e"
  shows "length batch = MAX_SLICE_ENTITIES * XR_PACKET_SIZE \<Longrightarrow>
    \<exists>k batch'. fan_out cubes per_player interest_um pks ss (sent, bytes, batch) = (sent + k, bytes + 100 * k, batch')
      \<and> k \<le> 64 * length ss \<and> length batch' = MAX_SLICE_ENTITIES * XR_PACKET_SIZE"
proof (induction ss arbitrary: sent bytes batch)
  case (Cons s ss)
  let ?box = "interest_box interest_um (pks ! nat (cubes + int s * per_player))"
  obtain batch1 k1 where one: "bench_fanout_one ?box pks bytes batch = (k1, bytes + 100 * k1, batch1)" "k1 \<le> 64"
    "length batch1 = MAX_SLICE_ENTITIES * XR_PACKET_SIZE"
    using bench_fanout_one_slice [OF Cons.prems assms, of ?box bytes] Cons.prems by auto
  obtain k2 batch2 where "fan_out cubes per_player interest_um pks ss (sent + k1, bytes + 100 * k1, batch1)
      = (sent + k1 + k2, bytes + 100 * k1 + 100 * k2, batch2)" "k2 \<le> 64 * length ss"
    "length batch2 = MAX_SLICE_ENTITIES * XR_PACKET_SIZE"
    using Cons.IH [OF one(3)] by blast
  then show ?case using one by (intro exI [of _ "k1 + k2"] exI [of _ batch2]) simp
qed simp

lemma ramp_rows:
  "ramp at over (map int [k..<k + m]) last_ok = (res, rows) \<Longrightarrow>
     (\<forall>(n, r) \<in> set rows. at n = Some r) \<and> map fst rows = map int [k..<k + length rows]"
proof (induction m arbitrary: k last_ok res rows)
  case (Suc m)
  have u: "[k..<k + Suc m] = k # [Suc k..<Suc k + m]" by (simp add: upt_rec)
  obtain r where r: "at (int k) = Some r \<or> at (int k) = None \<and> rows = []" using Suc.prems unfolding u by (auto split: option.splits)
  show ?case
  proof (cases "at (int k) = None \<or> over (rt_median r)")
    case True
    then show ?thesis using Suc.prems r unfolding u by auto
  next
    case False
    then obtain rows' where rest: "ramp at over (map int [Suc k..<Suc k + m]) (int k) = (res, rows')" and rows: "rows = (int k, r) # rows'"
      using Suc.prems r unfolding u by (auto simp del: upt_Suc split: prod.splits)
    have "[k..<k + Suc (length rows')] = k # [Suc k..<Suc k + length rows']" by (simp add: upt_rec)
    then show ?thesis using Suc.IH [OF rest] False r by (simp add: rows del: upt_Suc)
  qed
qed simp

section \<open>What the logbook holds\<close>

lemma log_rows_text:
  assumes "a_logbook a \<noteq> None"
  shows "log_rows D True when a (row # rows) file = Some
    ((case file of None \<Rightarrow> HEADER | Some text \<Rightarrow> if text = [] then HEADER else text) @
     concat (map (\<lambda>(n, r). log_text D (when n) (if a_ramp a then ''ramp'' else ''fixed'') a n r) (row # rows)))"
proof -
  let ?t = "\<lambda>(n, r). log_text D (when n) (if a_ramp a then ''ramp'' else ''fixed'') a n r"
  let ?f = "\<lambda>row. log_row D True (when (fst row)) (if a_ramp a then ''ramp'' else ''fixed'') a row"
  have "HEADER \<noteq> []" by (simp add: HEADER_def)
  then have more: "fold ?f rows (Some old) = Some (old @ concat (map ?t rows))" if "old \<noteq> []" for old
    using that by (induction rows arbitrary: old) (auto simp: log_row_def Let_def log_text_def)
  have "?f row file = Some ((case file of None \<Rightarrow> HEADER | Some text \<Rightarrow> if text = [] then HEADER else text) @ ?t row)"
    by (cases row) (simp add: log_row_def Let_def split: option.split)
  then show ?thesis
    using assms more \<open>HEADER \<noteq> []\<close> by (auto simp: log_rows_def split: option.splits)
qed

end
