(* ===== verification/Bench_Theorems.thy ===== *)
theory Bench_Theorems
  imports Bench Scene_Theorems Complex_Main
begin

text \<open>
  What the benchmark promises of what it encodes and of what its ramp reports.
\<close>

section \<open>Encoding\<close>

lemma word_int_small:
  assumes "0 \<le> a" "a < 2 ^ 32" "0 \<le> b" "b < 2 ^ 32"
  shows "(word_of_int a :: u32) = word_of_int b \<longleftrightarrow> a = b"
proof
  assume "(word_of_int a :: u32) = word_of_int b"
  then have "unat (word_of_int a :: u32) = unat (word_of_int b :: u32)" by (rule arg_cong)
  then show "a = b" using assms by (simp add: unat_of_int_small)
qed simp

lemma int_div_le: "0 \<le> a \<Longrightarrow> 1 \<le> b \<Longrightarrow> a div b \<le> a" for a b :: int
  using sdiv_le_self [of a b] sdiv_nonneg [of a b] by simp

lemma avatar_owner:
  assumes "0 \<le> a" "a < 2 ^ 24"
  shows "push_bit 24 2 OR (word_of_int a :: u32) = word_of_int (2 ^ 25 + a)"
proof -
  have u: "unat (word_of_int a :: u32) = nat a" using assms by (simp add: unat_of_int_small)
  then have d: "push_bit 24 2 AND (word_of_int a :: u32) = 0" using assms by (intro or_shift_disjoint) simp
  have "unat (push_bit 24 2 :: u32) = 2 ^ 25" by simp
  moreover have "unat (word_of_int (2 ^ 25 + a) :: u32) = nat (2 ^ 25 + a)"
    by (rule unat_of_int_small) (use assms in simp_all)
  ultimately have "unat (push_bit 24 2 OR (word_of_int a :: u32)) = unat (word_of_int (2 ^ 25 + a) :: u32)"
    using assms(1) by (simp only: unat_or_disjoint [OF d] u) (simp add: nat_add_distrib)
  then show ?thesis by (rule unsigned_word_eqI)
qed

lemma owner_of_body:
  assumes "0 \<le> cubes" "1 \<le> per_player" "int e < 2 ^ 24"
  shows "(pk_class_owner (encode_entity D cubes per_player hz d e), pk_sub_index (encode_entity D cubes per_player hz d e)) =
    (if int e < cubes then (word_of_int (2 ^ 24), word_of_int (int e))
     else (word_of_int (2 ^ 25 + (int e - cubes) div per_player), word_of_int ((int e - cubes) mod per_player)))"
proof -
  show ?thesis
  proof (cases "int e < cubes")
    case True
    have "(push_bit 24 1 :: u32) = word_of_int (2 ^ 24)" by code_simp
    then show ?thesis using True by (simp add: encode_entity_def Let_def)
  next
    case False
    then have q: "(int e - cubes) sdiv per_player = (int e - cubes) div per_player"
      "(int e - cubes) smod per_player = (int e - cubes) mod per_player"
      "0 \<le> (int e - cubes) div per_player" "(int e - cubes) div per_player \<le> int e - cubes"
      using assms by (auto simp: sdiv_nonneg smod_nonneg pos_imp_zdiv_nonneg_iff int_div_le)
    then have "push_bit 24 2 OR (word_of_int ((int e - cubes) div per_player) :: u32) =
        word_of_int (2 ^ 25 + (int e - cubes) div per_player)"
      using assms by (intro avatar_owner) auto
    then show ?thesis using False by (simp add: encode_entity_def Let_def q)
  qed
qed

lemma owner_apart:
  assumes "0 \<le> cubes" "1 \<le> per_player" "int i < 2 ^ 24" "int j < 2 ^ 24" "i \<noteq> j"
  shows "(pk_class_owner (encode_entity D cubes per_player hz d i), pk_sub_index (encode_entity D cubes per_player hz d i)) \<noteq>
    (pk_class_owner (encode_entity D cubes per_player hz d j), pk_sub_index (encode_entity D cubes per_player hz d j))"
proof -
  let ?o = "\<lambda>e. if int e < cubes then 2 ^ 24 else 2 ^ 25 + (int e - cubes) div per_player"
  let ?s = "\<lambda>e. if int e < cubes then int e else (int e - cubes) mod per_player"
  have small: "0 \<le> ?o e \<and> ?o e < 2 ^ 32 \<and> 0 \<le> ?s e \<and> ?s e < 2 ^ 32" if "int e < 2 ^ 24" for e
  proof (cases "int e < cubes")
    case False
    then have "0 \<le> (int e - cubes) div per_player" "(int e - cubes) div per_player \<le> int e - cubes"
      "0 \<le> (int e - cubes) mod per_player" "(int e - cubes) mod per_player \<le> int e - cubes"
      using assms by (auto simp: pos_imp_zdiv_nonneg_iff int_div_le zmod_le_nonneg_dividend)
    then show ?thesis using False assms(1) that by simp
  qed (use that in simp)
  have dif: "?o i \<noteq> ?o j \<or> ?s i \<noteq> ?s j"
  proof (rule ccontr)
    assume "\<not> ?thesis"
    then have o: "?o i = ?o j" and s: "?s i = ?s j" by auto
    have "0 \<le> (int e - cubes) div per_player" if "\<not> int e < cubes" for e
      using that assms(2) by (simp add: pos_imp_zdiv_nonneg_iff)
    note nn = this [of i] this [of j]
    show False
    proof (cases "int i < cubes")
      case True
      then show False using o s nn assms(5) by (simp split: if_splits)
    next
      case False
      then have "\<not> int j < cubes" using o nn by (simp split: if_splits)
      then have "(int i - cubes) div per_player = (int j - cubes) div per_player"
        "(int i - cubes) mod per_player = (int j - cubes) mod per_player" using o s False by simp_all
      then have "int i - cubes = int j - cubes" by (metis div_mult_mod_eq)
      then show False using assms(5) by simp
    qed
  qed
  have apart: "(word_of_int a :: u32, word_of_int b :: u32) \<noteq> (word_of_int c, word_of_int d)"
    if "a \<noteq> c \<or> b \<noteq> d" "0 \<le> a \<and> a < 2 ^ 32 \<and> 0 \<le> b \<and> b < 2 ^ 32" "0 \<le> c \<and> c < 2 ^ 32 \<and> 0 \<le> d \<and> d < 2 ^ 32" for a b c d
    using that by (auto simp: word_int_small)
  have pair: "(pk_class_owner (encode_entity D cubes per_player hz d e), pk_sub_index (encode_entity D cubes per_player hz d e)) =
      (word_of_int (?o e), word_of_int (?s e))" if "int e < 2 ^ 24" for e
    unfolding owner_of_body [OF assms(1,2) that] by (cases "int e < cubes") (simp_all only: if_True if_False)
  show ?thesis unfolding pair [OF assms(3)] pair [OF assms(4)] by (rule apart) (use dif small assms in blast)+
qed

text \<open>No two entities of a tick are taken for each other: while a tick has fewer than 2 to the 24th entities, their numbers
  differ, and so do their pairs of owner and index.\<close>

theorem entities_encode_apart:
  assumes "0 \<le> cubes" and "1 \<le> per_player" and "cubes + players * per_player < 2 ^ 24"
    and "i < nat (cubes + players * per_player)" and "j < nat (cubes + players * per_player)" and "i \<noteq> j"
  shows "let pks = encode_tick D cubes per_player players hz d in
    pk_gid (pks ! i) \<noteq> pk_gid (pks ! j)
    \<and> (pk_class_owner (pks ! i), pk_sub_index (pks ! i)) \<noteq> (pk_class_owner (pks ! j), pk_sub_index (pks ! j))"
proof -
  define pks where "pks = encode_tick D cubes per_player players hz d"
  have at: "pks ! e = encode_entity D cubes per_player hz d e" if "e < nat (cubes + players * per_player)" for e
    using that by (simp add: pks_def encode_tick_def)
  have gid: "pk_gid (encode_entity D cubes per_player hz d e) = word_of_int (int e + 1)" for e
    by (simp add: encode_entity_def Let_def add.commute)
  have "(pk_class_owner (pks ! i), pk_sub_index (pks ! i)) \<noteq> (pk_class_owner (pks ! j), pk_sub_index (pks ! j))"
    unfolding at [OF assms(4)] at [OF assms(5)]
    by (rule owner_apart) (use assms in auto)
  moreover have "pk_gid (pks ! i) \<noteq> pk_gid (pks ! j)"
    unfolding at [OF assms(4)] at [OF assms(5)] gid using assms by (subst word_int_small) auto
  ultimately show ?thesis by (simp add: pks_def [symmetric])
qed

text \<open>Four bodies, two of them cubes and two of them one avatar's.\<close>

definition ex_bench_dbl :: "int bench_dbl" where
  "ex_bench_dbl = dbl.extend ex_dbl \<lparr>d_div = (\<lambda>a b. a * 1000 div b), d_llround = (\<lambda>a. sint (word_of_int (a div 1000) :: u64)),
     d_lrint = (\<lambda>a. a div 1000),
     d_f = (\<lambda>_. dec)\<rparr>"

definition ex_bodies :: "int bodies" where
  "ex_bodies = \<lparr>xpos = replicate 5 [0, 1000, 2000], cvel = replicate 5 (replicate 6 1), xquat = replicate 5 (replicate 4 250)\<rparr>"

theorem entities_encode_apart_witness:
  "let pks = encode_tick ex_bench_dbl 2 2 1 20000 ex_bodies in
    (pk_class_owner (pks ! 1), pk_sub_index (pks ! 1)) \<noteq> (pk_class_owner (pks ! 3), pk_sub_index (pks ! 3))
    \<and> pk_pos_um_z (pks ! 3) = 2000000"
proof -
  have "pk_pos_um_z (encode_tick ex_bench_dbl 2 2 1 20000 ex_bodies ! 3) = 2000000" by code_simp
  then show ?thesis using entities_encode_apart [of 2 2 1 1 3 ex_bench_dbl 20000 ex_bodies] by (simp add: Let_def)
qed

section \<open>What is sent and what is logged\<close>

lemma ex_llround: "\<forall>x. i64 (d_llround ex_bench_dbl x)"
  using sint_ge [where ?'a = 64] sint_lt [where ?'a = 64] by (simp add: ex_bench_dbl_def ex_dbl_def dbl.defs bench_dbl.defs i64_def)

text \<open>Doubles as IEEE 754 has them, as far as an encode needs it: the finite ones have a real value; an integer below
  \<open>2^53\<close> is exact; a product or a quotient that is not huge is off by a unit in the last place at most; comparisons are those of the
  values; and \<open>lrint\<close> and \<open>llround\<close> answer an integer at most a half away.\<close>

definition doubles_near :: "'d bench_dbl \<Rightarrow> ('d \<Rightarrow> bool) \<Rightarrow> ('d \<Rightarrow> real) \<Rightarrow> bool" where
  "doubles_near D fin val \<longleftrightarrow>
     (\<forall>i. \<bar>i\<bar> \<le> 2 ^ 53 \<longrightarrow> fin (d_int D i) \<and> val (d_int D i) = of_int i)
     \<and> (\<forall>a b. fin a \<longrightarrow> fin b \<longrightarrow> \<bar>val a * val b\<bar> \<le> 2 ^ 62 \<longrightarrow>
          fin (d_mul D a b) \<and> \<bar>val (d_mul D a b) - val a * val b\<bar> \<le> (\<bar>val a * val b\<bar> + 1) / 2 ^ 52)
     \<and> (\<forall>a b. fin a \<longrightarrow> fin b \<longrightarrow> val b \<noteq> 0 \<longrightarrow> \<bar>val a / val b\<bar> \<le> 2 ^ 62 \<longrightarrow>
          fin (d_div D a b) \<and> \<bar>val (d_div D a b) - val a / val b\<bar> \<le> (\<bar>val a / val b\<bar> + 1) / 2 ^ 52)
     \<and> (\<forall>a b. fin a \<longrightarrow> fin b \<longrightarrow> d_less D a b = (val a < val b))
     \<and> (\<forall>a. fin a \<longrightarrow> \<bar>val a\<bar> \<le> 2 ^ 62 \<longrightarrow>
          \<bar>of_int (d_llround D a) - val a\<bar> \<le> 1 / 2 \<and> \<bar>of_int (d_lrint D a) - val a\<bar> \<le> 1 / 2)"

lemma near_rules:
  assumes "doubles_near D fin val"
  shows near_int: "\<bar>i\<bar> \<le> 2 ^ 53 \<Longrightarrow> fin (d_int D i) \<and> val (d_int D i) = of_int i"
    and near_mul: "fin a \<Longrightarrow> fin b \<Longrightarrow> \<bar>val a * val b\<bar> \<le> m \<Longrightarrow> m \<le> 2 ^ 62 \<Longrightarrow>
      fin (d_mul D a b) \<and> \<bar>val (d_mul D a b) - val a * val b\<bar> \<le> (m + 1) / 2 ^ 52"
    and near_div: "fin a \<Longrightarrow> fin b \<Longrightarrow> val b \<noteq> 0 \<Longrightarrow> \<bar>val a / val b\<bar> \<le> m \<Longrightarrow> m \<le> 2 ^ 62 \<Longrightarrow>
      fin (d_div D a b) \<and> \<bar>val (d_div D a b) - val a / val b\<bar> \<le> (m + 1) / 2 ^ 52"
    and near_less: "fin a \<Longrightarrow> fin b \<Longrightarrow> d_less D a b = (val a < val b)"
    and near_llround: "fin a \<Longrightarrow> \<bar>val a\<bar> \<le> 2 ^ 62 \<Longrightarrow> \<bar>of_int (d_llround D a) - val a\<bar> \<le> 1 / 2"
    and near_lrint: "fin a \<Longrightarrow> \<bar>val a\<bar> \<le> 2 ^ 62 \<Longrightarrow> \<bar>of_int (d_lrint D a) - val a\<bar> \<le> 1 / 2"
proof -
  have up: "\<bar>x - y\<bar> \<le> (m + 1) / 2 ^ 52" if "\<bar>x - y\<bar> \<le> (\<bar>y\<bar> + 1) / 2 ^ 52" "\<bar>y\<bar> \<le> m" for x y m :: real
  proof -
    have "(\<bar>y\<bar> + 1) / 2 ^ 52 \<le> (m + 1) / 2 ^ 52" using that(2) by (intro divide_right_mono) simp_all
    then show ?thesis using that(1) by linarith
  qed
  show "\<bar>i\<bar> \<le> 2 ^ 53 \<Longrightarrow> fin (d_int D i) \<and> val (d_int D i) = of_int i"
    using assms unfolding doubles_near_def by blast
  show "fin (d_mul D a b) \<and> \<bar>val (d_mul D a b) - val a * val b\<bar> \<le> (m + 1) / 2 ^ 52"
    if "fin a" "fin b" "\<bar>val a * val b\<bar> \<le> m" "m \<le> 2 ^ 62"
  proof -
    have "\<bar>val a * val b\<bar> \<le> 2 ^ 62" using that by linarith
    then have "fin (d_mul D a b)" "\<bar>val (d_mul D a b) - val a * val b\<bar> \<le> (\<bar>val a * val b\<bar> + 1) / 2 ^ 52"
      using assms that(1,2) unfolding doubles_near_def by blast+
    then show ?thesis using up that(3) by blast
  qed
  show "fin (d_div D a b) \<and> \<bar>val (d_div D a b) - val a / val b\<bar> \<le> (m + 1) / 2 ^ 52"
    if "fin a" "fin b" "val b \<noteq> 0" "\<bar>val a / val b\<bar> \<le> m" "m \<le> 2 ^ 62"
  proof -
    have "\<bar>val a / val b\<bar> \<le> 2 ^ 62" using that by linarith
    then have "fin (d_div D a b)" "\<bar>val (d_div D a b) - val a / val b\<bar> \<le> (\<bar>val a / val b\<bar> + 1) / 2 ^ 52"
      using assms that(1-3) unfolding doubles_near_def by blast+
    then show ?thesis using up that(4) by blast
  qed
  show "fin a \<Longrightarrow> fin b \<Longrightarrow> d_less D a b = (val a < val b)"
    using assms unfolding doubles_near_def by blast
  show "fin a \<Longrightarrow> \<bar>val a\<bar> \<le> 2 ^ 62 \<Longrightarrow> \<bar>of_int (d_llround D a) - val a\<bar> \<le> 1 / 2"
    using assms unfolding doubles_near_def by blast
  show "fin a \<Longrightarrow> \<bar>val a\<bar> \<le> 2 ^ 62 \<Longrightarrow> \<bar>of_int (d_lrint D a) - val a\<bar> \<le> 1 / 2"
    using assms unfolding doubles_near_def by blast
qed

lemma scale_bound: "\<bar>x\<bar> \<le> b \<Longrightarrow> 0 \<le> c \<Longrightarrow> \<bar>x * c\<bar> \<le> b * c" for x b c :: real
  by (simp add: abs_mult mult_right_mono)

text \<open>The computed value is near the exact one, step by step.\<close>

lemma near_chain: "\<bar>y - x'\<bar> \<le> e \<Longrightarrow> \<bar>x' - x\<bar> \<le> d \<Longrightarrow> \<bar>y - x\<bar> \<le> e + d" for x y x' e d :: real
  by linarith

lemma near_size: "\<bar>y - x\<bar> \<le> e \<Longrightarrow> \<bar>x\<bar> \<le> b \<Longrightarrow> \<bar>y\<bar> \<le> b + e" for x y e b :: real
  by linarith

lemma scale_near: "\<bar>y - x\<bar> \<le> e \<Longrightarrow> 0 \<le> c \<Longrightarrow> \<bar>y * c - x * c\<bar> \<le> e * c" for x y e c :: real
  by (simp add: left_diff_distrib [symmetric] abs_mult mult_right_mono)

lemma divide_near: "\<bar>y - x\<bar> \<le> e \<Longrightarrow> 1 \<le> c \<Longrightarrow> \<bar>y / c - x / c\<bar> \<le> e" for x y e c :: real
proof -
  assume a: "\<bar>y - x\<bar> \<le> e" and c: "1 \<le> c"
  have "\<bar>y / c - x / c\<bar> = \<bar>y - x\<bar> / c" using c by (simp add: diff_divide_distrib [symmetric] abs_divide)
  also have "\<dots> \<le> \<bar>y - x\<bar> / 1" using c by (intro divide_left_mono) simp_all
  finally show ?thesis using a by simp
qed

lemma um_near:
  assumes near: "doubles_near D fin val" and x: "fin x" "\<bar>val x\<bar> \<le> 10 ^ 6"
  shows "\<bar>of_int (um D x) - val x * 10 ^ 6\<bar> \<le> 51 / 100 \<and> i64 (um D x)"
proof -
  let ?y = "d_mul D x (d_int D 1000000)"
  have i: "fin (d_int D 1000000)" "val (d_int D 1000000) = 10 ^ 6" using near_int [OF near, of 1000000] by simp_all
  have m: "\<bar>val x * 10 ^ 6\<bar> \<le> 10 ^ 12" using scale_bound [OF x(2), of "10 ^ 6"] by simp
  have "fin ?y \<and> \<bar>val ?y - val x * 10 ^ 6\<bar> \<le> (10 ^ 12 + 1) / 2 ^ 52"
    using near_mul [OF near x(1) i(1), of "10 ^ 12"] m i(2) by simp
  moreover have "(10 ^ 12 + 1) / 2 ^ 52 \<le> (1 / 100 :: real)" by simp
  ultimately have y: "fin ?y" "\<bar>val ?y - val x * 10 ^ 6\<bar> \<le> 1 / 100" by simp_all
  have "\<bar>val ?y\<bar> \<le> 10 ^ 12 + 1 / 100" by (rule near_size [OF y(2) m])
  also have "\<dots> \<le> 2 ^ 62" by simp
  finally have "\<bar>of_int (um D x) - val ?y\<bar> \<le> 1 / 2" using near_llround [OF near y(1)] by (simp add: um_def)
  from near_chain [OF this y(2)] have d: "\<bar>of_int (um D x) - val x * 10 ^ 6\<bar> \<le> 51 / 100" by simp
  have "\<bar>of_int (um D x)\<bar> \<le> (10 ^ 12 + 51 / 100 :: real)" by (rule near_size [OF d m])
  also have "\<dots> \<le> of_int (2 ^ 62)" by simp
  finally have "\<bar>um D x\<bar> \<le> 2 ^ 62" by linarith
  then show ?thesis using d by (simp add: i64_def abs_le_iff)
qed

lemma to_i16_near:
  fixes c :: real
  assumes "\<bar>of_int k - c\<bar> \<le> 1 / 2" and "- 32768 \<le> c" and "c \<le> 32767 + 1 / 4"
  shows "to_i16 k = k"
proof -
  have "(of_int k :: real) < 32768" using assms(1,3) by linarith
  moreover have "(- 32769 :: real) < of_int k" using assms(1,2) by linarith
  ultimately have "- 32768 \<le> k" "k < 32768" by linarith+
  then show ?thesis unfolding to_i16_def by (intro sint_back) simp_all
qed

definition speed_per_tick :: "real \<Rightarrow> real \<Rightarrow> real" where
  "speed_per_tick v hz = v * 10 ^ 6 / hz * 32767 / 500000"

definition clamped :: "real \<Rightarrow> real" where
  "clamped x = max (- 32768) (min 32767 x)"

lemma clamped_near: "\<bar>x - y\<bar> \<le> e \<Longrightarrow> \<bar>clamped x - clamped y\<bar> \<le> e"
  by (auto simp: clamped_def max_def min_def abs_if split: if_splits)

lemma scaled_near:
  assumes near: "doubles_near D fin val" and v: "fin v" "\<bar>val v\<bar> \<le> 10 ^ 6" and hz: "fin hz" "1 \<le> val hz"
    and y: "y = d_div D (d_mul D (d_div D (d_mul D v (d_int D 1000000)) hz) (d_int D 32767)) (d_int D XR_PACKET_V_MAX)"
  shows "fin y \<and> \<bar>val y - speed_per_tick (val v) (val hz)\<bar> \<le> 1 / 100"
proof -
  let ?a = "d_mul D v (d_int D 1000000)" and ?x = "val v * 10 ^ 6"
  have i: "fin (d_int D 1000000)" "val (d_int D 1000000) = 10 ^ 6" "fin (d_int D 32767)" "val (d_int D 32767) = 32767"
    "fin (d_int D XR_PACKET_V_MAX)" "val (d_int D XR_PACKET_V_MAX) = 500000"
    using near_int [OF near, of 1000000] near_int [OF near, of 32767] near_int [OF near, of XR_PACKET_V_MAX]
    by (simp_all add: XR_PACKET_V_MAX_def)
  have m: "\<bar>?x\<bar> \<le> 10 ^ 12" using scale_bound [OF v(2), of "10 ^ 6"] by simp
  have "fin ?a \<and> \<bar>val ?a - ?x\<bar> \<le> (10 ^ 12 + 1) / 2 ^ 52"
    using near_mul [OF near v(1) i(1), of "10 ^ 12"] m i(2) by simp
  moreover have "(10 ^ 12 + 1) / 2 ^ 52 \<le> (3 / 10000 :: real)" by simp
  ultimately have a: "fin ?a" "\<bar>val ?a - ?x\<bar> \<le> 3 / 10000" by simp_all
  let ?b = "d_div D ?a hz" and ?w = "?x / val hz"
  have ah: "\<bar>val ?a / val hz - ?w\<bar> \<le> 3 / 10000" by (rule divide_near [OF a(2) hz(2)])
  have w: "\<bar>?w\<bar> \<le> 10 ^ 12" using divide_near [of ?x 0 "10 ^ 12" "val hz"] m hz(2) by simp
  have "\<bar>val ?a / val hz\<bar> \<le> 10 ^ 12 + 1" using near_size [OF ah w] by linarith
  then have "fin ?b \<and> \<bar>val ?b - val ?a / val hz\<bar> \<le> (10 ^ 12 + 1 + 1) / 2 ^ 52"
    by (intro near_div [OF near a(1) hz(1)]) (use hz(2) in simp_all)
  moreover have "(10 ^ 12 + 1 + 1) / 2 ^ 52 \<le> (3 / 10000 :: real)" by simp
  ultimately have b: "fin ?b" "\<bar>val ?b - val ?a / val hz\<bar> \<le> 3 / 10000" by simp_all
  have b': "\<bar>val ?b - ?w\<bar> \<le> 6 / 10000" using near_chain [OF b(2) ah] by simp
  let ?c = "d_mul D ?b (d_int D 32767)"
  have bc: "\<bar>val ?b * 32767 - ?w * 32767\<bar> \<le> 20" using scale_near [OF b', of 32767] by simp
  have wc: "\<bar>?w * 32767\<bar> \<le> 10 ^ 12 * 32767" by (rule scale_bound [OF w]) simp
  have "\<bar>val ?b * 32767\<bar> \<le> 10 ^ 12 * 32767 + 20" by (rule near_size [OF bc wc])
  then have "fin ?c \<and> \<bar>val ?c - val ?b * 32767\<bar> \<le> (10 ^ 12 * 32767 + 20 + 1) / 2 ^ 52"
    using near_mul [OF near b(1) i(3), of "10 ^ 12 * 32767 + 20"] i(4) by simp
  moreover have "(10 ^ 12 * 32767 + 20 + 1) / 2 ^ 52 \<le> (8 :: real)" by simp
  ultimately have c: "fin ?c" "\<bar>val ?c - val ?b * 32767\<bar> \<le> 8" by simp_all
  have c': "\<bar>val ?c - ?w * 32767\<bar> \<le> 28" using near_chain [OF c(2) bc] by simp
  have cd: "\<bar>val ?c / 500000 - ?w * 32767 / 500000\<bar> \<le> 28 / 500000"
    using scale_near [OF c', of "1 / 500000"] by simp
  have "\<bar>?w * 32767 / 500000\<bar> \<le> 10 ^ 12 * 32767 / 500000" using scale_bound [OF wc, of "1 / 500000"] by simp
  from near_size [OF cd this] have "\<bar>val ?c / 500000\<bar> \<le> 10 ^ 12" by simp
  then have "fin y \<and> \<bar>val y - val ?c / 500000\<bar> \<le> (10 ^ 12 + 1) / 2 ^ 52"
    using near_div [OF near c(1) i(5), of "10 ^ 12"] i(6) y by simp
  moreover have "(10 ^ 12 + 1) / 2 ^ 52 \<le> (1 / 1000 :: real)" by simp
  ultimately have d: "fin y" "\<bar>val y - val ?c / 500000\<bar> \<le> 1 / 1000" by simp_all
  show ?thesis using d(1) near_chain [OF d(2) cd] by (simp add: speed_per_tick_def)
qed

lemma vel_near:
  assumes near: "doubles_near D fin val" and v: "fin v" "\<bar>val v\<bar> \<le> 10 ^ 6" and hz: "fin hz" "1 \<le> val hz"
  shows "\<bar>of_int (vel_i16 D v hz) - clamped (speed_per_tick (val v) (val hz))\<bar> \<le> 51 / 100"
proof -
  define y where "y = d_div D (d_mul D (d_div D (d_mul D v (d_int D 1000000)) hz) (d_int D 32767)) (d_int D XR_PACKET_V_MAX)"
  have y: "fin y" "\<bar>val y - speed_per_tick (val v) (val hz)\<bar> \<le> 1 / 100" using scaled_near [OF near v hz y_def] by simp_all
  have i: "fin (d_int D 32767)" "val (d_int D 32767) = 32767" "fin (d_int D (- 32768))" "val (d_int D (- 32768)) = - 32768"
    using near_int [OF near, of 32767] near_int [OF near, of "- 32768"] by simp_all
  define c where "c = (let s = (if d_less D (d_int D 32767) y then d_int D 32767 else y)
      in if d_less D s (d_int D (- 32768)) then d_int D (- 32768) else s)"
  have c: "fin c" "val c = clamped (val y)"
    using near_less [OF near i(1) y(1)] near_less [OF near y(1) i(3)] near_less [OF near i(1) i(3)] y(1) i
    by (auto simp: c_def clamped_def Let_def)
  have r: "- 32768 \<le> val c" "val c \<le> 32767" by (simp_all add: c(2) clamped_def)
  then have l: "\<bar>of_int (d_lrint D c) - val c\<bar> \<le> 1 / 2" by (intro near_lrint [OF near c(1)]) simp
  have "vel_i16 D v hz = to_i16 (d_lrint D c)" unfolding vel_i16_def Let_def c_def y_def by (rule refl)
  then have v: "vel_i16 D v hz = d_lrint D c" using to_i16_near [OF l] r by simp
  have "\<bar>clamped (val y) - clamped (speed_per_tick (val v) (val hz))\<bar> \<le> 1 / 100"
    by (rule clamped_near [OF y(2)])
  from near_chain [OF l [unfolded c(2)] this] show ?thesis by (simp add: v)
qed

lemma rot_near:
  assumes near: "doubles_near D fin val" and q: "fin q" "\<bar>val q\<bar> \<le> 1"
  shows "\<bar>of_int (to_i16 (d_lrint D (d_mul D q (d_int D 32767)))) - val q * 32767\<bar> \<le> 51 / 100"
proof -
  let ?y = "d_mul D q (d_int D 32767)"
  have i: "fin (d_int D 32767)" "val (d_int D 32767) = 32767" using near_int [OF near, of 32767] by simp_all
  have m: "\<bar>val q * 32767\<bar> \<le> 32767" using scale_bound [OF q(2), of 32767] by simp
  have "fin ?y \<and> \<bar>val ?y - val q * 32767\<bar> \<le> (32767 + 1) / 2 ^ 52" using near_mul [OF near q(1) i(1), of 32767] m i(2) by simp
  moreover have "(32767 + 1) / 2 ^ 52 \<le> (1 / 1000 :: real)" by simp
  ultimately have y: "fin ?y" "\<bar>val ?y - val q * 32767\<bar> \<le> 1 / 1000" by simp_all
  have size: "\<bar>val ?y\<bar> \<le> 32767 + 1 / 1000" by (rule near_size [OF y(2) m])
  then have l: "\<bar>of_int (d_lrint D ?y) - val ?y\<bar> \<le> 1 / 2" by (intro near_lrint [OF near y(1)]) simp
  have "to_i16 (d_lrint D ?y) = d_lrint D ?y" by (rule to_i16_near [OF l]) (use size in linarith)+
  then show ?thesis using near_chain [OF l y(2)] by simp
qed

text \<open>A body of a world that is not absurd: finite numbers, within a thousand kilometres of the origin, slower than a thousand
  kilometres a second, and a rotation whose parts are at most one.\<close>

definition body_near :: "('d \<Rightarrow> bool) \<Rightarrow> ('d \<Rightarrow> real) \<Rightarrow> 'd bodies \<Rightarrow> nat \<Rightarrow> bool" where
  "body_near fin val d b \<longleftrightarrow>
     (\<forall>k \<in> {0, 1, 2}. fin (xpos d ! b ! k) \<and> \<bar>val (xpos d ! b ! k)\<bar> \<le> 10 ^ 6)
     \<and> (\<forall>k \<in> {3, 4, 5}. fin (cvel d ! b ! k) \<and> \<bar>val (cvel d ! b ! k)\<bar> \<le> 10 ^ 6)
     \<and> (\<forall>k \<in> {1, 2, 3}. fin (xquat d ! b ! k) \<and> \<bar>val (xquat d ! b ! k)\<bar> \<le> 1)"

text \<open>C30. A receiver sees the bodies where they are: from the bytes of the packet of an entity it reads its number, each
  coordinate to half a micrometre, the velocity on each axis to half a step of its scale, taken to the end of the scale and
  never around it when the body is too fast, and the rotation to half a step (each to 0.51, for the rounding of the
  doubles on the way), for a world that is not absurd and doubles as IEEE 754 has them.\<close>

theorem receiver_sees_the_bodies:
  assumes "doubles_near D fin val" and "fin hz" and "1 \<le> val hz"
    and "e < nat (cubes + players * per_player)" and "body_near fin val d (e + 1)"
  shows "let p = packet_decode (packet_encode (encode_tick D cubes per_player players hz d ! e) @ bs); b = e + 1;
       pos = (\<lambda>k. val (xpos d ! b ! k) * 10 ^ 6);
       vel = (\<lambda>k. clamped (val (cvel d ! b ! k) * 10 ^ 6 / val hz * 32767 / 500000));
       rot = (\<lambda>k. val (xquat d ! b ! k) * 32767) in
     pk_gid p = word_of_nat b
     \<and> \<bar>of_int (pk_pos_um_x p) - pos 0\<bar> \<le> 51 / 100 \<and> \<bar>of_int (pk_pos_um_y p) - pos 1\<bar> \<le> 51 / 100 \<and> \<bar>of_int (pk_pos_um_z p) - pos 2\<bar> \<le> 51 / 100
     \<and> \<bar>of_int (pk_vel_x p) - vel 3\<bar> \<le> 51 / 100 \<and> \<bar>of_int (pk_vel_y p) - vel 4\<bar> \<le> 51 / 100 \<and> \<bar>of_int (pk_vel_z p) - vel 5\<bar> \<le> 51 / 100
     \<and> \<bar>of_int (pk_rot_x p) - rot 1\<bar> \<le> 51 / 100 \<and> \<bar>of_int (pk_rot_y p) - rot 2\<bar> \<le> 51 / 100 \<and> \<bar>of_int (pk_rot_z p) - rot 3\<bar> \<le> 51 / 100"
proof -
  let ?p = "encode_entity D cubes per_player hz d e"
  note um = um_near [OF assms(1)] and vel = vel_near [OF assms(1) _ _ assms(2,3), unfolded speed_per_tick_def] and rot = rot_near [OF assms(1)]
  have at: "encode_tick D cubes per_player players hz d ! e = ?p" using assms(4) by (simp add: encode_tick_def)
  have b: "\<forall>k \<in> {0, 1, 2}. fin (xpos d ! (e + 1) ! k) \<and> \<bar>val (xpos d ! (e + 1) ! k)\<bar> \<le> 10 ^ 6"
    "\<forall>k \<in> {3, 4, 5}. fin (cvel d ! (e + 1) ! k) \<and> \<bar>val (cvel d ! (e + 1) ! k)\<bar> \<le> 10 ^ 6"
    "\<forall>k \<in> {1, 2, 3}. fin (xquat d ! (e + 1) ! k) \<and> \<bar>val (xquat d ! (e + 1) ! k)\<bar> \<le> 1"
    using assms(5) unfolding body_near_def by blast+
  have "packet_ok ?p"
    using b(1) um by (simp add: packet_ok_def encode_entity_def Let_def vel_i16_def to_i16_range)
  then show ?thesis
    using b um vel rot unfolding at decode_encode [OF \<open>packet_ok ?p\<close>] Let_def
    by (simp add: encode_entity_def Let_def)
qed

text \<open>Doubles that are exact, and a body at one and a half metres that moves at fifteen metres a second, faster than the scale has.\<close>

definition exact_dbl :: "real bench_dbl" where
  "exact_dbl = dbl.extend \<lparr>d_int = of_int, d_lit = (\<lambda>m e. of_int m / 10 ^ nat e), d_add = (+), d_sub = (-), d_mul = (*),
       d_sin = sin, d_cos = cos, d_fabs = abs, d_less = (<), d_nonpos = (\<lambda>a. a \<le> 0), d_g = (\<lambda>a. dec (round a))\<rparr>
     \<lparr>d_div = (/), d_llround = round, d_lrint = round, d_f = (\<lambda>_ a. dec (round a))\<rparr>"

lemma exact_near: "doubles_near exact_dbl (\<lambda>_. True) id"
  using of_int_round_abs_le [where ?'a = real] by (simp add: doubles_near_def exact_dbl_def dbl.defs bench_dbl.defs abs_minus_commute)

definition fast_bodies :: "real bodies" where
  "fast_bodies = \<lparr>xpos = replicate 2 [3 / 2, 0, 0], cvel = replicate 2 [0, 0, 0, 15, - 15, 0], xquat = replicate 2 [1, 0, 0, 0]\<rparr>"

theorem receiver_sees_the_bodies_witness:
  "let p = packet_decode (packet_encode (encode_tick exact_dbl 1 3 0 20 fast_bodies ! 0)) in
     \<bar>of_int (pk_pos_um_x p) - 1500000\<bar> \<le> (51 / 100 :: real) \<and> \<bar>of_int (pk_vel_x p) - 32767\<bar> \<le> (51 / 100 :: real)
     \<and> \<bar>of_int (pk_vel_y p) + 32768\<bar> \<le> (51 / 100 :: real)"
proof -
  have "body_near (\<lambda>_. True) id fast_bodies (0 + 1)" by (simp add: body_near_def fast_bodies_def)
  from receiver_sees_the_bodies [OF exact_near _ _ _ this, of 20 1 0 3 "[]"] show ?thesis
    by (simp add: Let_def fast_bodies_def clamped_def)
qed

text \<open>C31. What a tick reports of its fan-out is what a network would carry: from a buffer of 6400 bytes, the bytes it counts are
  100 for every entity it counts, and the entities are at most 64 for every player.\<close>

theorem tick_counts_packets:
  assumes "\<forall>x. i64 (d_llround (be_num E) x)" and "length (rs_batch s) = 6400" and "one_tick E c home s = (x, s')"
  shows "sp_bytes x = 100 * sp_sent x \<and> sp_sent x \<le> 64 * nat (rc_players c) \<and> length (rs_batch s') = 6400"
proof -
  have b: "length (rs_batch s) = MAX_SLICE_ENTITIES * XR_PACKET_SIZE" using assms(2) by (simp add: MAX_SLICE_ENTITIES_def XR_PACKET_SIZE_def)
  note ok = encode_tick_ok [OF assms(1) [rule_format]]
  obtain k batch' where "fan_out (rc_cubes c) (rc_per_player c) (rc_interest_um c)
      (encode_tick (be_num E) (rc_cubes c) (rc_per_player c) (rc_players c) (rc_publish_hz c)
        (be_bodies E ((be_step E ^^ rc_substeps c) (drive_avatars E home (rs_tick s) (rs_world s)))))
      [0..<nat (rc_players c)] (0, 0, rs_batch s) = (k, 100 * k, batch')"
    and "k \<le> 64 * nat (rc_players c)" "length batch' = 64 * 100"
    using fan_out_counts [OF ok b, where sent = 0 and bytes = 0 and ss = "[0..<nat (rc_players c)]"]
    unfolding MAX_SLICE_ENTITIES_def XR_PACKET_SIZE_def add_0 length_upt diff_zero by blast
  then show ?thesis using assms(3) by (auto simp: one_tick_def Let_def)
qed

text \<open>A world that stands still, and a clock that counts.\<close>

definition ex_env :: "(int, unit) bench_env" where
  "ex_env = \<lparr>be_num = ex_bench_dbl, be_now_ms = int, be_init = (\<lambda>_. Some ()), be_nbody = (\<lambda>_. 5), be_mocap = (\<lambda>_. []),
     be_set_mocap = (\<lambda>_ x. x), be_step = id, be_bodies = (\<lambda>_. ex_bodies), be_ncon = (\<lambda>_. 1)\<rparr>"

definition ex_run :: "int run_cfg" where
  "ex_run = \<lparr>rc_players = 1, rc_cubes = 2, rc_per_player = 2, rc_substeps = 3, rc_publish_hz = 20000, rc_interest_um = 10000000\<rparr>"

theorem tick_counts_packets_witness:
  "sp_bytes (fst (one_tick ex_env ex_run [] \<lparr>rs_world = (), rs_tick = 0, rs_clock = 0, rs_batch = replicate 6400 0\<rparr>)) \<le> 6400"
proof -
  let ?s = "\<lparr>rs_world = (), rs_tick = 0, rs_clock = 0, rs_batch = replicate 6400 0\<rparr>"
  have "\<forall>x. i64 (d_llround (be_num ex_env) x)" using ex_llround by (simp add: ex_env_def)
  from tick_counts_packets [OF this, of ?s ex_run "[]"] show ?thesis
    by (cases "one_tick ex_env ex_run [] ?s") (simp add: ex_run_def)
qed

text \<open>The logbook has one header and one row for every run that came to an end: whatever the runs answer, a process that
  was told to log and could open the file leaves what was in it, under a header if it was empty, and behind it the rows of
  its runs in their order, the one that missed the budget among them.\<close>

theorem logbook_has_one_header:
  assumes "a_logbook a \<noteq> None" and "bench_exit answers over a = (code, rows)" and "rows \<noteq> []"
  shows "log_rows D True when a rows file = Some
      ((case file of None \<Rightarrow> HEADER | Some text \<Rightarrow> if text = [] then HEADER else text) @
       concat (map (\<lambda>(n, r). log_text D (when n) (if a_ramp a then ''ramp'' else ''fixed'') a n r) rows))
    \<and> (\<forall>(n, r) \<in> set rows. answers n = Some r) \<and> (a_ramp a \<longrightarrow> map fst rows = map int [1..<Suc (length rows)])"
proof -
  have "(\<forall>(n, r) \<in> set rows. answers n = Some r) \<and> (a_ramp a \<longrightarrow> map fst rows = map int [1..<Suc (length rows)])"
  proof (cases "a_ramp a \<and> 0 < bench_room (a_cubes a) (a_per_player a)")
    case True
    then obtain last_ok where "ramp answers over (map int [1..<1 + nat (bench_room (a_cubes a) (a_per_player a))]) 0 = (last_ok, rows)"
      using assms(2) by (auto simp: bench_exit_def Let_def simp del: upt_Suc split: if_splits prod.splits)
    from ramp_rows [OF this] show ?thesis by simp
  next
    case False
    then show ?thesis using assms(2,3) by (auto simp: bench_exit_def Let_def split: if_splits option.splits)
  qed
  moreover obtain row rest where "rows = row # rest" using assms(3) by (cases rows) auto
  ultimately show ?thesis using log_rows_text [OF assms(1)] by simp
qed

definition ex_result :: "int \<Rightarrow> int result" where
  "ex_result n = \<lparr>rt_median = n, rt_worst = n, rt_simulate = 0, rt_encode = 0, rt_slice = 0, rt_ncon = 0, rt_entities = n, rt_sent = 0,
     rt_bytes = 0\<rparr>"

definition ex_args :: "int bench_args" where
  "ex_args = (bench_defaults ex_bench_dbl)\<lparr>a_ramp := True, a_logbook := Some ''log'', a_cubes := WARD_AUTHORITY - 6\<rparr>"

theorem logbook_has_one_header_witness:
  "\<exists>rows. log_rows ex_bench_dbl True (\<lambda>_. ''now'') ex_args [(1, ex_result 1), (2, ex_result 2)] None = Some (HEADER @ rows)"
proof -
  have "bench_exit (\<lambda>n. Some (ex_result n)) (\<lambda>m. 1 < m) ex_args = (0, [(1, ex_result 1), (2, ex_result 2)])" by code_simp
  from logbook_has_one_header [OF _ this, of ex_bench_dbl "\<lambda>_. ''now''" None] show ?thesis by (auto simp: ex_args_def)
qed

end
